(* ===== verification/Apogee_Prelude.thy ===== *)
theory Apogee_Prelude
  imports Main "HOL-Library.Word"
begin

text \<open>
  Shared ground of the development.

  A Rust computation that may panic is a value of \<open>'a res\<close>: \<open>Inl\<close> carries the panic,
  \<open>Inr\<close> the result. The model is that of the development profile, which is what
  \<open>cargo run\<close> and \<open>cargo test\<close> build: unchecked arithmetic that overflows panics and
  every \<open>debug_assert!\<close> is evaluated. The theorems that show the absence of panics
  therefore also show that the release profile, which would wrap around silently,
  computes the same values.

  A \<open>usize\<close> that counts bytes or is an address of the heap is a \<open>nat\<close> with the bound
  \<open>USIZE_MAX\<close> written into every operation; identifiers and CPU registers are
  \<open>64 word\<close> values, whose addition wraps around as an atomic \<open>fetch_add\<close> does.
\<close>

unbundle bit_operations_syntax

type_synonym u8 = "8 word"
type_synonym u16 = "16 word"
type_synonym u64 = "64 word"
type_synonym usize = nat

named_theorems res_simps \<open>equations that run the panic monad\<close>

section \<open>Panics\<close>

datatype panic =
    ArithmeticOverflow
  | IndexOutOfBounds
  | AssertFailed string
  | ExpectFailed string
  | Panicked string

type_synonym 'a res = "panic + 'a"

definition bind_res :: "'a res \<Rightarrow> ('a \<Rightarrow> 'b res) \<Rightarrow> 'b res" where
  "bind_res m f = (case m of Inl e \<Rightarrow> Inl e | Inr x \<Rightarrow> f x)"

definition debug_assert :: "bool \<Rightarrow> string \<Rightarrow> unit res" where
  "debug_assert c msg = (if c then Inr () else Inl (AssertFailed msg))"

definition expect :: "'a option \<Rightarrow> string \<Rightarrow> 'a res" where
  "expect x msg = (case x of None \<Rightarrow> Inl (ExpectFailed msg) | Some v \<Rightarrow> Inr v)"

lemma bind_res_Inl [simp, res_simps]: "bind_res (Inl e) f = Inl e"
  by (simp add: bind_res_def)

lemma bind_res_Inr [simp, res_simps]: "bind_res (Inr x) f = f x"
  by (simp add: bind_res_def)

lemma bind_res_cong [fundef_cong]:
  "m = m' \<Longrightarrow> (\<And>x. m' = Inr x \<Longrightarrow> f x = g x) \<Longrightarrow> bind_res m f = bind_res m' g"
  by (cases m') auto

lemma bind_res_eq_Inr: "bind_res m f = Inr y \<longleftrightarrow> (\<exists>x. m = Inr x \<and> f x = Inr y)"
  by (cases m) auto

lemma bind_res_assoc: "bind_res (bind_res m f) g = bind_res m (\<lambda>x. bind_res (f x) g)"
  by (cases m) auto

lemma debug_assert_True [simp, res_simps]: "c \<Longrightarrow> debug_assert c msg = Inr ()"
  by (simp add: debug_assert_def)

lemma debug_assert_eq_Inr: "debug_assert c msg = Inr u \<longleftrightarrow> c"
  by (simp add: debug_assert_def)

lemma expect_Some [simp, res_simps]: "expect (Some v) msg = Inr v"
  by (simp add: expect_def)

lemma expect_None [simp, res_simps]: "expect None msg = Inl (ExpectFailed msg)"
  by (simp add: expect_def)

text \<open>\<open>iter_res k f s\<close> runs \<open>f\<close> k times, stopping at the first panic.\<close>

primrec iter_res :: "nat \<Rightarrow> ('s \<Rightarrow> 's res) \<Rightarrow> 's \<Rightarrow> 's res" where
  "iter_res 0 f s = Inr s"
| "iter_res (Suc k) f s = bind_res (iter_res k f s) f"

text \<open>\<open>for_res f xs s\<close> is the loop \<open>for x in xs { f(x) }\<close> on a state.\<close>

primrec for_res :: "('a \<Rightarrow> 's \<Rightarrow> 's res) \<Rightarrow> 'a list \<Rightarrow> 's \<Rightarrow> 's res" where
  "for_res f [] s = Inr s"
| "for_res f (x # xs) s = bind_res (f x s) (for_res f xs)"

lemma for_res_append:
  "for_res f (xs @ ys) s = bind_res (for_res f xs s) (for_res f ys)"
proof (induction xs arbitrary: s)
  case (Cons x xs)
  then show ?case by (cases "f x s") simp_all
qed simp

section \<open>Bounded machine arithmetic on \<open>usize\<close>\<close>

definition USIZE_MAX :: usize where
  "USIZE_MAX = 2 ^ 64 - 1"

definition usize_add :: "usize \<Rightarrow> usize \<Rightarrow> usize res" where
  "usize_add a b = (if a + b \<le> USIZE_MAX then Inr (a + b) else Inl ArithmeticOverflow)"

definition usize_sub :: "usize \<Rightarrow> usize \<Rightarrow> usize res" where
  "usize_sub a b = (if b \<le> a then Inr (a - b) else Inl ArithmeticOverflow)"

definition usize_mul :: "usize \<Rightarrow> usize \<Rightarrow> usize res" where
  "usize_mul a b = (if a * b \<le> USIZE_MAX then Inr (a * b) else Inl ArithmeticOverflow)"

definition checked_add :: "usize \<Rightarrow> usize \<Rightarrow> usize option" where
  "checked_add a b = (if a + b \<le> USIZE_MAX then Some (a + b) else None)"

definition saturating_add :: "usize \<Rightarrow> usize \<Rightarrow> usize" where
  "saturating_add a b = min (a + b) USIZE_MAX"

definition saturating_sub :: "usize \<Rightarrow> usize \<Rightarrow> usize" where
  "saturating_sub a b = (if b \<le> a then a - b else 0)"

definition usize_not :: "usize \<Rightarrow> usize" where
  \<comment> \<open>the bitwise complement of a 64-bit value\<close>
  "usize_not a = USIZE_MAX - a"

lemma usize_add_ok [simp, res_simps]: "a + b \<le> USIZE_MAX \<Longrightarrow> usize_add a b = Inr (a + b)"
  by (simp add: usize_add_def)

lemma usize_sub_ok [simp, res_simps]: "b \<le> a \<Longrightarrow> usize_sub a b = Inr (a - b)"
  by (simp add: usize_sub_def)

lemma usize_mul_ok [simp, res_simps]: "a * b \<le> USIZE_MAX \<Longrightarrow> usize_mul a b = Inr (a * b)"
  by (simp add: usize_mul_def)

lemma usize_add_eq_Inr: "usize_add a b = Inr c \<longleftrightarrow> c = a + b \<and> a + b \<le> USIZE_MAX"
  by (auto simp: usize_add_def)

lemma usize_sub_eq_Inr: "usize_sub a b = Inr c \<longleftrightarrow> c = a - b \<and> b \<le> a"
  by (auto simp: usize_sub_def)

lemma checked_add_eq_Some: "checked_add a b = Some c \<longleftrightarrow> c = a + b \<and> a + b \<le> USIZE_MAX"
  by (auto simp: checked_add_def)

lemma saturating_sub_eq [simp]: "saturating_sub a b = a - b"
  by (simp add: saturating_sub_def)

lemma saturating_add_le: "saturating_add a b \<le> USIZE_MAX"
  by (simp add: saturating_add_def)

lemma saturating_add_ok: "a + b \<le> USIZE_MAX \<Longrightarrow> saturating_add a b = a + b"
  by (simp add: saturating_add_def)

section \<open>Rounding to a power of two\<close>

lemma and_high_mask_nat:
  fixes t :: nat
  assumes "t \<le> USIZE_MAX" and "k \<le> 64"
  shows "t AND usize_not (2 ^ k - 1) = t div 2 ^ k * 2 ^ k"
proof -
  have m: "usize_not (2 ^ k - 1) = push_bit k (mask (64 - k))"
  proof -
    have "(2::nat) ^ 64 = 2 ^ k * 2 ^ (64 - k)"
      using assms(2) by (simp flip: power_add)
    then show ?thesis
      by (simp add: usize_not_def USIZE_MAX_def push_bit_eq_mult mask_eq_exp_minus_1
          algebra_simps)
  qed
  have hi: "n < 64" if "bit t n" for n
  proof (rule ccontr)
    assume "\<not> n < 64"
    then have "(2::nat) ^ 64 \<le> 2 ^ n" by (intro power_increasing) simp_all
    then have "t < 2 ^ n" using assms(1) by (simp add: USIZE_MAX_def)
    then show False using that by (simp add: bit_iff_odd)
  qed
  have "t AND push_bit k (mask (64 - k)) = push_bit k (drop_bit k t)"
    by (rule bit_eqI) (auto simp: bit_simps dest: hi)
  then show ?thesis
    unfolding m by (simp add: push_bit_eq_mult drop_bit_eq_div)
qed

lemma round_up_bounds:
  fixes a n :: nat
  assumes "0 < n"
  shows "a \<le> (a + n - 1) div n * n" and "(a + n - 1) div n * n < a + n"
proof -
  let ?q = "(a + n - 1) div n" and ?r = "(a + n - 1) mod n"
  have eq: "?q * n + ?r = a + n - 1" by simp
  have "?r < n" using assms by simp
  with eq assms show "a \<le> ?q * n" and "?q * n < a + n" by linarith+
qed

lemma round_up_least:
  fixes a n m :: nat
  assumes "0 < n" and "n dvd m" and "a \<le> m"
  shows "(a + n - 1) div n * n \<le> m"
proof -
  obtain q where q: "m = n * q" using assms(2) by (elim dvdE)
  have "a + n - 1 < n * q + n" using assms(1,3) q by linarith
  then have "(a + n - 1) div n < q + 1"
    using assms(1) by (simp add: less_mult_imp_div_less algebra_simps)
  then show ?thesis using q by (simp add: mult.commute)
qed

lemma round_up_id:
  fixes a n :: nat
  assumes "0 < n" and "n dvd a"
  shows "(a + n - 1) div n * n = a"
  using round_up_bounds(1) [OF assms(1), of a] round_up_least [OF assms order_refl] by simp

section \<open>Lists\<close>

text \<open>Slice indexing, which panics out of range, and \<open>Iterator::position\<close>.\<close>

definition index_res :: "'a list \<Rightarrow> usize \<Rightarrow> 'a res" where
  "index_res xs i = (if i < length xs then Inr (xs ! i) else Inl IndexOutOfBounds)"

fun position :: "('a \<Rightarrow> bool) \<Rightarrow> 'a list \<Rightarrow> usize option" where
  "position P [] = None"
| "position P (x # xs) = (if P x then Some 0 else map_option Suc (position P xs))"

lemma index_res_ok [simp, res_simps]: "i < length xs \<Longrightarrow> index_res xs i = Inr (xs ! i)"
  by (simp add: index_res_def)

lemma position_Some:
  "position P xs = Some i \<longleftrightarrow> i < length xs \<and> P (xs ! i) \<and> (\<forall>j<i. \<not> P (xs ! j))"
proof (induction xs arbitrary: i)
  case (Cons x xs)
  then show ?case by (cases i) (auto simp: All_less_Suc2)
qed simp

lemma position_None: "position P xs = None \<longleftrightarrow> (\<forall>x\<in>set xs. \<not> P x)"
  by (induction xs) auto

text \<open>Popping from and pushing on one list of a list of lists.\<close>

lemma concat_update:
  assumes "i < length xss"
  shows "concat (xss[i := ys]) = concat (take i xss) @ ys @ concat (drop (Suc i) xss)"
    and "concat xss = concat (take i xss) @ xss ! i @ concat (drop (Suc i) xss)"
proof -
  show "concat (xss[i := ys]) = concat (take i xss) @ ys @ concat (drop (Suc i) xss)"
    using assms by (simp add: upd_conv_take_nth_drop)
  show "concat xss = concat (take i xss) @ xss ! i @ concat (drop (Suc i) xss)"
    using arg_cong [OF id_take_nth_drop [OF assms], of concat] by simp
qed

lemma concat_pop:
  assumes "i < length xss" and "xss ! i = x # xs" and "distinct (map f (concat xss))"
  shows "distinct (map f (concat (xss[i := xs])))"
    and "f x \<notin> f ` set (concat (xss[i := xs]))"
    and "set (concat xss) = insert x (set (concat (xss[i := xs])))"
  using assms(3) unfolding concat_update [OF assms(1)] assms(2) by auto

lemma concat_push:
  assumes "i < length xss" and "distinct (map f (concat xss))" and "f x \<notin> f ` set (concat xss)"
  shows "distinct (map f (concat (xss[i := x # xss ! i])))"
  using assms(2,3) unfolding concat_update [OF assms(1)] by auto

lemma in_set_concat_nth: "i < length xss \<Longrightarrow> x \<in> set (xss ! i) \<Longrightarrow> x \<in> set (concat xss)"
  by auto

lemma in_concat_nthD: "x \<in> set (concat xss) \<Longrightarrow> \<exists>i<length xss. x \<in> set (xss ! i)"
  by (metis UN_E in_set_conv_nth set_concat)

lemma rotate_append_split: "rotate (length xs) (xs @ ys) = ys @ xs"
  by (simp add: rotate_append)

lemma sum_list_take_drop:
  "sum_list (map f xs) = sum_list (map f (take i xs)) + sum_list (map f (drop i xs))"
  for f :: "'a \<Rightarrow> nat"
  by (metis append_take_drop_id map_append sum_list.append)

end
