(* ===== verification/Heap_Interface.thy ===== *)
theory Heap_Interface
  imports Apogee_Prelude
begin

text \<open>
  What the three allocators share (\<open>src/src/allocator/mod.rs\<close>): the heap's constants, the
  rounding function \<open>align_up\<close>, \<open>HeapStats\<close> and the standard library's \<open>Layout\<close>; and the
  contract of Rust's \<open>GlobalAlloc\<close> as the locale \<open>global_alloc\<close>, which the theories of the
  bump, linked-list and fixed-size-block allocators interpret on their own operations.
  The locale proves once what a well-behaved client sees: over any sequence of requests
  the allocator never panics and the live blocks stay aligned, inside the heap and
  pairwise disjoint.
\<close>

named_theorems alloc_simps \<open>definitions of the allocators' leaf operations\<close>

section \<open>Constants, layouts, rounding\<close>

definition HEAP_START :: usize where
  "HEAP_START = 0x444444440000"

definition HEAP_SIZE :: usize where
  "HEAP_SIZE = 100 * 1024"

record HeapStats =
  heap_size :: usize
  free_bytes :: usize

definition align_up :: "usize \<Rightarrow> usize \<Rightarrow> usize res" where
  "align_up addr align =
     bind_res (usize_add addr align) (\<lambda>s.
     bind_res (usize_sub s 1) (\<lambda>t.
     bind_res (usize_sub align 1) (\<lambda>m.
     Inr (t AND usize_not m))))"

text \<open>
  \<open>core::alloc::Layout\<close>: \<open>from_size_align\<close> refuses an alignment that is not a power of two
  and a size that, rounded up to the alignment, exceeds \<open>isize::MAX\<close>.
\<close>

record Layout =
  layout_size :: usize
  layout_align :: usize

definition is_power_of_two :: "usize \<Rightarrow> bool" where
  "is_power_of_two n \<longleftrightarrow> n \<in> set (map (\<lambda>k. 2 ^ k) [0..<64])"

definition from_size_align :: "usize \<Rightarrow> usize \<Rightarrow> Layout option" where
  "from_size_align sz al =
     (if is_power_of_two al \<and> sz + al \<le> 2 ^ 63
      then Some \<lparr>layout_size = sz, layout_align = al\<rparr> else None)"

text \<open>
  The layouts a caller of \<open>GlobalAlloc::alloc\<close> may pass: constructed by \<open>from_size_align\<close>
  and of non-zero size, as the trait's safety section demands.
\<close>

definition layout_ok :: "Layout \<Rightarrow> bool" where
  "layout_ok l \<longleftrightarrow>
     from_size_align (layout_size l) (layout_align l) = Some l \<and> 0 < layout_size l"

definition block :: "usize \<Rightarrow> usize \<Rightarrow> usize set" where
  "block p n = {p..<p + n}"

lemma is_power_of_two_iff: "is_power_of_two n \<longleftrightarrow> (\<exists>k<64. n = 2 ^ k)"
  by (auto simp: is_power_of_two_def)

lemma is_power_of_two_power [simp]: "k < 64 \<Longrightarrow> is_power_of_two (2 ^ k)"
  by (auto simp: is_power_of_two_iff)

lemma is_power_of_two_numerals [simp]:
  "is_power_of_two (Suc 0)" "is_power_of_two 2" "is_power_of_two 4" "is_power_of_two 8"
  "is_power_of_two 16" "is_power_of_two 32" "is_power_of_two 64" "is_power_of_two 128"
  "is_power_of_two 256" "is_power_of_two 512" "is_power_of_two 1024" "is_power_of_two 2048"
  "is_power_of_two 4096"
  using is_power_of_two_power [of 0] is_power_of_two_power [of 1] is_power_of_two_power [of 2]
    is_power_of_two_power [of 3] is_power_of_two_power [of 4] is_power_of_two_power [of 5]
    is_power_of_two_power [of 6] is_power_of_two_power [of 7] is_power_of_two_power [of 8]
    is_power_of_two_power [of 9] is_power_of_two_power [of 10] is_power_of_two_power [of 11]
    is_power_of_two_power [of 12]
  by simp_all

lemma is_power_of_two_pos: "is_power_of_two n \<Longrightarrow> 0 < n"
  by (auto simp: is_power_of_two_iff)

lemma is_power_of_two_le: "is_power_of_two n \<Longrightarrow> n \<le> 2 ^ 63"
proof -
  assume "is_power_of_two n"
  then obtain k where "k < 64" "n = 2 ^ k" by (auto simp: is_power_of_two_iff)
  then show ?thesis using power_increasing [of k 63 "2::nat"] by simp
qed

lemma is_power_of_two_dvd:
  "is_power_of_two m \<Longrightarrow> is_power_of_two n \<Longrightarrow> m \<le> n \<Longrightarrow> m dvd n"
  by (auto simp: is_power_of_two_iff le_imp_power_dvd power_le_imp_le_exp)

lemma is_power_of_two_max:
  "is_power_of_two m \<Longrightarrow> is_power_of_two n \<Longrightarrow> is_power_of_two (max m n)"
  by (simp add: max_def)

lemma layout_okD:
  assumes "layout_ok l"
  shows "is_power_of_two (layout_align l)" and "0 < layout_size l"
    and "layout_size l + layout_align l \<le> 2 ^ 63"
  using assms by (auto simp: layout_ok_def from_size_align_def split: if_splits)

lemma layout_okI:
  "is_power_of_two al \<Longrightarrow> 0 < sz \<Longrightarrow> sz + al \<le> 2 ^ 63 \<Longrightarrow>
     layout_ok \<lparr>layout_size = sz, layout_align = al\<rparr>"
  by (simp add: layout_ok_def from_size_align_def)

lemma from_size_align_eq:
  "from_size_align s a = Some l \<longleftrightarrow>
     is_power_of_two a \<and> s + a \<le> 2 ^ 63 \<and> l = \<lparr>layout_size = s, layout_align = a\<rparr>"
  by (auto simp: from_size_align_def)

text \<open>The shape of \<open>align_up\<close> on every input whose first addition does not overflow.\<close>

lemma align_up_eq:
  assumes "is_power_of_two al" and "addr + al \<le> USIZE_MAX"
  shows "align_up addr al = Inr ((addr + al - 1) div al * al)"
proof -
  obtain k where k: "k < 64" "al = 2 ^ k" using assms(1) by (auto simp: is_power_of_two_iff)
  have "0 < al" using assms(1) by (rule is_power_of_two_pos)
  moreover have "addr + al - 1 \<le> USIZE_MAX" using assms(2) by simp
  ultimately have "(addr + al - 1) AND usize_not (al - 1) = (addr + al - 1) div al * al"
    using and_high_mask_nat [of "addr + al - 1" k] k by simp
  then show ?thesis
    using assms(2) \<open>0 < al\<close> by (simp add: align_up_def usize_sub_def)
qed

lemma align_up_ok:
  assumes "is_power_of_two al" and "addr + al \<le> USIZE_MAX"
  obtains r where "align_up addr al = Inr r" and "addr \<le> r" and "r < addr + al" and "al dvd r"
    and "\<And>m. al dvd m \<Longrightarrow> addr \<le> m \<Longrightarrow> r \<le> m"
proof -
  have pos: "0 < al" using assms(1) by (rule is_power_of_two_pos)
  let ?r = "(addr + al - 1) div al * al"
  show thesis
    by (rule that [of ?r])
      (use align_up_eq [OF assms] round_up_bounds [OF pos, of addr] round_up_least [OF pos, of _ addr]
        in \<open>simp_all\<close>)
qed

lemma align_up_id:
  assumes "is_power_of_two al" and "addr + al \<le> USIZE_MAX" and "al dvd addr"
  shows "align_up addr al = Inr addr"
  using align_up_eq [OF assms(1,2)] round_up_id [OF is_power_of_two_pos [OF assms(1)] assms(3)]
  by simp

lemma block_disjoint_iff:
  "0 < m \<Longrightarrow> 0 < n \<Longrightarrow> block p m \<inter> block q n = {} \<longleftrightarrow> p + m \<le> q \<or> q + n \<le> p"
  by (auto simp: block_def)

lemma block_mono: "m \<le> n \<Longrightarrow> block p m \<subseteq> block p n"
  by (auto simp: block_def)

lemma finite_block [simp]: "finite (block p n)"
  by (simp add: block_def)

lemma card_block [simp]: "card (block p n) = n"
  by (simp add: block_def)

section \<open>The contract of \<open>GlobalAlloc\<close>\<close>

text \<open>
  The contract speaks of the live blocks, a map from the address a client holds to the
  layout it was allocated with. The invariant relates the allocator's state to them.
  Address 0 is the null pointer.
\<close>

type_synonym live = "usize \<rightharpoonup> Layout"

datatype request = Alloc Layout | Dealloc usize

text \<open>
  One request of a client, and a sequence of them, served by any pair of operations of
  the trait's types. A request that the client may not make (a layout the trait excludes,
  an address that is not live) is skipped; \<open>Inl\<close> is the allocator's own panic.
\<close>

fun serve ::
  "('s \<Rightarrow> Layout \<Rightarrow> ('s \<times> usize) res) \<Rightarrow> ('s \<Rightarrow> usize \<Rightarrow> Layout \<Rightarrow> 's res) \<Rightarrow>
   's \<times> live \<Rightarrow> request \<Rightarrow> ('s \<times> live) res" where
  "serve alloc dealloc (s, L) (Alloc l) =
     (if layout_ok l then
        bind_res (alloc s l) (\<lambda>(s', p). Inr (s', if p = 0 then L else L(p \<mapsto> l)))
      else Inr (s, L))"
| "serve alloc dealloc (s, L) (Dealloc p) =
     (case L p of None \<Rightarrow> Inr (s, L)
      | Some l \<Rightarrow> bind_res (dealloc s p l) (\<lambda>s'. Inr (s', L(p := None))))"

fun serve_all ::
  "('s \<Rightarrow> Layout \<Rightarrow> ('s \<times> usize) res) \<Rightarrow> ('s \<Rightarrow> usize \<Rightarrow> Layout \<Rightarrow> 's res) \<Rightarrow>
   's \<times> live \<Rightarrow> request list \<Rightarrow> ('s \<times> live) res" where
  "serve_all alloc dealloc c [] = Inr c"
| "serve_all alloc dealloc c (r # rs) =
     bind_res (serve alloc dealloc c r) (\<lambda>c'. serve_all alloc dealloc c' rs)"

text \<open>
  What the client relies on: every live block is aligned, lies inside the heap and is
  disjoint from every other live block.
\<close>

definition live_safe :: "usize \<Rightarrow> usize \<Rightarrow> live \<Rightarrow> bool" where
  "live_safe low high L \<longleftrightarrow>
     (\<forall>p l. L p = Some l \<longrightarrow> layout_align l dvd p \<and> low \<le> p \<and> p + layout_size l \<le> high) \<and>
     (\<forall>p l q m. L p = Some l \<longrightarrow> L q = Some m \<longrightarrow> p \<noteq> q \<longrightarrow>
        block p (layout_size l) \<inter> block q (layout_size m) = {})"

locale global_alloc =
  fixes alloc :: "'s \<Rightarrow> Layout \<Rightarrow> ('s \<times> usize) res"
    and dealloc :: "'s \<Rightarrow> usize \<Rightarrow> Layout \<Rightarrow> 's res"
    and inv :: "'s \<Rightarrow> live \<Rightarrow> bool"
    and lo :: "'s \<Rightarrow> usize"
    and hi :: "'s \<Rightarrow> usize"
  assumes alloc_total: "inv s L \<Longrightarrow> layout_ok l \<Longrightarrow> \<exists>s' p. alloc s l = Inr (s', p)"
    and alloc_null: "inv s L \<Longrightarrow> layout_ok l \<Longrightarrow> alloc s l = Inr (s', 0) \<Longrightarrow> inv s' L"
    and alloc_fresh: "inv s L \<Longrightarrow> layout_ok l \<Longrightarrow> alloc s l = Inr (s', p) \<Longrightarrow> p \<noteq> 0 \<Longrightarrow>
          L p = None \<and> inv s' (L(p \<mapsto> l))"
    and alloc_bounds: "inv s L \<Longrightarrow> layout_ok l \<Longrightarrow> alloc s l = Inr (s', p) \<Longrightarrow>
          lo s' = lo s \<and> hi s' = hi s"
    and dealloc_live: "inv s L \<Longrightarrow> L p = Some l \<Longrightarrow>
          \<exists>s'. dealloc s p l = Inr s' \<and> inv s' (L(p := None)) \<and> lo s' = lo s \<and> hi s' = hi s"
    and live_ok: "inv s L \<Longrightarrow> L p = Some l \<Longrightarrow>
          layout_ok l \<and> layout_align l dvd p \<and> lo s \<le> p \<and> p + layout_size l \<le> hi s"
    and live_disjoint: "inv s L \<Longrightarrow> L p = Some l \<Longrightarrow> L q = Some m \<Longrightarrow> p \<noteq> q \<Longrightarrow>
          block p (layout_size l) \<inter> block q (layout_size m) = {}"
begin

lemma serve_step:
  assumes "inv s L"
  shows "\<exists>s' L'. serve alloc dealloc (s, L) r = Inr (s', L') \<and> inv s' L' \<and> lo s' = lo s \<and> hi s' = hi s"
proof (cases r)
  case (Alloc l)
  show ?thesis
  proof (cases "layout_ok l")
    case True
    obtain s' p where a: "alloc s l = Inr (s', p)" using alloc_total [OF assms True] by blast
    show ?thesis
      using Alloc True a alloc_bounds [OF assms True a]
        alloc_fresh [OF assms True a] alloc_null [OF assms True, of s']
      by (cases "p = 0") auto
  qed (use assms Alloc in auto)
next
  case (Dealloc p)
  then show ?thesis
    using assms dealloc_live [OF assms, of p] by (cases "L p") force+
qed

lemma serve_all_safe:
  assumes "inv s L"
  shows "\<exists>s' L'. serve_all alloc dealloc (s, L) rs = Inr (s', L') \<and> inv s' L' \<and> lo s' = lo s \<and> hi s' = hi s"
  using assms
proof (induction rs arbitrary: s L)
  case Nil
  then show ?case by simp
next
  case (Cons r rs)
  obtain s1 L1 where 1: "serve alloc dealloc (s, L) r = Inr (s1, L1)" "inv s1 L1" "lo s1 = lo s" "hi s1 = hi s"
    using serve_step [OF Cons.prems] by blast
  with Cons.IH [OF 1(2)] show ?case by auto
qed

lemma inv_live_safe: "inv s L \<Longrightarrow> live_safe (lo s) (hi s) L"
  using live_ok live_disjoint by (simp add: live_safe_def)

lemma client_safe:
  assumes "inv s L"
  shows "\<exists>s' L'. serve_all alloc dealloc (s, L) rs = Inr (s', L') \<and> live_safe (lo s) (hi s) L'"
  using serve_all_safe [OF assms, of rs] inv_live_safe by metis

end

section \<open>Properties\<close>

text \<open>The arithmetic meaning of rounding up, without bit operations.\<close>

definition next_multiple :: "usize \<Rightarrow> usize \<Rightarrow> usize" where
  "next_multiple addr align = (addr + align - 1) div align * align"

text \<open>
  C39: The mask computation of \<open>align_up\<close> is the arithmetic one. For every power of two the
  result is the next multiple of the alignment, which is the least multiple that is not below
  the address, and the computation panics exactly when address plus alignment exceed 64 bits,
  even where the rounded address itself would still fit.
\<close>

theorem align_up_is_next_multiple:
  assumes "is_power_of_two align"
  shows "align_up addr align =
      (if addr + align \<le> USIZE_MAX then Inr (next_multiple addr align) else Inl ArithmeticOverflow) \<and>
    align dvd next_multiple addr align \<and> addr \<le> next_multiple addr align \<and>
    (\<forall>m. align dvd m \<and> addr \<le> m \<longrightarrow> next_multiple addr align \<le> m)"
proof -
  have pos: "0 < align" using assms by (rule is_power_of_two_pos)
  have "align_up addr align =
      (if addr + align \<le> USIZE_MAX then Inr (next_multiple addr align) else Inl ArithmeticOverflow)"
  proof (cases "addr + align \<le> USIZE_MAX")
    case True
    then show ?thesis using align_up_eq [OF assms True] by (simp add: next_multiple_def)
  next
    case False
    then show ?thesis by (simp add: align_up_def usize_add_def)
  qed
  then show ?thesis
    using round_up_bounds(1) [OF pos, of addr] round_up_least [OF pos, of _ addr]
    by (simp add: next_multiple_def)
qed

theorem align_up_is_next_multiple_witness:
  "align_up 0x1001 16 = Inr 0x1010 \<and> align_up (2 ^ 64 - 16) 16 = Inl ArithmeticOverflow"
  using align_up_is_next_multiple [of 16 "0x1001", THEN conjunct1]
    align_up_is_next_multiple [of 16 "2 ^ 64 - 16", THEN conjunct1]
  by (simp add: next_multiple_def USIZE_MAX_def)

end
