(* ===== verification/Bump_Allocator.thy ===== *)
theory Bump_Allocator
  imports Heap_Interface
begin

text \<open>
  The monotonic allocator of \<open>src/src/allocator/bump.rs\<close>: a cursor that moves through a
  fixed region and never back. The model has every method of \<open>BumpAllocator\<close> and the two
  of its \<open>GlobalAlloc\<close> implementation; the lock of \<open>Locked\<close> serialises the calls, so the
  state is passed explicitly.
\<close>

section \<open>State and operations\<close>

record BumpAllocator =
  bump_heap_start :: usize
  bump_heap_end :: usize
  bump_next :: usize

definition bump_empty :: BumpAllocator where
  "bump_empty = \<lparr>bump_heap_start = 0, bump_heap_end = 0, bump_next = 0\<rparr>"

definition bump_init :: "BumpAllocator \<Rightarrow> usize \<Rightarrow> usize \<Rightarrow> BumpAllocator" where
  "bump_init a start sz =
     a\<lparr>bump_heap_start := start, bump_heap_end := saturating_add start sz, bump_next := start\<rparr>"

definition bump_cursor :: "BumpAllocator \<Rightarrow> usize" where
  "bump_cursor a = bump_next a"

definition bump_remaining :: "BumpAllocator \<Rightarrow> usize" where
  "bump_remaining a = saturating_sub (bump_heap_end a) (bump_next a)"

definition bump_heap_size :: "BumpAllocator \<Rightarrow> usize" where
  "bump_heap_size a = saturating_sub (bump_heap_end a) (bump_heap_start a)"

definition bump_alloc :: "BumpAllocator \<Rightarrow> Layout \<Rightarrow> (BumpAllocator \<times> usize) res" where
  "bump_alloc a l =
     bind_res (align_up (bump_next a) (layout_align l)) (\<lambda>alloc_start.
     case checked_add alloc_start (layout_size l) of
       None \<Rightarrow> Inr (a, 0)
     | Some alloc_end \<Rightarrow>
         if alloc_end > bump_heap_end a then Inr (a, 0)
         else Inr (a\<lparr>bump_next := alloc_end\<rparr>, alloc_start))"

definition bump_dealloc :: "BumpAllocator \<Rightarrow> usize \<Rightarrow> Layout \<Rightarrow> BumpAllocator res" where
  "bump_dealloc a p l = Inr a"

section \<open>Invariant\<close>

text \<open>
  Well-formedness of the state, and its relation to the live blocks: all of them lie
  between the region's start and the cursor. The region may not start at address 0,
  which would make the first block the null pointer, and lies in the lower half of the
  address space, as every canonical user or kernel-heap address of this kernel does.
\<close>

definition bump_wf :: "BumpAllocator \<Rightarrow> bool" where
  "bump_wf a \<longleftrightarrow>
     0 < bump_heap_start a \<and> bump_heap_start a \<le> bump_next a \<and>
     bump_next a \<le> bump_heap_end a \<and> bump_heap_end a < 2 ^ 63"

definition bump_inv :: "BumpAllocator \<Rightarrow> live \<Rightarrow> bool" where
  "bump_inv a L \<longleftrightarrow> bump_wf a \<and>
     (\<forall>p l. L p = Some l \<longrightarrow> layout_ok l \<and> layout_align l dvd p \<and>
        bump_heap_start a \<le> p \<and> p + layout_size l \<le> bump_next a) \<and>
     live_safe (bump_heap_start a) (bump_heap_end a) L"

text \<open>The addresses at which a request could be served.\<close>

definition bump_fits :: "BumpAllocator \<Rightarrow> Layout \<Rightarrow> usize \<Rightarrow> bool" where
  "bump_fits a l p \<longleftrightarrow>
     layout_align l dvd p \<and> bump_next a \<le> p \<and> p + layout_size l \<le> bump_heap_end a"

lemma bump_wf_init: "0 < start \<Longrightarrow> start + sz < 2 ^ 63 \<Longrightarrow> bump_wf (bump_init a start sz)"
  by (simp add: bump_wf_def bump_init_def saturating_add_def USIZE_MAX_def)

text \<open>Every outcome of an allocation from a well-formed state.\<close>

lemma bump_alloc_cases:
  assumes "bump_wf a" and "layout_ok l"
  obtains
    (null) "bump_alloc a l = Inr (a, 0)" and
      "\<And>p. layout_align l dvd p \<Longrightarrow> bump_next a \<le> p \<Longrightarrow> bump_heap_end a < p + layout_size l"
  | (fresh) p where "bump_alloc a l = Inr (a\<lparr>bump_next := p + layout_size l\<rparr>, p)"
      and "bump_next a \<le> p" and "p < bump_next a + layout_align l" and "layout_align l dvd p"
      and "p + layout_size l \<le> bump_heap_end a"
proof -
  note lD = layout_okD [OF assms(2)]
  have fits: "bump_next a + layout_align l \<le> USIZE_MAX"
    using assms(1) is_power_of_two_le [OF lD(1)] by (simp add: bump_wf_def USIZE_MAX_def)
  obtain r where r: "align_up (bump_next a) (layout_align l) = Inr r" "bump_next a \<le> r"
      "r < bump_next a + layout_align l" "layout_align l dvd r"
      "\<And>m. layout_align l dvd m \<Longrightarrow> bump_next a \<le> m \<Longrightarrow> r \<le> m"
    using align_up_ok [OF lD(1) fits] by metis
  have small: "r + layout_size l \<le> USIZE_MAX"
    using r(3) lD(3) assms(1) by (simp add: bump_wf_def USIZE_MAX_def)
  show thesis
  proof (cases "r + layout_size l > bump_heap_end a")
    case True
    with r small show ?thesis
      by (intro null) (fastforce simp: bump_alloc_def checked_add_def)+
  next
    case False
    with r small show ?thesis
      by (intro fresh [of r]) (simp_all add: bump_alloc_def checked_add_def)
  qed
qed

lemma bump_inv_alloc:
  assumes "bump_inv a L" and "layout_ok l" and "bump_alloc a l = Inr (a', p)" and "p \<noteq> 0"
  shows "L p = None \<and> bump_inv a' (L(p \<mapsto> l))"
proof -
  have wf: "bump_wf a" using assms(1) by (simp add: bump_inv_def)
  have below: "q + layout_size m \<le> bump_next a" "0 < layout_size m" if "L q = Some m" for q m
    using assms(1) that layout_okD(2) by (auto simp: bump_inv_def)
  from bump_alloc_cases [OF wf assms(2)] assms(3,4)
  have p: "a' = a\<lparr>bump_next := p + layout_size l\<rparr>" "bump_next a \<le> p" "layout_align l dvd p"
      "p + layout_size l \<le> bump_heap_end a"
    by (auto elim: bump_alloc_cases)
  have new: "L p = None" using below [of p] p(2) by (cases "L p") force+
  have disj: "block p (layout_size l) \<inter> block q (layout_size m) = {}" if "L q = Some m" for q m
    using below [OF that] p(2) by (auto simp: block_def)
  show ?thesis
    using assms(1,2) wf p new disj below
    by (auto simp: bump_inv_def bump_wf_def live_safe_def Int_commute dest: layout_okD
        intro: order_trans [OF below(1)])
qed

section \<open>The contract\<close>

interpretation bump: global_alloc bump_alloc bump_dealloc bump_inv bump_heap_start bump_heap_end
proof
  fix a L l
  assume "bump_inv a L" and l: "layout_ok l"
  then have wf: "bump_wf a" by (simp add: bump_inv_def)
  show "\<exists>a' p. bump_alloc a l = Inr (a', p)"
    by (rule bump_alloc_cases [OF wf l]) auto
next
  fix a L l a'
  assume inv: "bump_inv a L" and l: "layout_ok l" and eq: "bump_alloc a l = Inr (a', 0)"
  then have wf: "bump_wf a" by (simp add: bump_inv_def)
  show "bump_inv a' L"
    by (rule bump_alloc_cases [OF wf l]) (use inv wf eq in \<open>auto simp: bump_wf_def\<close>)
next
  fix a L l a' p
  assume inv: "bump_inv a L" and l: "layout_ok l" and eq: "bump_alloc a l = Inr (a', p)"
  then have wf: "bump_wf a" by (simp add: bump_inv_def)
  show "bump_heap_start a' = bump_heap_start a \<and> bump_heap_end a' = bump_heap_end a"
    by (rule bump_alloc_cases [OF wf l]) (use eq in auto)
next
  fix a L p l
  assume "bump_inv a L" and "L p = Some l"
  then show "\<exists>a'. bump_dealloc a p l = Inr a' \<and> bump_inv a' (L(p := None)) \<and>
      bump_heap_start a' = bump_heap_start a \<and> bump_heap_end a' = bump_heap_end a"
    by (auto simp: bump_dealloc_def bump_inv_def live_safe_def)
next
  fix a L l a' p
  assume "bump_inv a L" and "layout_ok l" and "bump_alloc a l = Inr (a', p)" and "p \<noteq> 0"
  then show "L p = None \<and> bump_inv a' (L(p \<mapsto> l))" by (rule bump_inv_alloc)
qed (auto simp: bump_inv_def live_safe_def)

section \<open>Properties\<close>

lemma bump_inv_init:
  "0 < start \<Longrightarrow> start + sz < 2 ^ 63 \<Longrightarrow> bump_inv (bump_init a start sz) Map.empty"
  using bump_wf_init by (simp add: bump_inv_def live_safe_def)

lemma bump_init_bounds:
  "start + sz < 2 ^ 63 \<Longrightarrow>
     bump_heap_start (bump_init a start sz) = start \<and> bump_heap_end (bump_init a start sz) = start + sz"
  by (simp add: bump_init_def saturating_add_def USIZE_MAX_def)

lemma bump_serve_mono:
  assumes "bump_inv a L" and "serve bump_alloc bump_dealloc (a, L) r = Inr (b, L')"
  shows "bump_inv b L' \<and> bump_next a \<le> bump_next b \<and> bump_heap_end b = bump_heap_end a"
proof -
  have inv: "bump_inv b L'" "bump_heap_end b = bump_heap_end a"
    using bump.serve_step [OF assms(1), of r] assms(2) by auto
  have "bump_next a \<le> bump_next b"
  proof (cases r)
    case (Alloc l)
    have wf: "bump_wf a" using assms(1) by (simp add: bump_inv_def)
    show ?thesis
    proof (cases "layout_ok l")
      case True
      show ?thesis
        by (rule bump_alloc_cases [OF wf True]) (use Alloc True assms(2) in auto)
    qed (use Alloc assms(2) in auto)
  qed (use assms(2) in \<open>auto simp: bump_dealloc_def split: option.splits\<close>)
  with inv show ?thesis by blast
qed

lemma bump_serve_all_mono:
  assumes "bump_inv a L" and "serve_all bump_alloc bump_dealloc (a, L) rs = Inr (b, L')"
  shows "bump_inv b L' \<and> bump_next a \<le> bump_next b \<and> bump_heap_end b = bump_heap_end a"
  using assms
proof (induction rs arbitrary: a L)
  case (Cons r rs)
  then obtain a1 L1 where 1: "serve bump_alloc bump_dealloc (a, L) r = Inr (a1, L1)"
      "serve_all bump_alloc bump_dealloc (a1, L1) rs = Inr (b, L')"
    by (auto simp: bind_res_eq_Inr)
  from bump_serve_mono [OF Cons.prems(1) 1(1)] Cons.IH [OF _ 1(2)] show ?case by force
qed auto

text \<open>
  C40: Any sequence of allocations and deallocations on a freshly initialised bump
  allocator runs without a panic, and afterwards every live block is aligned to its
  layout, lies inside the region, and overlaps no other live block.
\<close>

theorem bump_client_safe:
  assumes "0 < start" and "start + sz < 2 ^ 63"
  shows "\<exists>a L. serve_all bump_alloc bump_dealloc (bump_init bump_empty start sz, Map.empty) rs
                 = Inr (a, L) \<and> live_safe start (start + sz) L"
  using bump.client_safe [OF bump_inv_init [OF assms], of bump_empty rs]
    bump_init_bounds [OF assms(2), of bump_empty] by auto

theorem bump_client_safe_witness:
  "\<exists>a L. serve_all bump_alloc bump_dealloc (bump_init bump_empty 0x1000 64, Map.empty)
      [Alloc \<lparr>layout_size = 8, layout_align = 16\<rparr>, Dealloc 0x1000] = Inr (a, L) \<and>
      live_safe 0x1000 (0x1000 + 64) L"
  by (rule bump_client_safe) simp_all

text \<open>
  An allocation of the bump allocator returns the lowest suitably aligned address at
  or above the cursor whose block fits below the region's end and moves the cursor to the
  block's end; it returns null, changing nothing, exactly when no such address exists.
\<close>

theorem bump_alloc_lowest_fit:
  assumes "bump_wf a" and "layout_ok l"
  shows "bump_alloc a l =
    (if \<exists>p. bump_fits a l p
     then Inr (a\<lparr>bump_next := (LEAST p. bump_fits a l p) + layout_size l\<rparr>, LEAST p. bump_fits a l p)
     else Inr (a, 0))"
proof (rule bump_alloc_cases [OF assms])
  assume "bump_alloc a l = Inr (a, 0)"
    and "\<And>p. layout_align l dvd p \<Longrightarrow> bump_next a \<le> p \<Longrightarrow> bump_heap_end a < p + layout_size l"
  then show ?thesis by (fastforce simp: bump_fits_def)
next
  fix p
  assume p: "bump_alloc a l = Inr (a\<lparr>bump_next := p + layout_size l\<rparr>, p)" "bump_next a \<le> p"
    "p < bump_next a + layout_align l" "layout_align l dvd p" "p + layout_size l \<le> bump_heap_end a"
  have least: "p \<le> q" if "bump_fits a l q" for q
  proof (rule ccontr)
    assume "\<not> p \<le> q"
    then have "layout_align l dvd p - q" and pq: "0 < p - q"
      using p(4) that by (auto simp: bump_fits_def)
    then have "layout_align l \<le> p - q" by (rule dvd_imp_le)
    then show False using p(3) pq that by (auto simp: bump_fits_def)
  qed
  have fit: "bump_fits a l p" using p by (simp add: bump_fits_def)
  then have "(LEAST q. bump_fits a l q) = p"
    using least by (rule Least_equality)
  then show ?thesis using p(1) fit by auto
qed

theorem bump_alloc_lowest_fit_witness:
  "bump_alloc (bump_init bump_empty 0x1000 64) \<lparr>layout_size = 8, layout_align = 16\<rparr> =
    (if \<exists>p. bump_fits (bump_init bump_empty 0x1000 64) \<lparr>layout_size = 8, layout_align = 16\<rparr> p
     then Inr ((bump_init bump_empty 0x1000 64)\<lparr>bump_next :=
         (LEAST p. bump_fits (bump_init bump_empty 0x1000 64) \<lparr>layout_size = 8, layout_align = 16\<rparr> p)
           + layout_size \<lparr>layout_size = 8, layout_align = 16\<rparr>\<rparr>,
         LEAST p. bump_fits (bump_init bump_empty 0x1000 64) \<lparr>layout_size = 8, layout_align = 16\<rparr> p)
     else Inr (bump_init bump_empty 0x1000 64, 0))"
  by (intro bump_alloc_lowest_fit bump_wf_init layout_okI) simp_all

text \<open>
  A failure of the bump allocator is permanent: once an allocation with a layout has
  returned null, the same request returns null after any further sequence of requests,
  deallocations included.
\<close>

theorem bump_failure_is_permanent:
  assumes "bump_inv a L" and "layout_ok l" and "bump_alloc a l = Inr (a, 0)"
    and "serve_all bump_alloc bump_dealloc (a, L) rs = Inr (b, L')"
  shows "bump_alloc b l = Inr (b, 0)"
proof -
  have m: "bump_wf a" "bump_wf b" "bump_next a \<le> bump_next b" "bump_heap_end b = bump_heap_end a"
    using bump_serve_all_mono [OF assms(1,4)] assms(1) by (auto simp: bump_inv_def)
  show ?thesis
  proof (rule bump_alloc_cases [OF m(2) assms(2)])
    fix q
    assume q: "bump_next b \<le> q" "layout_align l dvd q" "q + layout_size l \<le> bump_heap_end b"
    show ?thesis
      by (rule bump_alloc_cases [OF m(1) assms(2)])
        (use q m assms(1,3) in \<open>fastforce simp: bump_inv_def bump_wf_def\<close>)+
  qed
qed

theorem bump_failure_is_permanent_witness:
  "bump_alloc \<lparr>bump_heap_start = 0x1000, bump_heap_end = 0x1040, bump_next = 0x1040\<rparr>
     \<lparr>layout_size = 8, layout_align = 8\<rparr>
   = Inr (\<lparr>bump_heap_start = 0x1000, bump_heap_end = 0x1040, bump_next = 0x1040\<rparr>, 0)"
proof (rule bump_failure_is_permanent [where L = "[0x1000 \<mapsto> \<lparr>layout_size = 64, layout_align = 8\<rparr>]"
      and rs = "[Dealloc 0x1000]"])
  show "layout_ok \<lparr>layout_size = 8, layout_align = 8\<rparr>" by (rule layout_okI) simp_all
  have "layout_ok \<lparr>layout_size = 64, layout_align = 8\<rparr>" by (rule layout_okI) simp_all
  then show "bump_inv \<lparr>bump_heap_start = 0x1000, bump_heap_end = 0x1040, bump_next = 0x1040\<rparr>
      [0x1000 \<mapsto> \<lparr>layout_size = 64, layout_align = 8\<rparr>]"
    by (auto simp: bump_inv_def bump_wf_def live_safe_def)
  show "bump_alloc \<lparr>bump_heap_start = 0x1000, bump_heap_end = 0x1040, bump_next = 0x1040\<rparr>
      \<lparr>layout_size = 8, layout_align = 8\<rparr>
    = Inr (\<lparr>bump_heap_start = 0x1000, bump_heap_end = 0x1040, bump_next = 0x1040\<rparr>, 0)"
    by (simp add: bump_alloc_def align_up_def usize_add_def usize_sub_def usize_not_def
        USIZE_MAX_def checked_add_def)
qed (simp add: bump_dealloc_def)

end
