(* ===== verification/Linked_List_Allocator.thy ===== *)
theory Linked_List_Allocator
  imports Heap_Interface
begin

text \<open>
  The coalescing free-list allocator of \<open>src/src/allocator/linkedlist.rs\<close>. The free list is
  owned through \<open>Option<&'static mut ListNode>\<close> links, so it is a list of nodes, each with
  the address it is stored at (\<open>node_start\<close>) and the size of its region; the \<open>next\<close> link
  of a node is the rest of the list. Walking the list through a slot pointer is recursion
  over the list that rebuilds the prefix.

  The abstract view of a state is the set of free bytes. The lemmas show that every
  operation keeps the list ordered, aligned and maximally coalesced, that such a list is
  determined by its set of free bytes, and that allocation and deallocation are the
  expected operations on that set; the interpretation of \<open>global_alloc\<close> rests on them.
\<close>

section \<open>State and operations\<close>

record ListNode =
  node_start :: usize
  node_size :: usize

definition MIN_BLOCK :: usize where
  "MIN_BLOCK = 16"

definition NODE_ALIGN :: usize where
  "NODE_ALIGN = 8"

definition end_addr :: "ListNode \<Rightarrow> usize res" where
  "end_addr n = usize_add (node_start n) (node_size n)"

definition allocation_size :: "Layout \<Rightarrow> usize res" where
  "allocation_size l = align_up (max (layout_size l) MIN_BLOCK) NODE_ALIGN"

definition allocation_align :: "Layout \<Rightarrow> usize" where
  "allocation_align l = max (layout_align l) NODE_ALIGN"

record LinkedListAllocator =
  ll_head :: "ListNode list"
  ll_heap_start :: usize
  ll_heap_end :: usize

definition ll_empty :: LinkedListAllocator where
  "ll_empty = \<lparr>ll_head = [], ll_heap_start = 0, ll_heap_end = 0\<rparr>"

definition ll_heap_size :: "LinkedListAllocator \<Rightarrow> usize" where
  "ll_heap_size a = saturating_sub (ll_heap_end a) (ll_heap_start a)"

fun count_regions :: "usize \<Rightarrow> ListNode list \<Rightarrow> usize res" where
  "count_regions count [] = Inr count"
| "count_regions count (n # ns) = bind_res (usize_add count 1) (\<lambda>c. count_regions c ns)"

definition free_region_count :: "LinkedListAllocator \<Rightarrow> usize res" where
  "free_region_count a = count_regions 0 (ll_head a)"

fun sum_regions :: "usize \<Rightarrow> ListNode list \<Rightarrow> usize res" where
  "sum_regions bytes [] = Inr bytes"
| "sum_regions bytes (n # ns) =
     bind_res (usize_add bytes (node_size n)) (\<lambda>b. sum_regions b ns)"

definition ll_free_bytes :: "LinkedListAllocator \<Rightarrow> usize res" where
  "ll_free_bytes a = sum_regions 0 (ll_head a)"

text \<open>
  \<open>coalesce\<close>: a node whose successor starts where it ends absorbs it and is looked at
  again; otherwise the walk moves on.
\<close>

fun coalesce :: "ListNode list \<Rightarrow> ListNode list res" where
  "coalesce [] = Inr []"
| "coalesce [n] = Inr [n]"
| "coalesce (n # m # ns) =
     bind_res (end_addr n) (\<lambda>e.
     if node_start m = e then
       bind_res (usize_add (node_size n) (node_size m)) (\<lambda>s.
       coalesce (n\<lparr>node_size := s\<rparr> # ns))
     else bind_res (coalesce (m # ns)) (\<lambda>ns'. Inr (n # ns')))"

text \<open>The walk of \<open>add_free_region\<close> to the insertion slot, and the splice there.\<close>

fun splice_region :: "usize \<Rightarrow> usize \<Rightarrow> ListNode list \<Rightarrow> ListNode list res" where
  "splice_region addr sz [] = Inr [\<lparr>node_start = addr, node_size = sz\<rparr>]"
| "splice_region addr sz (n # ns) =
     (if node_start n < addr then
        bind_res (end_addr n) (\<lambda>e.
        bind_res (debug_assert (addr \<ge> e) ''free region overlaps an existing region'') (\<lambda>_.
        bind_res (splice_region addr sz ns) (\<lambda>ns'. Inr (n # ns'))))
      else Inr (\<lparr>node_start = addr, node_size = sz\<rparr> # n # ns))"

definition add_free_region ::
  "LinkedListAllocator \<Rightarrow> usize \<Rightarrow> usize \<Rightarrow> LinkedListAllocator res" where
  "add_free_region a addr sz =
     bind_res (debug_assert (sz \<ge> MIN_BLOCK) ''free region smaller than a node'') (\<lambda>_.
     bind_res (align_up addr NODE_ALIGN) (\<lambda>up.
     bind_res (debug_assert (up = addr) ''free region misaligned for a node'') (\<lambda>_.
     bind_res (debug_assert
       (addr \<ge> ll_heap_start a \<and> saturating_add addr sz \<le> ll_heap_end a)
       ''free region outside the heap'') (\<lambda>_.
     bind_res (splice_region addr sz (ll_head a)) (\<lambda>ns.
     bind_res (coalesce ns) (\<lambda>ns'.
     Inr (a\<lparr>ll_head := ns'\<rparr>)))))))"

definition ll_init ::
  "LinkedListAllocator \<Rightarrow> usize \<Rightarrow> usize \<Rightarrow> LinkedListAllocator res" where
  "ll_init a start sz =
     (let a1 = a\<lparr>ll_head := [], ll_heap_start := start, ll_heap_end := saturating_add start sz\<rparr>
      in bind_res (align_up start NODE_ALIGN) (\<lambda>st.
         let size = saturating_sub (ll_heap_end a1) st
         in if size \<ge> MIN_BLOCK then add_free_region a1 st size else Inr a1))"

text \<open>
  The loop of \<open>find_region\<close>: the first node that fits, unlinked from the list, with
  \<open>(region_start, alloc_start, alloc_end, region_end)\<close>.
\<close>

fun find_fit ::
  "usize \<Rightarrow> usize \<Rightarrow> ListNode list \<Rightarrow>
   (ListNode list \<times> usize \<times> usize \<times> usize \<times> usize) option res" where
  "find_fit sz al [] = Inr None"
| "find_fit sz al (n # ns) =
     bind_res (end_addr n) (\<lambda>region_end.
     bind_res (align_up (node_start n) al) (\<lambda>alloc_start.
     case checked_add alloc_start sz of
       Some alloc_end \<Rightarrow>
         if alloc_end \<le> region_end
         then Inr (Some (ns, node_start n, alloc_start, alloc_end, region_end))
         else bind_res (find_fit sz al ns) (\<lambda>r. Inr (map_option (\<lambda>(ns', f). (n # ns', f)) r))
     | None \<Rightarrow> bind_res (find_fit sz al ns) (\<lambda>r. Inr (map_option (\<lambda>(ns', f). (n # ns', f)) r))))"

text \<open>A leftover slice goes back on the list when it can hold a header.\<close>

definition put_back :: "LinkedListAllocator \<Rightarrow> usize \<Rightarrow> usize \<Rightarrow> LinkedListAllocator res" where
  "put_back a addr len = (if len \<ge> MIN_BLOCK then add_free_region a addr len else Inr a)"

definition find_region ::
  "LinkedListAllocator \<Rightarrow> usize \<Rightarrow> usize \<Rightarrow> (LinkedListAllocator \<times> usize option) res" where
  "find_region a sz al =
     bind_res (find_fit sz al (ll_head a)) (\<lambda>r.
     case r of
       None \<Rightarrow> Inr (a, None)
     | Some (unlinked, region_start, alloc_start, alloc_end, region_end) \<Rightarrow>
         let a1 = a\<lparr>ll_head := unlinked\<rparr> in
         bind_res (usize_sub alloc_start region_start) (\<lambda>front.
         bind_res (usize_sub region_end alloc_end) (\<lambda>back.
         bind_res (put_back a1 region_start front) (\<lambda>a2.
         bind_res (put_back a2 alloc_end back) (\<lambda>a3.
         Inr (a3, Some alloc_start))))))"

definition ll_alloc :: "LinkedListAllocator \<Rightarrow> Layout \<Rightarrow> (LinkedListAllocator \<times> usize) res" where
  "ll_alloc a l =
     bind_res (allocation_size l) (\<lambda>sz.
     bind_res (find_region a sz (allocation_align l)) (\<lambda>(a', r).
     case r of Some addr \<Rightarrow> Inr (a', addr) | None \<Rightarrow> Inr (a', 0)))"

definition ll_dealloc :: "LinkedListAllocator \<Rightarrow> usize \<Rightarrow> Layout \<Rightarrow> LinkedListAllocator res" where
  "ll_dealloc a addr l =
     bind_res (allocation_size l) (\<lambda>sz.
     bind_res (debug_assert
       (addr \<ge> ll_heap_start a \<and> saturating_add addr sz \<le> ll_heap_end a)
       ''dealloc: pointer outside the heap'') (\<lambda>_.
     bind_res (align_up addr NODE_ALIGN) (\<lambda>up.
     bind_res (debug_assert (up = addr)
       ''dealloc: pointer not aligned for a free-list node'') (\<lambda>_.
     add_free_region a addr sz))))"

section \<open>Ordered, aligned, coalesced lists and their free bytes\<close>

definition node_bytes :: "ListNode \<Rightarrow> usize set" where
  "node_bytes n = block (node_start n) (node_size n)"

definition free_set :: "ListNode list \<Rightarrow> usize set" where
  "free_set ns = (\<Union>n\<in>set ns. node_bytes n)"

text \<open>
  \<open>regions g lo hi ns\<close>: the nodes lie in \<open>[lo, hi)\<close> in ascending order, each aligned and
  large enough for a header, with at least \<open>g\<close> bytes between neighbours. With \<open>g = 0\<close> the
  list is ordered, with \<open>g = 1\<close> it is coalesced as well.
\<close>

fun regions :: "nat \<Rightarrow> usize \<Rightarrow> usize \<Rightarrow> ListNode list \<Rightarrow> bool" where
  "regions g low high [] = True"
| "regions g low high (n # ns) =
     (low \<le> node_start n \<and> 8 dvd node_start n \<and> 16 \<le> node_size n \<and>
      node_start n + node_size n \<le> high \<and>
      regions g (node_start n + node_size n + g) high ns)"

definition ll_wf :: "LinkedListAllocator \<Rightarrow> bool" where
  "ll_wf a \<longleftrightarrow> 0 < ll_heap_start a \<and> ll_heap_start a \<le> ll_heap_end a \<and> ll_heap_end a < 2 ^ 63 \<and>
     regions 1 (ll_heap_start a) (ll_heap_end a) (ll_head a)"

abbreviation ll_free :: "LinkedListAllocator \<Rightarrow> usize set" where
  "ll_free a \<equiv> free_set (ll_head a)"

lemma free_set_simps [simp]:
  "free_set [] = {}" "free_set (n # ns) = node_bytes n \<union> free_set ns"
  by (auto simp: free_set_def)

lemma regions_mono: "regions g low high ns \<Longrightarrow> low' \<le> low \<Longrightarrow> regions g low' high ns"
  by (cases ns) auto

lemma regions_gap: "regions g low high ns \<Longrightarrow> g' \<le> g \<Longrightarrow> regions g' low high ns"
proof (induction ns arbitrary: low)
  case (Cons n ns)
  have "regions g' (node_start n + node_size n + g) high ns"
    using Cons.IH Cons.prems by simp
  then have "regions g' (node_start n + node_size n + g') high ns"
    by (rule regions_mono) (use Cons.prems(2) in simp)
  with Cons.prems(1) show ?case by simp
qed simp

lemma regions_node:
  "regions g low high ns \<Longrightarrow> n \<in> set ns \<Longrightarrow>
     low \<le> node_start n \<and> 8 dvd node_start n \<and> 16 \<le> node_size n \<and>
     node_start n + node_size n \<le> high"
proof (induction ns arbitrary: low)
  case (Cons m ns)
  then show ?case by (cases "n = m") fastforce+
qed simp

lemma free_set_bounds: "regions g low high ns \<Longrightarrow> free_set ns \<subseteq> {low..<high}"
proof (induction ns arbitrary: low)
  case (Cons n ns)
  then have "free_set ns \<subseteq> {node_start n + node_size n + g..<high}" by simp
  with Cons.prems show ?case by (fastforce simp: node_bytes_def block_def)
qed simp

lemma finite_free_set: "finite (free_set ns)"
  by (simp add: free_set_def node_bytes_def)

lemma free_bytes_card:
  "regions g low high ns \<Longrightarrow> card (free_set ns) = sum_list (map node_size ns)"
proof (induction ns arbitrary: low)
  case (Cons n ns)
  then have "free_set ns \<subseteq> {node_start n + node_size n + g..<high}"
    using free_set_bounds by fastforce
  then have "node_bytes n \<inter> free_set ns = {}" by (auto simp: node_bytes_def block_def)
  with Cons show ?case
    by (auto simp: card_Un_disjoint finite_free_set node_bytes_def)
qed simp

text \<open>A coalesced list is the only one with its set of free bytes.\<close>

lemma regions_start_Min:
  assumes "regions g low high (n # ns)"
  shows "node_start n \<in> free_set (n # ns)" and "x \<in> free_set (n # ns) \<Longrightarrow> node_start n \<le> x"
  using assms free_set_bounds [of g "node_start n + node_size n + g" high ns]
  by (auto simp: node_bytes_def block_def)

lemma regions_end_gap:
  assumes "regions 1 low high (n # ns)"
  shows "node_start n + node_size n \<notin> free_set (n # ns)"
  using assms free_set_bounds [of 1 "node_start n + node_size n + 1" high ns]
  by (auto simp: node_bytes_def block_def)

lemma regions_head_unique:
  assumes "regions 1 low high (n # ns)" and "regions 1 low' high' (m # ms)"
    and "free_set (n # ns) = free_set (m # ms)"
  shows "node_start n = node_start m" and "node_size n \<le> node_size m"
proof -
  show st: "node_start n = node_start m"
    using regions_start_Min [OF assms(1)] regions_start_Min [OF assms(2)] assms(3)
    by (metis order_antisym)
  show "node_size n \<le> node_size m"
  proof (rule ccontr)
    assume "\<not> ?thesis"
    then have "node_start m + node_size m \<in> free_set (n # ns)"
      using st by (auto simp: node_bytes_def block_def)
    then show False using regions_end_gap [OF assms(2)] unfolding assms(3) by contradiction
  qed
qed

lemma regions_tail_set:
  assumes "regions g low high (n # ns)"
  shows "free_set ns = free_set (n # ns) - node_bytes n"
  using assms free_set_bounds [of g "node_start n + node_size n + g" high ns]
  by (auto simp: node_bytes_def block_def)

lemma regions_unique:
  assumes "regions 1 low high ns" and "regions 1 low' high' ms" and "free_set ns = free_set ms"
  shows "ns = ms"
  using assms
proof (induction ns arbitrary: ms low low')
  case Nil
  then show ?case using regions_start_Min(1) [of 1 low' high'] by (cases ms) auto
next
  case (Cons n ns)
  then obtain m ms' where ms: "ms = m # ms'"
    using regions_start_Min(1) [OF Cons.prems(1)] by (cases ms) auto
  note p1 = Cons.prems(1) and p2 = Cons.prems(2) [unfolded ms] and p3 = Cons.prems(3) [unfolded ms]
  have eq: "n = m"
    using regions_head_unique [OF p1 p2 p3] regions_head_unique [OF p2 p1 p3 [symmetric]]
    by (simp add: order_antisym)
  then have "free_set ns = free_set ms'"
    using regions_tail_set [OF p1] regions_tail_set [OF p2] p3 by simp
  with Cons.IH p1 p2 eq ms show ?case by auto
qed

text \<open>A run of consecutive free bytes lies in one region.\<close>

lemma block_in_one_region:
  assumes "regions 1 low high ns" and "0 < k" and "block p k \<subseteq> free_set ns"
  shows "\<exists>n\<in>set ns. node_start n \<le> p \<and> p + k \<le> node_start n + node_size n"
  using assms
proof (induction ns arbitrary: low)
  case (Cons n ns)
  let ?e = "node_start n + node_size n"
  have tail: "free_set ns \<subseteq> {?e + 1..<high}"
    using Cons.prems(1) free_set_bounds [of 1 "?e + 1" high ns] by simp
  have "p \<in> block p k" using Cons.prems(2) by (simp add: block_def)
  then have p: "p \<in> free_set (n # ns)" using Cons.prems(3) by blast
  show ?case
  proof (cases "p < ?e")
    case True
    with p tail have lo: "node_start n \<le> p" by (auto simp: node_bytes_def block_def)
    have "p + k \<le> ?e"
    proof (rule ccontr)
      assume "\<not> ?thesis"
      then have "?e \<in> block p k" using True by (auto simp: block_def)
      then show False using Cons.prems(3) regions_end_gap [OF Cons.prems(1)] by blast
    qed
    with lo show ?thesis by auto
  next
    case False
    then have "block p k \<subseteq> free_set ns"
      using Cons.prems(3) by (auto simp: block_def node_bytes_def)
    with Cons.IH [OF _ Cons.prems(2)] Cons.prems(1) show ?thesis by auto
  qed
qed (auto simp: block_def)

section \<open>What each operation does to the free bytes\<close>

lemma coalesce_correct:
  assumes "regions 0 low high ns" and "high \<le> USIZE_MAX"
  shows "\<exists>ns'. coalesce ns = Inr ns' \<and> regions 1 low high ns' \<and> free_set ns' = free_set ns"
  using assms
proof (induction ns arbitrary: low rule: coalesce.induct)
  case (3 n m ns)
  let ?e = "node_start n + node_size n"
  have e: "end_addr n = Inr ?e" using "3.prems" by (simp add: end_addr_def)
  show ?case
  proof (cases "node_start m = ?e")
    case True
    let ?n = "n\<lparr>node_size := node_size n + node_size m\<rparr>"
    have s: "usize_add (node_size n) (node_size m) = Inr (node_size n + node_size m)"
      using "3.prems" True by simp
    have "regions 0 low high (?n # ns)" using "3.prems"(1) True by (simp add: algebra_simps)
    from "3.IH"(1) [OF e True s this "3.prems"(2)] obtain ns' where
      "coalesce (?n # ns) = Inr ns'" "regions 1 low high ns'" "free_set ns' = free_set (?n # ns)"
      by blast
    moreover have "node_bytes ?n = node_bytes n \<union> node_bytes m"
      using True by (auto simp: node_bytes_def block_def)
    ultimately show ?thesis using e s True by (simp add: Un_assoc)
  next
    case False
    have "regions 0 (?e + 1) high (m # ns)" using "3.prems"(1) False by auto
    from "3.IH"(2) [OF e False this "3.prems"(2)] obtain ns' where
      "coalesce (m # ns) = Inr ns'" "regions 1 (?e + 1) high ns'" "free_set ns' = free_set (m # ns)"
      by blast
    then show ?thesis using e False "3.prems"(1) by simp
  qed
qed auto

lemma splice_region_correct:
  assumes "regions 1 low high ns" and "high \<le> USIZE_MAX"
    and "low \<le> addr" and "addr + sz \<le> high" and "8 dvd addr" and "16 \<le> sz"
    and "block addr sz \<inter> free_set ns = {}"
  shows "\<exists>ns'. splice_region addr sz ns = Inr ns' \<and> regions 0 low high ns' \<and>
              free_set ns' = free_set ns \<union> block addr sz"
  using assms
proof (induction ns arbitrary: low)
  case Nil
  then show ?case by (simp add: node_bytes_def)
next
  case (Cons n ns)
  let ?e = "node_start n + node_size n"
  have e: "end_addr n = Inr ?e" using Cons.prems by (simp add: end_addr_def)
  have dn: "block addr sz \<inter> node_bytes n = {}" and dns: "block addr sz \<inter> free_set ns = {}"
    using Cons.prems(7) by auto
  have apart: "addr + sz \<le> node_start n \<or> ?e \<le> addr"
    using dn Cons.prems(1,6) by (simp add: node_bytes_def block_disjoint_iff)
  show ?case
  proof (cases "node_start n < addr")
    case True
    with apart have ea: "?e \<le> addr" by simp
    have r0: "regions 1 (?e + 1) high ns" using Cons.prems(1) by simp
    show ?thesis
    proof (cases "?e = addr")
      case False
      then have "?e + 1 \<le> addr" using ea by simp
      from Cons.IH [OF r0 Cons.prems(2) this Cons.prems(4-6) dns] obtain ns' where
        "splice_region addr sz ns = Inr ns'" "regions 0 (?e + 1) high ns'"
        "free_set ns' = free_set ns \<union> block addr sz" by blast
      then show ?thesis using e ea True Cons.prems(1) regions_mono [of 0 "?e + 1" high ns' ?e]
        by auto
    next
      case eq: True
      have sp: "splice_region addr sz ns = Inr (\<lparr>node_start = addr, node_size = sz\<rparr> # ns)"
        using r0 eq by (cases ns) auto
      have "addr + sz \<le> node_start m" if "ns = m # ms" for m ms
        using r0 dns eq Cons.prems(6) that
        by (auto simp: node_bytes_def block_disjoint_iff Int_Un_distrib)
      then have "regions 0 (addr + sz) high ns"
        using regions_gap [OF r0, of 0] by (cases ns) auto
      then show ?thesis using e eq sp True Cons.prems(1,4,5,6) by (auto simp: node_bytes_def)
    qed
  next
    case False
    then have "addr + sz \<le> node_start n" using apart Cons.prems(1) by auto
    then show ?thesis using False Cons.prems(1,3,4,5,6) regions_gap [of 1 "?e + 1" high ns 0]
        regions_mono [of 0 "?e + 1" high ns ?e] by (auto simp: node_bytes_def)
  qed
qed

lemma add_free_region_correct:
  assumes "ll_wf a" and "ll_heap_start a \<le> addr" and "addr + sz \<le> ll_heap_end a"
    and "8 dvd addr" and "16 \<le> sz" and "block addr sz \<inter> ll_free a = {}"
  shows "\<exists>ns. add_free_region a addr sz = Inr (a\<lparr>ll_head := ns\<rparr>) \<and> ll_wf (a\<lparr>ll_head := ns\<rparr>) \<and>
              free_set ns = ll_free a \<union> block addr sz"
proof -
  have hi: "ll_heap_end a \<le> USIZE_MAX" "addr + sz \<le> USIZE_MAX"
    using assms(1,3) by (simp_all add: ll_wf_def USIZE_MAX_def)
  have r: "regions 1 (ll_heap_start a) (ll_heap_end a) (ll_head a)"
    using assms(1) by (simp add: ll_wf_def)
  obtain ns where ns: "splice_region addr sz (ll_head a) = Inr ns"
      "regions 0 (ll_heap_start a) (ll_heap_end a) ns" "free_set ns = ll_free a \<union> block addr sz"
    using splice_region_correct [OF r hi(1) assms(2-6)] by blast
  obtain ns' where ns': "coalesce ns = Inr ns'" "regions 1 (ll_heap_start a) (ll_heap_end a) ns'"
      "free_set ns' = free_set ns"
    using coalesce_correct [OF ns(2) hi(1)] by blast
  have "align_up addr NODE_ALIGN = Inr addr"
    using assms(4,5) hi(2) by (intro align_up_id) (simp_all add: NODE_ALIGN_def)
  then show ?thesis
    using assms ns ns' hi by (auto simp: add_free_region_def ll_wf_def MIN_BLOCK_def saturating_add_def)
qed

text \<open>The rounded size and alignment of a request.\<close>

definition asize :: "Layout \<Rightarrow> usize" where
  "asize l = (max (layout_size l) 16 + 7) div 8 * 8"

lemma asize_facts: "8 dvd asize l" "16 \<le> asize l" "layout_size l \<le> asize l"
    "asize l < max (layout_size l) 16 + 8"
  using round_up_bounds [of 8 "max (layout_size l) 16"] by (auto simp: asize_def)

lemma allocation_size_eq: "layout_ok l \<Longrightarrow> allocation_size l = Inr (asize l)"
  using align_up_eq [of 8 "max (layout_size l) 16"] layout_okD(3) [of l]
  by (simp add: allocation_size_def asize_def MIN_BLOCK_def NODE_ALIGN_def USIZE_MAX_def max_def)

lemma allocation_align_facts:
  assumes "layout_ok l"
  shows "is_power_of_two (allocation_align l)" and "8 dvd allocation_align l"
    and "layout_align l dvd allocation_align l"
proof -
  have p: "is_power_of_two (layout_align l)" using assms by (rule layout_okD)
  then show "is_power_of_two (allocation_align l)"
    by (simp add: allocation_align_def NODE_ALIGN_def is_power_of_two_max)
  then show "8 dvd allocation_align l" and "layout_align l dvd allocation_align l"
    using p by (auto intro!: is_power_of_two_dvd simp: allocation_align_def NODE_ALIGN_def)
qed

definition region_fit :: "usize \<Rightarrow> usize \<Rightarrow> ListNode \<Rightarrow> usize \<Rightarrow> bool" where
  "region_fit sz al n q \<longleftrightarrow>
     al dvd q \<and> node_start n \<le> q \<and> q + sz \<le> node_start n + node_size n"

lemma first_fit_least:
  assumes "regions 1 low high (n # ns)" and "region_fit sz al n p" and "\<And>q. region_fit sz al n q \<Longrightarrow> p \<le> q"
    and "m \<in> set (n # ns)" and "region_fit sz al m q"
  shows "p \<le> q"
proof (cases "m = n")
  case False
  then have "node_start n + node_size n < node_start m"
    using regions_node [of 1 "node_start n + node_size n + 1" high ns m] assms(1,4) by simp
  then show ?thesis using assms(2,5) by (simp add: region_fit_def)
qed (use assms(3,5) in simp)

lemma find_fit_unlink:
  assumes "regions 1 low high ns" and "high < 2 ^ 63" and "is_power_of_two al" and "0 < sz"
  shows "find_fit sz al ns = Inr None \<and> (\<forall>m\<in>set ns. \<forall>q. \<not> region_fit sz al m q) \<or>
    (\<exists>ns' n p. find_fit sz al ns =
          Inr (Some (ns', node_start n, p, p + sz, node_start n + node_size n)) \<and>
        n \<in> set ns \<and> region_fit sz al n p \<and> regions 1 low high ns' \<and>
        free_set ns' = free_set ns - node_bytes n \<and>
        (\<forall>m\<in>set ns. \<forall>q. region_fit sz al m q \<longrightarrow> p \<le> q))"
  using assms
proof (induction ns arbitrary: low)
  case (Cons n ns)
  let ?e = "node_start n + node_size n"
  have e: "end_addr n = Inr ?e" using Cons.prems by (simp add: end_addr_def USIZE_MAX_def)
  have "node_start n + al \<le> USIZE_MAX"
    using Cons.prems(1,2) is_power_of_two_le [OF Cons.prems(3)] by (simp add: USIZE_MAX_def)
  then obtain p where p: "align_up (node_start n) al = Inr p" "node_start n \<le> p" "al dvd p"
      "\<And>m. al dvd m \<Longrightarrow> node_start n \<le> m \<Longrightarrow> p \<le> m"
    using align_up_ok [OF Cons.prems(3)] by metis
  have r: "regions 1 (?e + 1) high ns" using Cons.prems(1) by simp
  have later: "?e < node_start m" if "m \<in> set ns" for m
    using regions_node [OF r that] by simp
  have tail: "free_set ns = free_set (n # ns) - node_bytes n"
    by (rule regions_tail_set [OF Cons.prems(1)])
  show ?case
  proof (cases "p + sz \<le> ?e")
    case True
    then have fit: "region_fit sz al n p" using p by (simp add: region_fit_def)
    have "p \<le> q" if "m \<in> set (n # ns)" "region_fit sz al m q" for m q
      using first_fit_least [OF Cons.prems(1) fit _ that] p(4) by (simp add: region_fit_def)
    moreover have "find_fit sz al (n # ns) = Inr (Some (ns, node_start n, p, p + sz, ?e))"
      using True e p(1) Cons.prems(1,2) by (simp add: checked_add_def USIZE_MAX_def)
    ultimately show ?thesis
      using fit tail regions_mono [OF r, of low] Cons.prems(1)
      by (intro disjI2 exI [of _ ns] exI [of _ n] exI [of _ p]) auto
  next
    case False
    have skip: "find_fit sz al (n # ns) =
        bind_res (find_fit sz al ns) (\<lambda>r. Inr (map_option (\<lambda>(ns', f). (n # ns', f)) r))"
      using False e p(1) by (simp add: checked_add_def)
    have nofit: "\<not> region_fit sz al n q" for q
      using False p(4) [of q] by (auto simp: region_fit_def)
    from Cons.IH [OF r Cons.prems(2-4)] show ?thesis
    proof (elim disjE exE conjE)
      assume "find_fit sz al ns = Inr None" "\<forall>m\<in>set ns. \<forall>q. \<not> region_fit sz al m q"
      with skip nofit show ?thesis by auto
    next
      fix ns' k q
      assume k: "find_fit sz al ns = Inr (Some (ns', node_start k, q, q + sz, node_start k + node_size k))"
        "k \<in> set ns" "region_fit sz al k q" "regions 1 (?e + 1) high ns'"
        "free_set ns' = free_set ns - node_bytes k"
        "\<forall>m\<in>set ns. \<forall>q'. region_fit sz al m q' \<longrightarrow> q \<le> q'"
      have "node_bytes n \<inter> node_bytes k = {}"
        using later [OF k(2)] by (auto simp: node_bytes_def block_def)
      then have "free_set (n # ns') = free_set (n # ns) - node_bytes k" using k(5) by auto
      then show ?thesis using skip nofit k Cons.prems(1)
        by (intro disjI2 exI [of _ "n # ns'"] exI [of _ k] exI [of _ q]) auto
    qed
  qed
qed simp

lemma put_back_correct:
  assumes "ll_wf a" and "ll_heap_start a \<le> addr" and "addr + len \<le> ll_heap_end a"
    and "8 dvd addr" and "block addr len \<inter> ll_free a = {}"
  shows "\<exists>ns. put_back a addr len = Inr (a\<lparr>ll_head := ns\<rparr>) \<and> ll_wf (a\<lparr>ll_head := ns\<rparr>) \<and>
             free_set ns = ll_free a \<union> (if len \<ge> 16 then block addr len else {})"
proof (cases "16 \<le> len")
  case True
  then show ?thesis
    using add_free_region_correct [OF assms(1-4) True assms(5)] by (simp add: put_back_def MIN_BLOCK_def)
next
  case False
  then show ?thesis using assms(1) by (intro exI [of _ "ll_head a"]) (simp add: put_back_def MIN_BLOCK_def)
qed

text \<open>Cutting a block out of an unlinked region: the two ends go back to the list.\<close>

lemma carve_region:
  assumes wf: "ll_wf (a\<lparr>ll_head := ns\<rparr>)" and free: "free_set ns = ll_free a - block s (e - s)"
    and bounds: "ll_heap_start a \<le> s" "e \<le> ll_heap_end a" "8 dvd s"
    and p: "s \<le> p" "p + sz \<le> e" "8 dvd p" "8 dvd sz" and sub: "block s (e - s) \<subseteq> ll_free a"
  shows "\<exists>ns2 ns3. put_back (a\<lparr>ll_head := ns\<rparr>) s (p - s) = Inr (a\<lparr>ll_head := ns2\<rparr>) \<and>
    put_back (a\<lparr>ll_head := ns2\<rparr>) (p + sz) (e - (p + sz)) = Inr (a\<lparr>ll_head := ns3\<rparr>) \<and>
    ll_wf (a\<lparr>ll_head := ns3\<rparr>) \<and> free_set ns3 \<subseteq> ll_free a - block p sz \<and>
    ll_free a - block p sz - free_set ns3 \<subseteq> {p - 8..<p} \<union> {p + sz..<p + sz + 15}"
proof -
  have "block s (p - s) \<inter> free_set ns = {}" using p free by (auto simp: block_def)
  then obtain ns2 where a2: "put_back (a\<lparr>ll_head := ns\<rparr>) s (p - s) = Inr (a\<lparr>ll_head := ns2\<rparr>)"
      "ll_wf (a\<lparr>ll_head := ns2\<rparr>)" "free_set ns2 = free_set ns \<union> (if p - s \<ge> 16 then block s (p - s) else {})"
    using put_back_correct [OF wf, of s "p - s"] p bounds by auto
  have "block (p + sz) (e - (p + sz)) \<inter> free_set ns2 = {}"
    using p free unfolding a2(3) by (auto simp: block_def)
  then obtain ns3 where a3:
      "put_back (a\<lparr>ll_head := ns2\<rparr>) (p + sz) (e - (p + sz)) = Inr (a\<lparr>ll_head := ns3\<rparr>)" "ll_wf (a\<lparr>ll_head := ns3\<rparr>)"
      "free_set ns3 = free_set ns2 \<union> (if e - (p + sz) \<ge> 16 then block (p + sz) (e - (p + sz)) else {})"
    using put_back_correct [OF a2(2), of "p + sz" "e - (p + sz)"] p bounds by auto
  have "free_set ns3 \<subseteq> ll_free a - block p sz"
    using sub p unfolding a3(3) a2(3) free by (auto simp: block_def)
  moreover have "p - s < 16 \<Longrightarrow> p - s \<le> 8" using dvd_diff_nat [OF p(3) bounds(3)] by (auto elim!: dvdE)
  then have "ll_free a - block p sz - free_set ns3 \<subseteq> {p - 8..<p} \<union> {p + sz..<p + sz + 15}"
    unfolding a3(3) a2(3) free by (auto simp: block_def)
  ultimately show ?thesis using a2(1) a3(1,2) by blast
qed

lemma find_region_correct:
  assumes wf: "ll_wf a" and al: "is_power_of_two al" "8 dvd al" and sz: "8 dvd sz" "16 \<le> sz"
  obtains
    (none) "find_region a sz al = Inr (a, None)"
      and "\<And>q. al dvd q \<Longrightarrow> \<not> block q sz \<subseteq> ll_free a"
  | (some) p ns where "find_region a sz al = Inr (a\<lparr>ll_head := ns\<rparr>, Some p)"
      and "ll_wf (a\<lparr>ll_head := ns\<rparr>)" and "al dvd p" and "block p sz \<subseteq> ll_free a"
      and "\<And>q. al dvd q \<Longrightarrow> block q sz \<subseteq> ll_free a \<Longrightarrow> p \<le> q"
      and "free_set ns \<subseteq> ll_free a - block p sz"
      and "ll_free a - block p sz - free_set ns \<subseteq> {p - 8..<p} \<union> {p + sz..<p + sz + 15}"
proof -
  let ?lo = "ll_heap_start a" and ?hi = "ll_heap_end a"
  have r: "regions 1 ?lo ?hi (ll_head a)" and hi: "?hi < 2 ^ 63" using wf by (auto simp: ll_wf_def)
  have sz0: "0 < sz" using sz(2) by simp
  have one: "\<exists>m\<in>set (ll_head a). region_fit sz al m q" if "al dvd q" "block q sz \<subseteq> ll_free a" for q
    using block_in_one_region [OF r sz0 that(2)] that(1) by (auto simp: region_fit_def)
  from find_fit_unlink [OF r hi al(1) sz0] show thesis
  proof (elim disjE exE conjE)
    assume "find_fit sz al (ll_head a) = Inr None" "\<forall>m\<in>set (ll_head a). \<forall>q. \<not> region_fit sz al m q"
    then show thesis by (intro none) (auto simp: find_region_def dest: one)
  next
    fix ns' and n :: ListNode and p
    let ?s = "node_start n" and ?e = "node_start n + node_size n"
    assume f: "find_fit sz al (ll_head a) = Inr (Some (ns', ?s, p, p + sz, ?e))"
      and n: "n \<in> set (ll_head a)" and fit: "region_fit sz al n p"
      and r': "regions 1 ?lo ?hi ns'" and fs: "free_set ns' = ll_free a - node_bytes n"
      and least: "\<forall>m\<in>set (ll_head a). \<forall>q. region_fit sz al m q \<longrightarrow> p \<le> q"
    have nb: "block ?s (?e - ?s) \<subseteq> ll_free a" using n by (auto simp: free_set_def node_bytes_def)
    have n_in: "?lo \<le> ?s" "?e \<le> ?hi" "8 dvd ?s"
      using regions_node [OF r n] by auto
    have p: "al dvd p" "?s \<le> p" "p + sz \<le> ?e" using fit by (auto simp: region_fit_def)
    have "8 dvd p" using al(2) p(1) by (rule dvd_trans)
    moreover have "ll_wf (a\<lparr>ll_head := ns'\<rparr>)" using wf r' by (simp add: ll_wf_def)
    moreover have "free_set ns' = ll_free a - block ?s (?e - ?s)" using fs by (simp add: node_bytes_def)
    ultimately obtain ns2 ns3 where c: "put_back (a\<lparr>ll_head := ns'\<rparr>) ?s (p - ?s) = Inr (a\<lparr>ll_head := ns2\<rparr>)"
        "put_back (a\<lparr>ll_head := ns2\<rparr>) (p + sz) (?e - (p + sz)) = Inr (a\<lparr>ll_head := ns3\<rparr>)"
        "ll_wf (a\<lparr>ll_head := ns3\<rparr>)" "free_set ns3 \<subseteq> ll_free a - block p sz"
        "ll_free a - block p sz - free_set ns3 \<subseteq> {p - 8..<p} \<union> {p + sz..<p + sz + 15}"
      using carve_region [OF _ _ n_in p(2,3) _ sz(1) nb] by blast
    have "find_region a sz al = Inr (a\<lparr>ll_head := ns3\<rparr>, Some p)"
      using p by (simp add: find_region_def f Let_def c(1,2))
    then show thesis
    proof (rule some [OF _ c(3) p(1) _ _ c(4,5)])
      show "block p sz \<subseteq> ll_free a" using nb p by (auto simp: block_def)
      show "p \<le> q" if "al dvd q" "block q sz \<subseteq> ll_free a" for q
        using one [OF that] least by blast
    qed
  qed
qed

text \<open>Every outcome of an allocation from a well-formed state.\<close>

lemma ll_alloc_cases:
  assumes "ll_wf a" and "layout_ok l"
  obtains
    (null) "ll_alloc a l = Inr (a, 0)"
      and "\<And>q. allocation_align l dvd q \<Longrightarrow> \<not> block q (asize l) \<subseteq> ll_free a"
  | (fresh) p ns where "ll_alloc a l = Inr (a\<lparr>ll_head := ns\<rparr>, p)" and "ll_wf (a\<lparr>ll_head := ns\<rparr>)"
      and "allocation_align l dvd p" and "block p (asize l) \<subseteq> ll_free a"
      and "ll_heap_start a \<le> p" and "p + asize l \<le> ll_heap_end a"
      and "\<And>q. allocation_align l dvd q \<Longrightarrow> block q (asize l) \<subseteq> ll_free a \<Longrightarrow> p \<le> q"
      and "free_set ns \<subseteq> ll_free a - block p (asize l)"
      and "ll_free a - block p (asize l) - free_set ns
             \<subseteq> {p - 8..<p} \<union> {p + asize l..<p + asize l + 15}"
proof -
  note al = allocation_align_facts [OF assms(2)] and sz = asize_facts [of l]
  have eq: "ll_alloc a l = bind_res (find_region a (asize l) (allocation_align l))
      (\<lambda>(a', r). case r of Some addr \<Rightarrow> Inr (a', addr) | None \<Rightarrow> Inr (a', 0))"
    by (simp add: ll_alloc_def allocation_size_eq [OF assms(2)])
  show thesis
  proof (rule find_region_correct [OF assms(1) al(1,2) sz(1,2)])
    assume "find_region a (asize l) (allocation_align l) = Inr (a, None)"
      and "\<And>q. allocation_align l dvd q \<Longrightarrow> \<not> block q (asize l) \<subseteq> ll_free a"
    then show thesis by (intro null) (simp_all add: eq)
  next
    fix p ns
    assume f: "find_region a (asize l) (allocation_align l) = Inr (a\<lparr>ll_head := ns\<rparr>, Some p)"
      "ll_wf (a\<lparr>ll_head := ns\<rparr>)" "allocation_align l dvd p" "block p (asize l) \<subseteq> ll_free a"
      "\<And>q. allocation_align l dvd q \<Longrightarrow> block q (asize l) \<subseteq> ll_free a \<Longrightarrow> p \<le> q"
      "free_set ns \<subseteq> ll_free a - block p (asize l)"
      "ll_free a - block p (asize l) - free_set ns
         \<subseteq> {p - 8..<p} \<union> {p + asize l..<p + asize l + 15}"
    have "ll_free a \<subseteq> {ll_heap_start a..<ll_heap_end a}"
      using assms(1) by (auto simp: ll_wf_def dest: free_set_bounds)
    with f(4) have "block p (asize l) \<subseteq> {ll_heap_start a..<ll_heap_end a}" by blast
    then have "ll_heap_start a \<le> p" "p + asize l \<le> ll_heap_end a"
      using sz(2) by (auto simp: block_def)
    with f show thesis by (intro fresh) (simp_all add: eq)
  qed
qed

lemma ll_dealloc_correct:
  assumes "ll_wf a" and "layout_ok l" and "8 dvd p"
    and "ll_heap_start a \<le> p" and "p + asize l \<le> ll_heap_end a"
    and "block p (asize l) \<inter> ll_free a = {}"
  shows "\<exists>ns. ll_dealloc a p l = Inr (a\<lparr>ll_head := ns\<rparr>) \<and> ll_wf (a\<lparr>ll_head := ns\<rparr>) \<and>
             free_set ns = ll_free a \<union> block p (asize l)"
proof -
  have hi: "p + asize l \<le> USIZE_MAX"
    using assms(1,5) by (simp add: ll_wf_def USIZE_MAX_def)
  have "align_up p NODE_ALIGN = Inr p"
    using assms(3) hi asize_facts(2) [of l] by (intro align_up_id) (simp_all add: NODE_ALIGN_def)
  then have "ll_dealloc a p l = add_free_region a p (asize l)"
    using assms(4,5) hi
    by (simp add: ll_dealloc_def allocation_size_eq [OF assms(2)] saturating_add_def)
  then show ?thesis
    using add_free_region_correct [OF assms(1,4,5,3) asize_facts(2) assms(6)] by simp
qed

lemma ll_init_correct:
  assumes "0 < start" and "start + sz < 2 ^ 63"
  obtains ns where "ll_init a start sz =
      Inr \<lparr>ll_head = ns, ll_heap_start = start, ll_heap_end = start + sz\<rparr>"
    and "ll_wf \<lparr>ll_head = ns, ll_heap_start = start, ll_heap_end = start + sz\<rparr>"
    and "free_set ns = (let st = (start + 7) div 8 * 8 in
           if 16 \<le> start + sz - st then block st (start + sz - st) else {})"
proof -
  let ?a = "\<lparr>ll_head = [], ll_heap_start = start, ll_heap_end = start + sz\<rparr>"
  let ?st = "(start + 7) div 8 * 8" and ?sz = "start + sz - (start + 7) div 8 * 8"
  have wf: "ll_wf ?a" using assms by (simp add: ll_wf_def)
  have st: "align_up start NODE_ALIGN = Inr ?st" "start \<le> ?st"
    using align_up_eq [of 8 start] round_up_bounds(1) [of 8 start] assms
    by (simp_all add: NODE_ALIGN_def USIZE_MAX_def)
  have run: "ll_init a start sz = put_back ?a ?st ?sz"
    using assms st(1)
    by (cases a) (simp add: ll_init_def put_back_def saturating_add_ok USIZE_MAX_def)
  show thesis
  proof (cases "?st \<le> start + sz")
    case True
    then show thesis
      using put_back_correct [OF wf, of ?st ?sz] st(2) run that by (auto simp: Let_def)
  next
    case False
    then have "ll_init a start sz = Inr ?a" using run by (simp add: put_back_def MIN_BLOCK_def)
    then show thesis using that [of "[]"] wf False by (simp add: Let_def)
  qed
qed

section \<open>The contract\<close>

definition ll_inv :: "LinkedListAllocator \<Rightarrow> live \<Rightarrow> bool" where
  "ll_inv a L \<longleftrightarrow> ll_wf a \<and>
     (\<forall>p l. L p = Some l \<longrightarrow> layout_ok l \<and> allocation_align l dvd p \<and>
        ll_heap_start a \<le> p \<and> p + asize l \<le> ll_heap_end a \<and> block p (asize l) \<inter> ll_free a = {}) \<and>
     (\<forall>p l q m. L p = Some l \<longrightarrow> L q = Some m \<longrightarrow> p \<noteq> q \<longrightarrow>
        block p (asize l) \<inter> block q (asize m) = {})"

lemma ll_invD:
  assumes "ll_inv a L"
  shows "ll_wf a"
    and "L p = Some l \<Longrightarrow> layout_ok l \<and> allocation_align l dvd p \<and> ll_heap_start a \<le> p \<and>
           p + asize l \<le> ll_heap_end a \<and> block p (asize l) \<inter> ll_free a = {}"
    and "L p = Some l \<Longrightarrow> L q = Some m \<Longrightarrow> p \<noteq> q \<Longrightarrow> block p (asize l) \<inter> block q (asize m) = {}"
  using assms unfolding ll_inv_def by blast+

lemma ll_inv_alloc:
  assumes "ll_inv a L" and "layout_ok l" and "ll_alloc a l = Inr (a', p)" and "p \<noteq> 0"
  shows "L p = None \<and> ll_inv a' (L(p \<mapsto> l))"
proof (rule ll_alloc_cases [OF ll_invD(1) [OF assms(1)] assms(2)])
  fix q ns
  assume f: "ll_alloc a l = Inr (a\<lparr>ll_head := ns\<rparr>, q)" "ll_wf (a\<lparr>ll_head := ns\<rparr>)"
    "allocation_align l dvd q" "block q (asize l) \<subseteq> ll_free a" "ll_heap_start a \<le> q"
    "q + asize l \<le> ll_heap_end a" "free_set ns \<subseteq> ll_free a - block q (asize l)"
  have eqs: "q = p" "a' = a\<lparr>ll_head := ns\<rparr>" using f(1) assms(3) by auto
  have disj: "block p (asize l) \<inter> block r (asize m) = {}" if "L r = Some m" for r m
    using ll_invD(2) [OF assms(1) that] f(4) eqs(1) by blast
  have p: "p \<in> block p (asize l)" "p \<in> block p (asize m)" for m
    using asize_facts(2) [of l] asize_facts(2) [of m] by (auto simp: block_def)
  have new: "L p = None" using disj [of p] p by (cases "L p") blast+
  have "block r (asize m) \<inter> free_set ns = {}" if "L r = Some m" for r m
    using ll_invD(2) [OF assms(1) that] f(7) by blast
  moreover have "block p (asize l) \<inter> free_set ns = {}" using f(7) eqs(1) by blast
  moreover have "block r (asize m) \<inter> block p (asize l) = {}" if "L r = Some m" for r m
    using disj [OF that] by blast
  ultimately show ?thesis
    using new f(2-6) eqs assms(2) disj ll_invD(2,3) [OF assms(1)] by (simp add: ll_inv_def)
qed (use assms in auto)

lemma ll_inv_dealloc:
  assumes "ll_inv a L" and "L p = Some l"
  shows "\<exists>ns. ll_dealloc a p l = Inr (a\<lparr>ll_head := ns\<rparr>) \<and>
              ll_inv (a\<lparr>ll_head := ns\<rparr>) (L(p := None)) \<and>
              free_set ns = ll_free a \<union> block p (asize l)"
proof -
  note i = ll_invD(2) [OF assms]
  have "8 dvd p" using i allocation_align_facts(2) dvd_trans by blast
  then obtain ns where ns: "ll_dealloc a p l = Inr (a\<lparr>ll_head := ns\<rparr>)" "ll_wf (a\<lparr>ll_head := ns\<rparr>)"
      "free_set ns = ll_free a \<union> block p (asize l)"
    using ll_dealloc_correct [OF ll_invD(1) [OF assms(1)], of l p] i by blast
  have "block q (asize m) \<inter> free_set ns = {}" if "L q = Some m" "q \<noteq> p" for q m
    using ll_invD(2) [OF assms(1) that(1)] ll_invD(3) [OF assms(1) that(1) assms(2) that(2)] ns(3)
    by blast
  then have "ll_inv (a\<lparr>ll_head := ns\<rparr>) (L(p := None))"
    using ns(2) ll_invD(2,3) [OF assms(1)] by (simp add: ll_inv_def)
  with ns show ?thesis by blast
qed

interpretation ll: global_alloc ll_alloc ll_dealloc ll_inv ll_heap_start ll_heap_end
proof
  fix a L l
  assume "ll_inv a L" and "layout_ok l"
  then show "\<exists>a' p. ll_alloc a l = Inr (a', p)" by (meson ll_alloc_cases ll_invD(1))
next
  fix a L l a'
  assume inv: "ll_inv a L" and l: "layout_ok l" and eq: "ll_alloc a l = Inr (a', 0)"
  show "ll_inv a' L"
    by (rule ll_alloc_cases [OF ll_invD(1) [OF inv] l])
      (use inv eq ll_invD(1) [OF inv] in \<open>auto simp: ll_wf_def\<close>)
next
  fix a L l a' p
  assume inv: "ll_inv a L" and l: "layout_ok l" and eq: "ll_alloc a l = Inr (a', p)"
  show "ll_heap_start a' = ll_heap_start a \<and> ll_heap_end a' = ll_heap_end a"
    by (rule ll_alloc_cases [OF ll_invD(1) [OF inv] l]) (use eq in auto)
next
  fix a L l a' p
  assume "ll_inv a L" and "layout_ok l" and "ll_alloc a l = Inr (a', p)" and "p \<noteq> 0"
  then show "L p = None \<and> ll_inv a' (L(p \<mapsto> l))" by (rule ll_inv_alloc)
next
  fix a L p l
  assume "ll_inv a L" and "L p = Some l"
  then show "\<exists>a'. ll_dealloc a p l = Inr a' \<and> ll_inv a' (L(p := None)) \<and>
      ll_heap_start a' = ll_heap_start a \<and> ll_heap_end a' = ll_heap_end a"
    using ll_inv_dealloc by fastforce
next
  fix a L p l
  assume "ll_inv a L" and "L p = Some l"
  from ll_invD(2) [OF this] show "layout_ok l \<and> layout_align l dvd p \<and> ll_heap_start a \<le> p \<and>
      p + layout_size l \<le> ll_heap_end a"
    using allocation_align_facts(3) asize_facts(3) [of l] by (auto intro: dvd_trans)
next
  fix a L p l q m
  assume "ll_inv a L" and "L p = Some l" and "L q = Some m" and "p \<noteq> q"
  from ll_invD(3) [OF this] show "block p (layout_size l) \<inter> block q (layout_size m) = {}"
    using block_mono [OF asize_facts(3)] by blast
qed

section \<open>Properties\<close>

text \<open>
  The abstract specification of an allocation on a set of free bytes: the lowest aligned
  address whose whole block is free.
\<close>

definition first_fit :: "usize set \<Rightarrow> usize \<Rightarrow> usize \<Rightarrow> usize option" where
  "first_fit F sz al =
     (if \<exists>p. al dvd p \<and> block p sz \<subseteq> F then Some (LEAST p. al dvd p \<and> block p sz \<subseteq> F) else None)"

lemma first_fit_Some:
  assumes "al dvd p" and "block p sz \<subseteq> F" and "\<And>q. al dvd q \<Longrightarrow> block q sz \<subseteq> F \<Longrightarrow> p \<le> q"
  shows "first_fit F sz al = Some p"
proof -
  have "(LEAST p. al dvd p \<and> block p sz \<subseteq> F) = p"
    by (rule Least_equality) (use assms in auto)
  then show ?thesis using assms(1,2) by (auto simp: first_fit_def)
qed

lemma ll_inv_init:
  assumes "0 < start" and "start + sz < 2 ^ 63"
  shows "\<exists>a0. ll_init a start sz = Inr a0 \<and> ll_inv a0 Map.empty \<and>
              ll_heap_start a0 = start \<and> ll_heap_end a0 = start + sz"
  by (rule ll_init_correct [OF assms]) (auto simp: ll_inv_def)

lemmas ll_eval = ll_init_def ll_empty_def ll_alloc_def ll_dealloc_def find_region_def put_back_def
  add_free_region_def allocation_size_def allocation_align_def end_addr_def align_up_def
  usize_add_def usize_sub_def usize_not_def checked_add_def saturating_add_def USIZE_MAX_def
  MIN_BLOCK_def NODE_ALIGN_def debug_assert_def ll_free_bytes_def

text \<open>
  Any sequence of allocations and deallocations on a freshly initialised linked-list
  allocator runs without a panic (no arithmetic overflow and no failed \<open>debug_assert!\<close>),
  and afterwards every live block is aligned to its layout, lies inside the heap and
  overlaps no other live block.
\<close>

theorem ll_client_safe:
  assumes "0 < start" and "start + sz < 2 ^ 63"
  shows "\<exists>a0 a L. ll_init ll_empty start sz = Inr a0 \<and>
    serve_all ll_alloc ll_dealloc (a0, Map.empty) rs = Inr (a, L) \<and> live_safe start (start + sz) L"
  using ll_inv_init [OF assms, of ll_empty] ll.client_safe by metis

theorem ll_client_safe_witness:
  "\<exists>a0 a L. ll_init ll_empty 0x1000 4096 = Inr a0 \<and>
    serve_all ll_alloc ll_dealloc (a0, Map.empty)
      [Alloc \<lparr>layout_size = 17, layout_align = 16\<rparr>, Dealloc 0x1000] = Inr (a, L) \<and>
    live_safe 0x1000 (0x1000 + 4096) L"
  by (rule ll_client_safe) simp_all

text \<open>
  C8: Allocation refines the abstract specification on the set of free bytes. It returns
  the lowest address, aligned for the layout and for a list node, at which a run of free
  bytes of the rounded size starts, and null exactly when there is none. A success
  removes the block from the free bytes and otherwise loses at most the slivers too small
  for a header next to the block: 8 bytes before it and 15 after it. The list stays
  ordered, aligned and coalesced.
\<close>

theorem ll_alloc_refines_first_fit:
  assumes "ll_wf a" and "layout_ok l"
  shows "case first_fit (ll_free a) (asize l) (allocation_align l) of
      None \<Rightarrow> ll_alloc a l = Inr (a, 0)
    | Some p \<Rightarrow> \<exists>a'. ll_alloc a l = Inr (a', p) \<and> ll_wf a' \<and>
        ll_free a' \<subseteq> ll_free a - block p (asize l) \<and>
        ll_free a - block p (asize l) - ll_free a'
          \<subseteq> {p - 8..<p} \<union> {p + asize l..<p + asize l + 15}"
proof (rule ll_alloc_cases [OF assms])
  assume null: "ll_alloc a l = Inr (a, 0)"
    and "\<And>q. allocation_align l dvd q \<Longrightarrow> \<not> block q (asize l) \<subseteq> ll_free a"
  then have "first_fit (ll_free a) (asize l) (allocation_align l) = None"
    by (auto simp: first_fit_def)
  with null show ?thesis by simp
next
  fix p ns
  assume f: "allocation_align l dvd p" "block p (asize l) \<subseteq> ll_free a"
    "\<And>q. allocation_align l dvd q \<Longrightarrow> block q (asize l) \<subseteq> ll_free a \<Longrightarrow> p \<le> q"
    and g: "ll_alloc a l = Inr (a\<lparr>ll_head := ns\<rparr>, p)" "ll_wf (a\<lparr>ll_head := ns\<rparr>)"
      "free_set ns \<subseteq> ll_free a - block p (asize l)"
      "ll_free a - block p (asize l) - free_set ns \<subseteq> {p - 8..<p} \<union> {p + asize l..<p + asize l + 15}"
  have "first_fit (ll_free a) (asize l) (allocation_align l) = Some p"
    using f by (rule first_fit_Some)
  with g show ?thesis by auto
qed

theorem ll_alloc_refines_first_fit_witness:
  "case first_fit (free_set [\<lparr>node_start = 0x1008, node_size = 64\<rparr>])
      (asize \<lparr>layout_size = 8, layout_align = 16\<rparr>) (allocation_align \<lparr>layout_size = 8, layout_align = 16\<rparr>) of
      None \<Rightarrow> False
    | Some p \<Rightarrow> \<exists>a'. ll_alloc \<lparr>ll_head = [\<lparr>node_start = 0x1008, node_size = 64\<rparr>],
          ll_heap_start = 0x1000, ll_heap_end = 0x2000\<rparr> \<lparr>layout_size = 8, layout_align = 16\<rparr> = Inr (a', p)"
proof -
  have l: "layout_ok \<lparr>layout_size = 8, layout_align = 16\<rparr>" by (rule layout_okI) simp_all
  have wf: "ll_wf \<lparr>ll_head = [\<lparr>node_start = 0x1008, node_size = 64\<rparr>],
      ll_heap_start = 0x1000, ll_heap_end = 0x2000\<rparr>" by (simp add: ll_wf_def)
  have "ll_alloc \<lparr>ll_head = [\<lparr>node_start = 0x1008, node_size = 64\<rparr>], ll_heap_start = 0x1000,
      ll_heap_end = 0x2000\<rparr> \<lparr>layout_size = 8, layout_align = 16\<rparr> =
    Inr (\<lparr>ll_head = [\<lparr>node_start = 0x1020, node_size = 40\<rparr>], ll_heap_start = 0x1000,
      ll_heap_end = 0x2000\<rparr>, 0x1010)"
    by (simp add: ll_eval)
  then show ?thesis using ll_alloc_refines_first_fit [OF wf l] by (auto split: option.splits)
qed

text \<open>
  C21: Deallocating a live block never panics, puts exactly the block's rounded bytes back
  on the free list, keeps the list ordered and coalesced, and keeps every other live block
  disjoint from the free bytes.
\<close>

theorem ll_dealloc_returns_block:
  assumes "ll_inv a L" and "L p = Some l"
  shows "\<exists>a'. ll_dealloc a p l = Inr a' \<and> ll_inv a' (L(p := None)) \<and>
              ll_free a' = ll_free a \<union> block p (asize l)"
  using ll_inv_dealloc [OF assms] by fastforce

theorem ll_dealloc_returns_block_witness:
  "\<exists>a'. ll_dealloc \<lparr>ll_head = [\<lparr>node_start = 0x1020, node_size = 40\<rparr>], ll_heap_start = 0x1000,
        ll_heap_end = 0x2000\<rparr> 0x1010 \<lparr>layout_size = 8, layout_align = 16\<rparr> = Inr a' \<and>
      ll_inv a' (([0x1010 \<mapsto> \<lparr>layout_size = 8, layout_align = 16\<rparr>] :: live)(0x1010 := None)) \<and>
      ll_free a' = ll_free \<lparr>ll_head = [\<lparr>node_start = 0x1020, node_size = 40\<rparr>], ll_heap_start = 0x1000,
        ll_heap_end = 0x2000\<rparr> \<union> block 0x1010 (asize \<lparr>layout_size = 8, layout_align = 16\<rparr>)"
proof (rule ll_dealloc_returns_block)
  have "layout_ok \<lparr>layout_size = 8, layout_align = 16\<rparr>" by (rule layout_okI) simp_all
  then show "ll_inv \<lparr>ll_head = [\<lparr>node_start = 0x1020, node_size = 40\<rparr>], ll_heap_start = 0x1000,
      ll_heap_end = 0x2000\<rparr> [0x1010 \<mapsto> \<lparr>layout_size = 8, layout_align = 16\<rparr>]"
    by (auto simp: ll_inv_def ll_wf_def allocation_align_def NODE_ALIGN_def asize_def
        node_bytes_def block_def)
qed simp

text \<open>
  Freeing a block right after allocating it gives back the allocator's state up to the
  lost slivers: the free bytes afterwards are among those before, at most 8 bytes before
  and 15 after the block are missing, and if none is missing the state, the list itself
  included, is the one before the allocation.
\<close>

theorem ll_alloc_dealloc_roundtrip:
  assumes "ll_wf a" and "layout_ok l" and "ll_alloc a l = Inr (a', p)" and "p \<noteq> 0"
  shows "\<exists>a''. ll_dealloc a' p l = Inr a'' \<and> ll_free a'' \<subseteq> ll_free a \<and>
    ll_free a - ll_free a'' \<subseteq> {p - 8..<p} \<union> {p + asize l..<p + asize l + 15} \<and>
    (ll_free a'' = ll_free a \<longrightarrow> a'' = a)"
proof (rule ll_alloc_cases [OF assms(1,2)])
  fix q ns
  assume f: "ll_alloc a l = Inr (a\<lparr>ll_head := ns\<rparr>, q)" "ll_wf (a\<lparr>ll_head := ns\<rparr>)"
    "allocation_align l dvd q" "block q (asize l) \<subseteq> ll_free a" "ll_heap_start a \<le> q"
    "q + asize l \<le> ll_heap_end a" "free_set ns \<subseteq> ll_free a - block q (asize l)"
    "ll_free a - block q (asize l) - free_set ns \<subseteq> {q - 8..<q} \<union> {q + asize l..<q + asize l + 15}"
  have eqs: "q = p" "a' = a\<lparr>ll_head := ns\<rparr>" using f(1) assms(3) by auto
  have d8: "8 dvd p" using f(3) eqs(1) allocation_align_facts(2) [OF assms(2)] dvd_trans by blast
  have apart: "block p (asize l) \<inter> ll_free a' = {}" using f(7) eqs by auto
  obtain ms where ms: "ll_dealloc a' p l = Inr (a'\<lparr>ll_head := ms\<rparr>)" "ll_wf (a'\<lparr>ll_head := ms\<rparr>)"
      "free_set ms = ll_free a' \<union> block p (asize l)"
    using ll_dealloc_correct [of a' l p] f(2,5,6) eqs d8 apart assms(2) by auto
  have "a'\<lparr>ll_head := ms\<rparr> = a" if "free_set ms = ll_free a"
  proof -
    have "ms = ll_head a"
      using ms(2) assms(1) that eqs(2) by (intro regions_unique) (auto simp: ll_wf_def)
    then show ?thesis using eqs(2) by simp
  qed
  then show ?thesis using ms f(4,7,8) eqs by (intro exI [of _ "a'\<lparr>ll_head := ms\<rparr>"]) auto
qed (use assms(3,4) in auto)

theorem ll_alloc_dealloc_roundtrip_witness:
  "\<exists>a''. ll_dealloc \<lparr>ll_head = [\<lparr>node_start = 0x1020, node_size = 40\<rparr>], ll_heap_start = 0x1000,
        ll_heap_end = 0x2000\<rparr> 0x1010 \<lparr>layout_size = 8, layout_align = 16\<rparr> = Inr a'' \<and>
      ll_free a'' \<subseteq> ll_free \<lparr>ll_head = [\<lparr>node_start = 0x1008, node_size = 64\<rparr>],
        ll_heap_start = 0x1000, ll_heap_end = 0x2000\<rparr>"
proof -
  let ?a = "\<lparr>ll_head = [\<lparr>node_start = 0x1008, node_size = 64\<rparr>], ll_heap_start = 0x1000,
      ll_heap_end = 0x2000\<rparr>" and ?l = "\<lparr>layout_size = 8, layout_align = 16\<rparr>"
  have wf: "ll_wf ?a" by (simp add: ll_wf_def)
  have l: "layout_ok ?l" by (rule layout_okI) simp_all
  have "ll_alloc ?a ?l = Inr (\<lparr>ll_head = [\<lparr>node_start = 0x1020, node_size = 40\<rparr>],
      ll_heap_start = 0x1000, ll_heap_end = 0x2000\<rparr>, 0x1010)"
    by (simp add: ll_eval)
  from ll_alloc_dealloc_roundtrip [OF wf l this] show ?thesis by auto
qed

lemma sum_regions_eq:
  "b + sum_list (map node_size ns) \<le> USIZE_MAX \<Longrightarrow>
     sum_regions b ns = Inr (b + sum_list (map node_size ns))"
  by (induction ns arbitrary: b) (auto simp: add.assoc)

lemma ll_free_bytes_card:
  assumes "ll_wf a"
  shows "ll_free_bytes a = Inr (card (ll_free a))" and "card (ll_free a) \<le> ll_heap_size a"
proof -
  have r: "regions 1 (ll_heap_start a) (ll_heap_end a) (ll_head a)" and "ll_heap_end a < 2 ^ 63"
    using assms by (auto simp: ll_wf_def)
  show le: "card (ll_free a) \<le> ll_heap_size a"
    using card_mono [OF _ free_set_bounds [OF r]] by (simp add: ll_heap_size_def)
  also have "\<dots> \<le> USIZE_MAX" using assms by (auto simp: ll_heap_size_def ll_wf_def USIZE_MAX_def)
  finally show "ll_free_bytes a = Inr (card (ll_free a))"
    using free_bytes_card [OF r] sum_regions_eq [of 0 "ll_head a"] by (simp add: ll_free_bytes_def)
qed

text \<open>
  The free-byte counter never overflows: it is the exact number of free bytes and at
  most the size of the heap.
\<close>

theorem ll_free_bytes_exact:
  assumes "ll_wf a"
  shows "ll_free_bytes a = Inr (card (ll_free a)) \<and> card (ll_free a) \<le> ll_heap_size a"
  using ll_free_bytes_card [OF assms] by blast

theorem ll_free_bytes_exact_witness:
  "ll_free_bytes \<lparr>ll_head = [\<lparr>node_start = 0x1008, node_size = 64\<rparr>], ll_heap_start = 0x1000,
      ll_heap_end = 0x2000\<rparr> =
   Inr (card (ll_free \<lparr>ll_head = [\<lparr>node_start = 0x1008, node_size = 64\<rparr>], ll_heap_start = 0x1000,
      ll_heap_end = 0x2000\<rparr>))"
  using ll_free_bytes_exact [of "\<lparr>ll_head = [\<lparr>node_start = 0x1008, node_size = 64\<rparr>],
      ll_heap_start = 0x1000, ll_heap_end = 0x2000\<rparr>"] by (simp add: ll_wf_def)

text \<open>
  Slivers are lost for good: on a fresh 4096-byte heap two allocations of 17 bytes
  aligned to 16, both freed again, leave 4088 bytes on the free list, because the 8 bytes
  of alignment padding between the blocks were dropped and no operation brings them back.
\<close>

theorem ll_padding_is_lost:
  "bind_res (ll_init ll_empty 0x1000 4096) (\<lambda>a0.
   bind_res (serve_all ll_alloc ll_dealloc (a0, Map.empty)
     [Alloc \<lparr>layout_size = 17, layout_align = 16\<rparr>, Alloc \<lparr>layout_size = 17, layout_align = 16\<rparr>,
      Dealloc 0x1000, Dealloc 0x1020]) (\<lambda>(a, L).
   bind_res (ll_free_bytes a) (\<lambda>n. Inr (n, L = Map.empty)))) = Inr (4088, True)"
proof -
  have l: "layout_ok \<lparr>layout_size = 17, layout_align = 16\<rparr>" by (rule layout_okI) simp_all
  show ?thesis by (simp add: ll_eval l)
qed

end
