(* ===== verification/Fixed_Size_Block.thy ===== *)
theory Fixed_Size_Block
  imports Linked_List_Allocator
begin

text \<open>
  The kernel's global allocator (\<open>src/src/allocator/fixed_size_block.rs\<close>, installed and
  initialised in \<open>src/src/allocator/mod.rs\<close>): ten lists of cached blocks, one per size
  class, in front of the linked-list allocator. The list of a class holds the freed
  blocks' nodes; an empty list, or a layout larger than every class, goes to the fallback.

  The invariant says that the fallback sees every block that a client holds or that a
  class caches as live, so that the linked-list allocator's contract carries over; the
  interpretation of \<open>global_alloc\<close> makes that precise.
\<close>

section \<open>State and operations\<close>

definition BLOCK_SIZES :: "usize list" where
  "BLOCK_SIZES = [8, 16, 32, 64, 128, 256, 512, 1024, 2048, 4096]"

record FixedSizeBlockAllocator =
  list_heads :: "ListNode list list"
  fallback_allocator :: LinkedListAllocator

definition fsb_empty :: FixedSizeBlockAllocator where
  "fsb_empty = \<lparr>list_heads = replicate (length BLOCK_SIZES) [], fallback_allocator = ll_empty\<rparr>"

definition fsb_init ::
  "FixedSizeBlockAllocator \<Rightarrow> usize \<Rightarrow> usize \<Rightarrow> FixedSizeBlockAllocator res" where
  "fsb_init a start sz =
     bind_res (ll_init (fallback_allocator a) start sz) (\<lambda>f. Inr (a\<lparr>fallback_allocator := f\<rparr>))"

definition list_index :: "Layout \<Rightarrow> usize option" where
  "list_index l =
     (let required = max (layout_size l) (layout_align l)
      in position (\<lambda>s. s \<ge> required) BLOCK_SIZES)"

definition fallback_alloc ::
  "FixedSizeBlockAllocator \<Rightarrow> Layout \<Rightarrow> (FixedSizeBlockAllocator \<times> usize) res" where
  "fallback_alloc a l =
     bind_res (ll_alloc (fallback_allocator a) l) (\<lambda>(f, p). Inr (a\<lparr>fallback_allocator := f\<rparr>, p))"

definition fsb_alloc ::
  "FixedSizeBlockAllocator \<Rightarrow> Layout \<Rightarrow> (FixedSizeBlockAllocator \<times> usize) res" where
  "fsb_alloc a l =
     (case list_index l of
        Some index \<Rightarrow>
          bind_res (index_res (list_heads a) index) (\<lambda>head.
          case head of
            node # next \<Rightarrow> Inr (a\<lparr>list_heads := (list_heads a)[index := next]\<rparr>, node_start node)
          | [] \<Rightarrow>
              bind_res (index_res BLOCK_SIZES index) (\<lambda>block_size.
              bind_res (expect (from_size_align block_size block_size) ''invalid block layout'')
                (\<lambda>layout. fallback_alloc a layout)))
      | None \<Rightarrow> fallback_alloc a l)"

definition fallback_dealloc ::
  "FixedSizeBlockAllocator \<Rightarrow> usize \<Rightarrow> Layout \<Rightarrow> FixedSizeBlockAllocator res" where
  "fallback_dealloc a p l =
     bind_res (ll_dealloc (fallback_allocator a) p l) (\<lambda>f. Inr (a\<lparr>fallback_allocator := f\<rparr>))"

definition fsb_dealloc ::
  "FixedSizeBlockAllocator \<Rightarrow> usize \<Rightarrow> Layout \<Rightarrow> FixedSizeBlockAllocator res" where
  "fsb_dealloc a p l =
     (case list_index l of
        Some index \<Rightarrow>
          bind_res (index_res BLOCK_SIZES index) (\<lambda>block_size.
          if block_size \<ge> MIN_BLOCK \<and> block_size \<ge> NODE_ALIGN then
            bind_res (index_res (list_heads a) index) (\<lambda>head.
            Inr (a\<lparr>list_heads := (list_heads a)[index :=
                   \<lparr>node_start = p, node_size = block_size\<rparr> # head]\<rparr>))
          else fallback_dealloc a p l)
      | None \<Rightarrow> fallback_dealloc a p l)"

text \<open>The two loops of \<open>stats\<close>: over the classes, and over the blocks of a class.\<close>

fun cached_in_class :: "usize \<Rightarrow> usize \<Rightarrow> ListNode list \<Rightarrow> usize res" where
  "cached_in_class index bytes [] = Inr bytes"
| "cached_in_class index bytes (n # ns) =
     bind_res (index_res BLOCK_SIZES index) (\<lambda>block_size.
     bind_res (usize_add bytes block_size) (\<lambda>b. cached_in_class index b ns))"

fun cached_from :: "usize \<Rightarrow> usize \<Rightarrow> ListNode list list \<Rightarrow> usize res" where
  "cached_from index bytes [] = Inr bytes"
| "cached_from index bytes (head # heads) =
     bind_res (cached_in_class index bytes head) (\<lambda>b. cached_from (index + 1) b heads)"

definition fsb_stats :: "FixedSizeBlockAllocator \<Rightarrow> HeapStats res" where
  "fsb_stats a =
     bind_res (cached_from 0 0 (list_heads a)) (\<lambda>cached_bytes.
     bind_res (ll_free_bytes (fallback_allocator a)) (\<lambda>fb.
     bind_res (usize_add fb cached_bytes) (\<lambda>total.
     Inr \<lparr>heap_size = ll_heap_size (fallback_allocator a), free_bytes = total\<rparr>)))"

section \<open>Size classes\<close>

definition slab_layout :: "usize \<Rightarrow> Layout" where
  "slab_layout i = \<lparr>layout_size = BLOCK_SIZES ! i, layout_align = BLOCK_SIZES ! i\<rparr>"

text \<open>The layout with which the fallback allocated the block behind a client's layout.\<close>

definition backing :: "Layout \<Rightarrow> Layout" where
  "backing l = (case list_index l of Some i \<Rightarrow> slab_layout i | None \<Rightarrow> l)"

lemma BLOCK_SIZES_length [simp]: "length BLOCK_SIZES = 10"
  by (simp add: BLOCK_SIZES_def)

lemma BLOCK_SIZES_nth:
  assumes "i < 10"
  shows "is_power_of_two (BLOCK_SIZES ! i)" "8 \<le> BLOCK_SIZES ! i" "BLOCK_SIZES ! i \<le> 4096"
    "0 < i \<Longrightarrow> 16 \<le> BLOCK_SIZES ! i"
proof -
  have "i \<in> {0, 1, 2, 3, 4, 5, 6, 7, 8, 9}" using assms by auto
  then show "is_power_of_two (BLOCK_SIZES ! i)" "8 \<le> BLOCK_SIZES ! i" "BLOCK_SIZES ! i \<le> 4096"
    "0 < i \<Longrightarrow> 16 \<le> BLOCK_SIZES ! i"
    by (auto simp: BLOCK_SIZES_def)
qed

lemma BLOCK_SIZES_0 [simp]: "BLOCK_SIZES ! 0 = 8"
  by (simp add: BLOCK_SIZES_def)

lemma list_index_Some:
  "list_index l = Some i \<longleftrightarrow> i < 10 \<and> max (layout_size l) (layout_align l) \<le> BLOCK_SIZES ! i \<and>
     (\<forall>j<i. BLOCK_SIZES ! j < max (layout_size l) (layout_align l))"
  by (auto simp: list_index_def position_Some not_le)

lemma slab_layout_ok:
  assumes "i < 10"
  shows "from_size_align (BLOCK_SIZES ! i) (BLOCK_SIZES ! i) = Some (slab_layout i)"
    and "layout_ok (slab_layout i)"
  using BLOCK_SIZES_nth [OF assms]
  by (simp_all add: from_size_align_def slab_layout_def layout_ok_def)

lemma backing_facts:
  assumes "layout_ok l"
  shows "layout_ok (backing l)" and "layout_size l \<le> layout_size (backing l)"
    and "layout_align l dvd layout_align (backing l)"
proof -
  have "layout_ok (backing l) \<and> layout_size l \<le> layout_size (backing l) \<and>
      layout_align l dvd layout_align (backing l)"
  proof (cases "list_index l")
    case (Some i)
    then have "i < 10" "layout_size l \<le> BLOCK_SIZES ! i" "layout_align l \<le> BLOCK_SIZES ! i"
      by (auto simp: list_index_Some)
    then show ?thesis
      using Some assms slab_layout_ok BLOCK_SIZES_nth(1) layout_okD(1) is_power_of_two_dvd
      by (auto simp: backing_def slab_layout_def)
  qed (use assms in \<open>simp add: backing_def\<close>)
  then show "layout_ok (backing l)" and "layout_size l \<le> layout_size (backing l)"
    and "layout_align l dvd layout_align (backing l)" by auto
qed

text \<open>
  Blocks of the 8-byte class are too small for a node and go back to the fallback with
  the client's own layout; both layouts round to the same block.
\<close>

lemma class_0_same_size:
  assumes "list_index l = Some 0"
  shows "allocation_size l = allocation_size (slab_layout 0)"
proof -
  have "layout_size l \<le> 8" using assms by (simp add: list_index_Some)
  then show ?thesis by (simp add: allocation_size_def slab_layout_def MIN_BLOCK_def)
qed

section \<open>The contract\<close>

text \<open>
  \<open>M\<close> is the fallback's view of the live blocks: those of the clients and those cached in
  the classes.
\<close>

definition fsb_cache_ok :: "FixedSizeBlockAllocator \<Rightarrow> bool" where
  "fsb_cache_ok a \<longleftrightarrow> length (list_heads a) = 10 \<and> list_heads a ! 0 = [] \<and>
     distinct (map node_start (concat (list_heads a)))"

definition fsb_view :: "FixedSizeBlockAllocator \<Rightarrow> live \<Rightarrow> live \<Rightarrow> bool" where
  "fsb_view a L M \<longleftrightarrow> ll_inv (fallback_allocator a) M \<and>
     (\<forall>p l. L p = Some l \<longrightarrow> layout_ok l \<and> M p = Some (backing l)) \<and>
     (\<forall>i<10. \<forall>n\<in>set (list_heads a ! i). node_size n = BLOCK_SIZES ! i \<and>
        M (node_start n) = Some (slab_layout i) \<and> L (node_start n) = None)"

definition fsb_inv :: "FixedSizeBlockAllocator \<Rightarrow> live \<Rightarrow> bool" where
  "fsb_inv a L \<longleftrightarrow> fsb_cache_ok a \<and> (\<exists>M. fsb_view a L M)"

abbreviation fsb_lo :: "FixedSizeBlockAllocator \<Rightarrow> usize" where
  "fsb_lo a \<equiv> ll_heap_start (fallback_allocator a)"

abbreviation fsb_hi :: "FixedSizeBlockAllocator \<Rightarrow> usize" where
  "fsb_hi a \<equiv> ll_heap_end (fallback_allocator a)"

lemma fsb_viewD:
  assumes "fsb_view a L M"
  shows "ll_inv (fallback_allocator a) M"
    and "L p = Some l \<Longrightarrow> layout_ok l \<and> M p = Some (backing l)"
    and "i < 10 \<Longrightarrow> n \<in> set (list_heads a ! i) \<Longrightarrow> node_size n = BLOCK_SIZES ! i \<and>
           M (node_start n) = Some (slab_layout i) \<and> L (node_start n) = None"
  using assms by (auto simp: fsb_view_def)

text \<open>Taking a cached block out of its class.\<close>

lemma fsb_view_pop:
  assumes "fsb_cache_ok a" and "fsb_view a L M" and "list_index l = Some i"
    and "list_heads a ! i = n # ns" and "layout_ok l"
  defines "a' \<equiv> a\<lparr>list_heads := (list_heads a)[i := ns]\<rparr>"
  shows "node_start n \<noteq> 0" and "L (node_start n) = None" and "fsb_cache_ok a'"
    and "fsb_view a' (L(node_start n \<mapsto> l)) M"
proof -
  have i: "i < 10" and len: "i < length (list_heads a)" and dist: "distinct (map node_start (concat (list_heads a)))"
    using assms(1,3) by (auto simp: list_index_Some fsb_cache_ok_def)
  note pop = concat_pop [OF len assms(4) dist]
  have n: "M (node_start n) = Some (slab_layout i)" "L (node_start n) = None"
    using fsb_viewD(3) [OF assms(2) i, of n] assms(4) by auto
  show "node_start n \<noteq> 0"
    using ll_invD(2) [OF fsb_viewD(1) [OF assms(2)] n(1)] ll_invD(1) [OF fsb_viewD(1) [OF assms(2)]]
    by (auto simp: ll_wf_def)
  show "L (node_start n) = None" by (rule n(2))
  have "i \<noteq> 0" using assms(1,4) unfolding fsb_cache_ok_def by (metis list.distinct(1))
  then show "fsb_cache_ok a'" using assms(1) pop(1) by (simp add: fsb_cache_ok_def a'_def)
  have "m \<in> set (list_heads a ! j) \<and> node_start m \<noteq> node_start n"
    if "j < 10" "m \<in> set (list_heads a' ! j)" for j m
  proof
    show "m \<in> set (list_heads a ! j)"
      using that(2) assms(4) len by (cases "j = i") (auto simp: a'_def)
    have "j < length (list_heads a')" using that(1) assms(1) by (simp add: a'_def fsb_cache_ok_def)
    then have "m \<in> set (concat (list_heads a'))" using that(2) by (rule in_set_concat_nth)
    then have "node_start m \<in> node_start ` set (concat ((list_heads a)[i := ns]))"
      unfolding a'_def by (intro imageI) simp
    then show "node_start m \<noteq> node_start n" using pop(2) by metis
  qed
  then show "fsb_view a' (L(node_start n \<mapsto> l)) M"
    using assms(2,3,5) n fsb_viewD [OF assms(2)]
    by (auto simp: fsb_view_def backing_def a'_def)
qed

text \<open>Caching a live block in its class.\<close>

lemma fsb_view_push:
  assumes "fsb_cache_ok a" and "fsb_view a L M" and "list_index l = Some i" and "0 < i"
    and "L p = Some l"
  defines "a' \<equiv> a\<lparr>list_heads := (list_heads a)[i :=
      \<lparr>node_start = p, node_size = BLOCK_SIZES ! i\<rparr> # list_heads a ! i]\<rparr>"
  shows "fsb_cache_ok a'" and "fsb_view a' (L(p := None)) M"
proof -
  have i: "i < 10" and len: "i < length (list_heads a)" "length (list_heads a) = 10"
    and dist: "distinct (map node_start (concat (list_heads a)))"
    using assms(1,3) by (auto simp: list_index_Some fsb_cache_ok_def)
  have "p \<notin> node_start ` set (concat (list_heads a))"
  proof
    assume "p \<in> node_start ` set (concat (list_heads a))"
    then obtain n where n: "n \<in> set (concat (list_heads a))" "p = node_start n" by blast
    then obtain j where "j < 10" "n \<in> set (list_heads a ! j)"
      using in_concat_nthD [OF n(1)] len(2) by auto
    with n(2) show False using fsb_viewD(3) [OF assms(2)] assms(5) by force
  qed
  then show "fsb_cache_ok a'"
    using assms(1,4) concat_push [OF len(1) dist, of "\<lparr>node_start = p, node_size = BLOCK_SIZES ! i\<rparr>"]
    by (simp add: fsb_cache_ok_def a'_def)
  have "M p = Some (slab_layout i)"
    using fsb_viewD(2) [OF assms(2,5)] assms(3) by (simp add: backing_def)
  then show "fsb_view a' (L(p := None)) M"
    using assms(2) fsb_viewD [OF assms(2)] len
    by (auto simp: fsb_view_def a'_def nth_list_update)
qed

lemma fsb_alloc_total:
  assumes "fsb_inv a L" and "layout_ok l"
  obtains
    (null) "fsb_alloc a l = Inr (a, 0)"
  | (fresh) a' p where "fsb_alloc a l = Inr (a', p)" and "p \<noteq> 0" and "L p = None"
      and "fsb_inv a' (L(p \<mapsto> l))" and "fsb_lo a' = fsb_lo a" and "fsb_hi a' = fsb_hi a"
proof -
  obtain M where c: "fsb_cache_ok a" and v: "fsb_view a L M" using assms(1) by (auto simp: fsb_inv_def)
  let ?f = "fallback_allocator a"
  note f_inv = fsb_viewD(1) [OF v]
  have fallback: thesis if run: "fsb_alloc a l = fallback_alloc a (backing l)"
  proof (rule ll_alloc_cases [OF ll_invD(1) [OF f_inv] backing_facts(1) [OF assms(2)]])
    assume "ll_alloc ?f (backing l) = Inr (?f, 0)"
    then show thesis using run by (intro null) (simp add: fallback_alloc_def)
  next
    fix p ns
    assume al: "ll_alloc ?f (backing l) = Inr (?f\<lparr>ll_head := ns\<rparr>, p)" and "ll_heap_start ?f \<le> p"
    then have p0: "p \<noteq> 0" using ll_invD(1) [OF f_inv] by (auto simp: ll_wf_def)
    have M: "M p = None" "ll_inv (?f\<lparr>ll_head := ns\<rparr>) (M(p \<mapsto> backing l))"
      using ll_inv_alloc [OF f_inv backing_facts(1) [OF assms(2)] al p0] by auto
    have Lp: "L p = None" using fsb_viewD(2) [OF v, of p] M(1) by (cases "L p") auto
    have nc: "node_start n \<noteq> p" if "i < 10" "n \<in> set (list_heads a ! i)" for i n
      using fsb_viewD(3) [OF v that] M(1) by auto
    have "fsb_view (a\<lparr>fallback_allocator := ?f\<lparr>ll_head := ns\<rparr>\<rparr>) (L(p \<mapsto> l)) (M(p \<mapsto> backing l))"
      using M(2) assms(2) fsb_viewD(2,3) [OF v] nc by (auto simp: fsb_view_def)
    then show thesis
      using run al p0 Lp c by (intro fresh [of "a\<lparr>fallback_allocator := ?f\<lparr>ll_head := ns\<rparr>\<rparr>" p])
        (auto simp: fallback_alloc_def fsb_inv_def fsb_cache_ok_def)
  qed
  show thesis
  proof (cases "list_index l")
    case None
    then show thesis by (intro fallback) (simp add: fsb_alloc_def backing_def)
  next
    case (Some i)
    then have i: "i < 10" "i < length (list_heads a)"
      using c by (auto simp: list_index_Some fsb_cache_ok_def)
    show thesis
    proof (cases "list_heads a ! i")
      case Nil
      then show thesis using Some i slab_layout_ok(1) [OF i(1)]
        by (intro fallback) (simp add: fsb_alloc_def backing_def)
    next
      case (Cons n ns)
      then show thesis using Some i fsb_view_pop [OF c v Some Cons assms(2)]
        by (intro fresh [of "a\<lparr>list_heads := (list_heads a)[i := ns]\<rparr>" "node_start n"])
          (auto simp: fsb_alloc_def fsb_inv_def)
    qed
  qed
qed

lemma fsb_dealloc_live:
  assumes "fsb_inv a L" and "L p = Some l"
  shows "\<exists>a'. fsb_dealloc a p l = Inr a' \<and> fsb_inv a' (L(p := None)) \<and>
              fsb_lo a' = fsb_lo a \<and> fsb_hi a' = fsb_hi a"
proof -
  obtain M where c: "fsb_cache_ok a" and v: "fsb_view a L M" using assms(1) by (auto simp: fsb_inv_def)
  let ?f = "fallback_allocator a"
  note f_inv = fsb_viewD(1) [OF v]
  have l: "layout_ok l" and Mp: "M p = Some (backing l)" using fsb_viewD(2) [OF v assms(2)] by auto
  have fallback: ?thesis if run: "fsb_dealloc a p l = fallback_dealloc a p (backing l)"
  proof -
    obtain ns where ns: "ll_dealloc ?f p (backing l) = Inr (?f\<lparr>ll_head := ns\<rparr>)"
        "ll_inv (?f\<lparr>ll_head := ns\<rparr>) (M(p := None))"
      using ll_inv_dealloc [OF f_inv Mp] by blast
    have nc: "node_start n \<noteq> p" if "i < 10" "n \<in> set (list_heads a ! i)" for i n
      using fsb_viewD(3) [OF v that] assms(2) by auto
    have "fsb_view (a\<lparr>fallback_allocator := ?f\<lparr>ll_head := ns\<rparr>\<rparr>) (L(p := None)) (M(p := None))"
      using ns(2) fsb_viewD(2,3) [OF v] nc by (auto simp: fsb_view_def)
    then show ?thesis using run ns(1) c
      by (intro exI [of _ "a\<lparr>fallback_allocator := ?f\<lparr>ll_head := ns\<rparr>\<rparr>"])
        (auto simp: fallback_dealloc_def fsb_inv_def fsb_cache_ok_def)
  qed
  show ?thesis
  proof (cases "list_index l")
    case None
    then show ?thesis by (intro fallback) (simp add: fsb_dealloc_def backing_def)
  next
    case (Some i)
    then have i: "i < 10" "i < length (list_heads a)"
      using c by (auto simp: list_index_Some fsb_cache_ok_def)
    show ?thesis
    proof (cases "i = 0")
      case True
      then have "ll_dealloc ?f p l = ll_dealloc ?f p (backing l)"
        using Some class_0_same_size by (simp add: ll_dealloc_def backing_def)
      with True Some show ?thesis
        by (intro fallback) (simp add: fsb_dealloc_def fallback_dealloc_def MIN_BLOCK_def)
    next
      case False
      then have "16 \<le> BLOCK_SIZES ! i" using BLOCK_SIZES_nth(4) [OF i(1)] by simp
      then show ?thesis
        using Some i False fsb_view_push [OF c v Some _ assms(2)]
        by (auto simp: fsb_dealloc_def fsb_inv_def MIN_BLOCK_def NODE_ALIGN_def)
    qed
  qed
qed

interpretation fsb: global_alloc fsb_alloc fsb_dealloc fsb_inv fsb_lo fsb_hi
proof
  fix a L l
  assume "fsb_inv a L" and "layout_ok l"
  then show "\<exists>a' p. fsb_alloc a l = Inr (a', p)" by (meson fsb_alloc_total)
next
  fix a L l a'
  assume inv: "fsb_inv a L" and l: "layout_ok l" and eq: "fsb_alloc a l = Inr (a', 0)"
  show "fsb_inv a' L" by (rule fsb_alloc_total [OF inv l]) (use inv eq in auto)
next
  fix a L l a' p
  assume inv: "fsb_inv a L" and l: "layout_ok l" and eq: "fsb_alloc a l = Inr (a', p)"
  show "fsb_lo a' = fsb_lo a \<and> fsb_hi a' = fsb_hi a"
    by (rule fsb_alloc_total [OF inv l]) (use eq in auto)
next
  fix a L l a' p
  assume inv: "fsb_inv a L" and l: "layout_ok l" and eq: "fsb_alloc a l = Inr (a', p)" and p: "p \<noteq> 0"
  show "L p = None \<and> fsb_inv a' (L(p \<mapsto> l))"
    by (rule fsb_alloc_total [OF inv l]) (use eq p in auto)
next
  fix a L p l
  assume inv: "fsb_inv a L" and "L p = Some l"
  then obtain M where M: "ll_inv (fallback_allocator a) M" "layout_ok l" "M p = Some (backing l)"
    by (auto simp: fsb_inv_def fsb_view_def)
  from ll.live_ok [OF M(1,3)] backing_facts [OF M(2)] M(2)
  show "layout_ok l \<and> layout_align l dvd p \<and> fsb_lo a \<le> p \<and> p + layout_size l \<le> fsb_hi a"
    by (auto intro: dvd_trans)
next
  fix a L p l q m
  assume inv: "fsb_inv a L" and "L p = Some l" and "L q = Some m" and "p \<noteq> q"
  then obtain M where M: "ll_inv (fallback_allocator a) M" "layout_ok l" "M p = Some (backing l)"
      "layout_ok m" "M q = Some (backing m)" by (fastforce simp: fsb_inv_def fsb_view_def)
  from ll.live_disjoint [OF M(1,3,5) \<open>p \<noteq> q\<close>]
  show "block p (layout_size l) \<inter> block q (layout_size m) = {}"
    using block_mono [OF backing_facts(2) [OF M(2)], of p] block_mono [OF backing_facts(2) [OF M(4)], of q]
    by blast
qed (rule fsb_dealloc_live)

section \<open>Accounting\<close>

definition cached_bytes :: "FixedSizeBlockAllocator \<Rightarrow> usize set" where
  "cached_bytes a = free_set (concat (list_heads a))"

lemma cached_in_class_eq:
  assumes "i < 10" and "\<forall>n\<in>set ns. node_size n = BLOCK_SIZES ! i"
    and "b + sum_list (map node_size ns) \<le> USIZE_MAX"
  shows "cached_in_class i b ns = Inr (b + sum_list (map node_size ns))"
  using assms by (induction ns arbitrary: b) (auto simp: add.assoc)

lemma cached_from_eq:
  assumes "i + length heads \<le> 10"
    and "\<forall>k<length heads. \<forall>n\<in>set (heads ! k). node_size n = BLOCK_SIZES ! (i + k)"
    and "b + sum_list (map node_size (concat heads)) \<le> USIZE_MAX"
  shows "cached_from i b heads = Inr (b + sum_list (map node_size (concat heads)))"
  using assms
proof (induction heads arbitrary: i b)
  case (Cons h hs)
  have "\<forall>n\<in>set h. node_size n = BLOCK_SIZES ! i" using Cons.prems(2) by fastforce
  then have "cached_in_class i b h = Inr (b + sum_list (map node_size h))"
    using Cons.prems(1,3) by (intro cached_in_class_eq) auto
  moreover have "\<forall>k<length hs. \<forall>n\<in>set (hs ! k). node_size n = BLOCK_SIZES ! (Suc i + k)"
    using Cons.prems(2) by fastforce
  ultimately show ?case using Cons.IH [of "Suc i"] Cons.prems(1,3) by (simp add: add.assoc)
qed simp

lemma card_free_set_disjoint:
  assumes "distinct (map node_start ns)"
    and "\<And>m n. m \<in> set ns \<Longrightarrow> n \<in> set ns \<Longrightarrow> node_start m \<noteq> node_start n \<Longrightarrow>
           node_bytes m \<inter> node_bytes n = {}"
  shows "card (free_set ns) = sum_list (map node_size ns)"
  using assms
proof (induction ns)
  case (Cons k ns)
  have "node_bytes k \<inter> node_bytes n = {}" if "n \<in> set ns" for n
    using Cons.prems that by (metis distinct.simps(2) imageI list.map(2) list.set_map
        list.set_intros)
  then have "node_bytes k \<inter> free_set ns = {}" by (auto simp: free_set_def)
  moreover have "card (free_set ns) = sum_list (map node_size ns)"
    using Cons.prems by (intro Cons.IH) auto
  ultimately show ?case by (simp add: card_Un_disjoint finite_free_set node_bytes_def)
qed simp

text \<open>
  The bytes that the statistics count, those of the fallback's list and those cached in
  the classes, lie in the heap, are counted once and belong to no live block.
\<close>

lemma cached_node_facts:
  assumes "fsb_cache_ok a" and "fsb_view a L M" and "n \<in> set (concat (list_heads a))"
  obtains i where "i < 10" and "n \<in> set (list_heads a ! i)" and "node_size n = BLOCK_SIZES ! i"
    and "M (node_start n) = Some (slab_layout i)" and "L (node_start n) = None"
    and "node_bytes n \<subseteq> block (node_start n) (asize (slab_layout i))"
proof -
  obtain i where i: "i < 10" "n \<in> set (list_heads a ! i)"
    using in_concat_nthD [OF assms(3)] assms(1) by (auto simp: fsb_cache_ok_def)
  note f = fsb_viewD(3) [OF assms(2) i]
  have "node_size n \<le> asize (slab_layout i)"
    using f asize_facts(3) [of "slab_layout i"] by (simp add: slab_layout_def)
  then have "node_bytes n \<subseteq> block (node_start n) (asize (slab_layout i))"
    unfolding node_bytes_def by (rule block_mono)
  with i f that show thesis by blast
qed

lemma cached_bytes_facts:
  assumes c: "fsb_cache_ok a" and v: "fsb_view a L M"
  shows "cached_bytes a \<inter> ll_free (fallback_allocator a) = {}"
    and "cached_bytes a \<subseteq> {fsb_lo a..<fsb_hi a}"
    and "L p = Some l \<Longrightarrow> cached_bytes a \<inter> block p (layout_size l) = {}"
    and "card (cached_bytes a) = sum_list (map node_size (concat (list_heads a)))"
proof -
  note inv = fsb_viewD(1) [OF v]
  have node: "node_bytes n \<inter> ll_free (fallback_allocator a) = {} \<and>
      node_bytes n \<subseteq> {fsb_lo a..<fsb_hi a}" if n: "n \<in> set (concat (list_heads a))" for n
  proof (rule cached_node_facts [OF c v n])
    fix i
    assume "M (node_start n) = Some (slab_layout i)"
      and sub: "node_bytes n \<subseteq> block (node_start n) (asize (slab_layout i))"
    from ll_invD(2) [OF inv this(1)] sub show ?thesis by (force simp: block_def)
  qed
  then show "cached_bytes a \<inter> ll_free (fallback_allocator a) = {}"
    and "cached_bytes a \<subseteq> {fsb_lo a..<fsb_hi a}"
    unfolding cached_bytes_def free_set_def by blast+
  show "cached_bytes a \<inter> block p (layout_size l) = {}" if L: "L p = Some l"
  proof -
    have Mp: "M p = Some (backing l)" and l: "layout_ok l" using fsb_viewD(2) [OF v L] by auto
    have sub: "block p (layout_size l) \<subseteq> block p (asize (backing l))"
      using backing_facts(2) [OF l] asize_facts(3) [of "backing l"] by (intro block_mono) simp
    have "node_bytes n \<inter> block p (asize (backing l)) = {}"
      if n: "n \<in> set (concat (list_heads a))" for n
    proof (rule cached_node_facts [OF c v n])
      fix i
      assume s: "M (node_start n) = Some (slab_layout i)" "L (node_start n) = None"
        "node_bytes n \<subseteq> block (node_start n) (asize (slab_layout i))"
      have "node_start n \<noteq> p" using s(2) L by auto
      from ll_invD(3) [OF inv s(1) Mp this] s(3) show ?thesis by blast
    qed
    with sub show ?thesis unfolding cached_bytes_def free_set_def by blast
  qed
  show "card (cached_bytes a) = sum_list (map node_size (concat (list_heads a)))"
    unfolding cached_bytes_def
  proof (rule card_free_set_disjoint)
    show "distinct (map node_start (concat (list_heads a)))" using c by (simp add: fsb_cache_ok_def)
    fix m n
    assume m: "m \<in> set (concat (list_heads a))" and n: "n \<in> set (concat (list_heads a))"
      and ne: "node_start m \<noteq> node_start n"
    obtain i where i: "M (node_start m) = Some (slab_layout i)"
        "node_bytes m \<subseteq> block (node_start m) (asize (slab_layout i))"
      by (rule cached_node_facts [OF c v m])
    obtain j where j: "M (node_start n) = Some (slab_layout j)"
        "node_bytes n \<subseteq> block (node_start n) (asize (slab_layout j))"
      by (rule cached_node_facts [OF c v n])
    from ll_invD(3) [OF inv i(1) j(1) ne] i(2) j(2) show "node_bytes m \<inter> node_bytes n = {}" by blast
  qed
qed

lemma fsb_stats_eq:
  assumes "fsb_inv a L"
  shows "fsb_stats a = Inr \<lparr>heap_size = fsb_hi a - fsb_lo a,
      free_bytes = card (ll_free (fallback_allocator a) \<union> cached_bytes a)\<rparr>"
    and "ll_free (fallback_allocator a) \<union> cached_bytes a \<subseteq> {fsb_lo a..<fsb_hi a}"
    and "L p = Some l \<Longrightarrow> (ll_free (fallback_allocator a) \<union> cached_bytes a) \<inter> block p (layout_size l) = {}"
proof -
  obtain M where c: "fsb_cache_ok a" and v: "fsb_view a L M"
    using assms by (auto simp: fsb_inv_def)
  let ?F = "ll_free (fallback_allocator a)" and ?C = "cached_bytes a"
  note inv = fsb_viewD(1) [OF v] and cf = cached_bytes_facts [OF c v]
  have wf: "ll_wf (fallback_allocator a)" by (rule ll_invD(1) [OF inv])
  show sub: "?F \<union> ?C \<subseteq> {fsb_lo a..<fsb_hi a}"
    using cf(2) wf free_set_bounds by (fastforce simp: ll_wf_def)
  have card: "card (?F \<union> ?C) = card ?F + card ?C"
    using cf(1) by (intro card_Un_disjoint) (auto simp: cached_bytes_def finite_free_set)
  have "card (?F \<union> ?C) \<le> fsb_hi a" using card_mono [OF _ sub] by simp
  then have total: "card ?F + card ?C \<le> USIZE_MAX"
    using wf card by (simp add: ll_wf_def USIZE_MAX_def)
  have "cached_from 0 0 (list_heads a) = Inr (0 + sum_list (map node_size (concat (list_heads a))))"
    using c total cf(4) fsb_viewD(3) [OF v]
    by (intro cached_from_eq) (auto simp: fsb_cache_ok_def)
  then show "fsb_stats a = Inr \<lparr>heap_size = fsb_hi a - fsb_lo a, free_bytes = card (?F \<union> ?C)\<rparr>"
    using total card cf(4) ll_free_bytes_card(1) [OF wf]
    by (simp add: fsb_stats_def ll_heap_size_def)
  show "(?F \<union> ?C) \<inter> block p (layout_size l) = {}" if L: "L p = Some l"
  proof -
    have "M p = Some (backing l)" and l: "layout_ok l" using fsb_viewD(2) [OF v L] by auto
    with ll_invD(2) [OF inv] have "block p (asize (backing l)) \<inter> ?F = {}" by blast
    moreover have "block p (layout_size l) \<subseteq> block p (asize (backing l))"
      using backing_facts(2) [OF l] asize_facts(3) [of "backing l"] by (intro block_mono) simp
    ultimately show ?thesis using cf(3) [OF L] by blast
  qed
qed

section \<open>Properties\<close>

lemma fsb_inv_init:
  assumes "0 < start" and "start + sz < 2 ^ 63"
  shows "\<exists>a. fsb_init fsb_empty start sz = Inr a \<and> fsb_inv a Map.empty \<and>
             fsb_lo a = start \<and> fsb_hi a = start + sz"
proof -
  obtain f where f: "ll_init ll_empty start sz = Inr f" "ll_inv f Map.empty"
      "ll_heap_start f = start" "ll_heap_end f = start + sz"
    using ll_inv_init [OF assms] by blast
  have "fsb_view (fsb_empty\<lparr>fallback_allocator := f\<rparr>) Map.empty Map.empty"
    using f(2) by (simp add: fsb_view_def fsb_empty_def)
  then have "fsb_inv (fsb_empty\<lparr>fallback_allocator := f\<rparr>) Map.empty"
    by (auto simp: fsb_inv_def fsb_cache_ok_def fsb_empty_def)
  then show ?thesis using f by (auto simp: fsb_init_def fsb_empty_def)
qed

lemmas fsb_eval = fsb_init_def fsb_empty_def fsb_alloc_def fsb_dealloc_def fallback_alloc_def
  fallback_dealloc_def list_index_def BLOCK_SIZES_def from_size_align_def index_res_def expect_def
  fsb_stats_def ll_heap_size_def

text \<open>
  C2: The kernel's global allocator is safe for every client: on a heap initialised over
  any region below the upper half of the address space, every sequence of allocations and
  deallocations runs without a panic, and every live block is aligned to its layout, lies
  inside the heap and is disjoint from every other live block, through cached and fallback
  blocks alike.
\<close>

theorem fsb_client_safe:
  assumes "0 < start" and "start + sz < 2 ^ 63"
  shows "\<exists>a0 a L. fsb_init fsb_empty start sz = Inr a0 \<and>
    serve_all fsb_alloc fsb_dealloc (a0, Map.empty) rs = Inr (a, L) \<and> live_safe start (start + sz) L"
  using fsb_inv_init [OF assms] fsb.client_safe by metis

theorem fsb_client_safe_witness:
  "\<exists>a0 a L. fsb_init fsb_empty HEAP_START HEAP_SIZE = Inr a0 \<and>
    serve_all fsb_alloc fsb_dealloc (a0, Map.empty)
      [Alloc \<lparr>layout_size = 16384, layout_align = 1\<rparr>, Alloc \<lparr>layout_size = 24, layout_align = 8\<rparr>,
       Dealloc HEAP_START] = Inr (a, L) \<and>
    live_safe HEAP_START (HEAP_START + HEAP_SIZE) L"
  by (rule fsb_client_safe) (simp_all add: HEAP_START_def HEAP_SIZE_def)

text \<open>
  C26: The heap statistics are exact: the free bytes reported are the bytes that are on the
  fallback's list or cached in a size class, each counted once, none of them inside a live
  block and all of them inside the heap; so the figure never exceeds the heap's size and
  its computation never overflows.
\<close>

theorem fsb_stats_exact:
  assumes "fsb_inv a L"
  shows "\<exists>F st. fsb_stats a = Inr st \<and> heap_size st = fsb_hi a - fsb_lo a \<and> free_bytes st = card F \<and>
      F = ll_free (fallback_allocator a) \<union> cached_bytes a \<and> F \<subseteq> {fsb_lo a..<fsb_hi a} \<and>
      free_bytes st \<le> heap_size st \<and>
      (\<forall>p l. L p = Some l \<longrightarrow> F \<inter> block p (layout_size l) = {})"
  using fsb_stats_eq [OF assms] card_mono [OF _ fsb_stats_eq(2) [OF assms]] by simp

theorem fsb_stats_exact_witness:
  "\<exists>F st. fsb_stats \<lparr>list_heads = replicate 10 [], fallback_allocator = \<lparr>ll_head = [],
        ll_heap_start = 0x1000, ll_heap_end = 0x1020\<rparr>\<rparr> = Inr st \<and> free_bytes st = card F \<and>
      F \<inter> block 0x1000 32 = {}"
proof -
  let ?a = "\<lparr>list_heads = replicate 10 [], fallback_allocator = \<lparr>ll_head = [],
        ll_heap_start = 0x1000, ll_heap_end = 0x1020\<rparr>\<rparr>"
    and ?l = "\<lparr>layout_size = 32, layout_align = 32\<rparr>"
  have l: "layout_ok ?l" by (rule layout_okI) simp_all
  moreover have "backing ?l = ?l"
    by (simp add: backing_def list_index_def BLOCK_SIZES_def slab_layout_def)
  moreover have "ll_inv (fallback_allocator ?a) [0x1000 \<mapsto> ?l]"
    using l by (simp add: ll_inv_def ll_wf_def allocation_align_def NODE_ALIGN_def asize_def)
  ultimately have "fsb_view ?a [0x1000 \<mapsto> ?l] [0x1000 \<mapsto> ?l]" by (simp add: fsb_view_def)
  then have "fsb_inv ?a [0x1000 \<mapsto> ?l]"
    by (auto simp: fsb_inv_def fsb_cache_ok_def)
  then obtain F st where "fsb_stats ?a = Inr st" "free_bytes st = card F"
      "\<forall>p l. [0x1000 \<mapsto> ?l] p = Some l \<longrightarrow> F \<inter> block p (layout_size l) = {}"
    using fsb_stats_exact by blast
  then show ?thesis by (metis fun_upd_same Layout.select_convs(1))
qed

text \<open>
  C27: Cached blocks are reused last-in first-out and exactly: freeing a block of a class
  that caches and then allocating any layout of the same class returns that block and
  restores the allocator's state.
\<close>

theorem fsb_cache_roundtrip:
  assumes "length (list_heads a) = 10" and "list_index l = Some i" and "list_index l' = Some i"
    and "8 < max (layout_size l) (layout_align l)"
  shows "\<exists>a'. fsb_dealloc a p l = Inr a' \<and> fsb_alloc a' l' = Inr (a, p)"
proof -
  have i: "i < 10" "i \<noteq> 0" using assms(2,4) by (auto simp: list_index_Some intro: gr0I)
  then have "16 \<le> BLOCK_SIZES ! i" using BLOCK_SIZES_nth(4) by simp
  then show ?thesis using assms i
    by (simp add: fsb_dealloc_def fsb_alloc_def MIN_BLOCK_def NODE_ALIGN_def)
qed

theorem fsb_cache_roundtrip_witness:
  "\<exists>a'. fsb_dealloc fsb_empty 0x2000 \<lparr>layout_size = 24, layout_align = 8\<rparr> = Inr a' \<and>
        fsb_alloc a' \<lparr>layout_size = 32, layout_align = 1\<rparr> = Inr (fsb_empty, 0x2000)"
  by (rule fsb_cache_roundtrip [where i = 2])
    (simp_all add: fsb_empty_def list_index_def BLOCK_SIZES_def)

text \<open>
  \<open>list_index\<close> picks the smallest class that holds both the size and the alignment, and
  no class exactly when one of them exceeds the largest block, 4096 bytes.
\<close>

theorem list_index_smallest_class:
  "(case list_index l of
      Some i \<Rightarrow> i < length BLOCK_SIZES \<and>
        BLOCK_SIZES ! i = Min {s \<in> set BLOCK_SIZES. layout_size l \<le> s \<and> layout_align l \<le> s}
    | None \<Rightarrow> 4096 < max (layout_size l) (layout_align l))"
proof (cases "list_index l")
  case None
  then have "\<forall>s\<in>set BLOCK_SIZES. \<not> max (layout_size l) (layout_align l) \<le> s"
    by (simp add: list_index_def position_None)
  then have "\<not> max (layout_size l) (layout_align l) \<le> 4096" by (simp add: BLOCK_SIZES_def)
  with None show ?thesis by (simp only: option.case not_le)
next
  case (Some i)
  let ?S = "{s \<in> set BLOCK_SIZES. layout_size l \<le> s \<and> layout_align l \<le> s}"
  have i: "i < 10" "max (layout_size l) (layout_align l) \<le> BLOCK_SIZES ! i"
    "\<forall>j<i. BLOCK_SIZES ! j < max (layout_size l) (layout_align l)"
    using Some by (auto simp: list_index_Some)
  have sorted: "sorted BLOCK_SIZES" by (simp add: BLOCK_SIZES_def)
  have "BLOCK_SIZES ! i \<le> s" if "s \<in> ?S" for s
  proof -
    have "s \<in> set BLOCK_SIZES" using that by blast
    then obtain j where j: "j < length BLOCK_SIZES" "s = BLOCK_SIZES ! j"
      by (metis in_set_conv_nth)
    have "max (layout_size l) (layout_align l) \<le> BLOCK_SIZES ! j" using that j(2) by simp
    then have "i \<le> j" using i(3) by (meson leI not_less)
    then show ?thesis using sorted_nth_mono [OF sorted _ j(1)] j(2) by simp
  qed
  moreover have "BLOCK_SIZES ! i \<in> ?S" using i(1,2) by simp
  ultimately have "Min ?S = BLOCK_SIZES ! i" by (intro Min_eqI) simp_all
  with Some i(1) show ?thesis by (simp only: option.case BLOCK_SIZES_length simp_thms)
qed

text \<open>
  Blocks once carved for a size class stay in it: on a fresh 64-byte heap, allocating
  two 32-byte blocks and freeing them leaves all 64 bytes reported as free, and yet a
  64-byte allocation fails, because the cached neighbours are never merged.
\<close>

theorem fsb_cached_blocks_do_not_coalesce:
  "bind_res (fsb_init fsb_empty 0x1000 64) (\<lambda>a0.
   bind_res (serve_all fsb_alloc fsb_dealloc (a0, Map.empty)
     [Alloc \<lparr>layout_size = 32, layout_align = 32\<rparr>, Alloc \<lparr>layout_size = 32, layout_align = 32\<rparr>,
      Dealloc 0x1000, Dealloc 0x1020]) (\<lambda>(a, L).
   bind_res (fsb_stats a) (\<lambda>st.
   bind_res (fsb_alloc a \<lparr>layout_size = 64, layout_align = 64\<rparr>) (\<lambda>(a', p).
   Inr (L = Map.empty, heap_size st, free_bytes st, p))))) = Inr (True, 64, 64, 0)"
proof -
  let ?l = "\<lparr>layout_size = 32, layout_align = 32\<rparr>"
    and ?a = "\<lambda>slabs free. \<lparr>list_heads = [[], [], slabs, [], [], [], [], [], [], []],
      fallback_allocator = \<lparr>ll_head = free, ll_heap_start = 0x1000, ll_heap_end = 0x1040\<rparr>\<rparr>"
    and ?n = "\<lambda>p s. \<lparr>node_start = p, node_size = s\<rparr>"
  have l: "layout_ok ?l" by (rule layout_okI) simp_all
  have steps: "fsb_init fsb_empty 0x1000 64 = Inr (?a [] [?n 0x1000 64])"
    "fsb_alloc (?a [] [?n 0x1000 64]) ?l = Inr (?a [] [?n 0x1020 32], 0x1000)"
    "fsb_alloc (?a [] [?n 0x1020 32]) ?l = Inr (?a [] [], 0x1020)"
    "fsb_dealloc (?a [] []) 0x1000 ?l = Inr (?a [?n 0x1000 32] [])"
    "fsb_dealloc (?a [?n 0x1000 32] []) 0x1020 ?l = Inr (?a [?n 0x1020 32, ?n 0x1000 32] [])"
    "fsb_stats (?a [?n 0x1020 32, ?n 0x1000 32] []) = Inr \<lparr>heap_size = 64, free_bytes = 64\<rparr>"
    "fsb_alloc (?a [?n 0x1020 32, ?n 0x1000 32] []) \<lparr>layout_size = 64, layout_align = 64\<rparr> =
      Inr (?a [?n 0x1020 32, ?n 0x1000 32] [], 0)"
    by (simp_all add: fsb_eval ll_eval)
  show ?thesis by (simp add: steps l)
qed

end
