(* ===== verification/Machine.thy ===== *)
theory Machine
  imports Apogee_Prelude
begin

text \<open>
  The part of the x86-64 machine that the kernel's hand-written assembly uses: a byte
  memory, the sixteen general-purpose registers, the instruction pointer, the flags and the
  two segment selectors that an interrupt frame carries, and the instructions \<open>push\<close>,
  \<open>pop\<close>, \<open>mov\<close>, \<open>ret\<close> and \<open>iretq\<close>. Memory accesses are little-endian and addresses wrap
  around at 64 bits. The lemmas describe a block of pushes and a block of pops once and
  for all, so that the assembly routines are verified from them.
\<close>

section \<open>Memory\<close>

type_synonym memory = "u64 \<Rightarrow> u8"

definition read_bytes :: "memory \<Rightarrow> u64 \<Rightarrow> nat \<Rightarrow> u8 list" where
  "read_bytes m a n = map (\<lambda>i. m (a + of_nat i)) [0..<n]"

definition write_bytes :: "memory \<Rightarrow> u64 \<Rightarrow> u8 list \<Rightarrow> memory" where
  "write_bytes m a bs = (\<lambda>x. if unat (x - a) < length bs then bs ! unat (x - a) else m x)"

definition bytes_of :: "u64 \<Rightarrow> u8 list" where
  "bytes_of v = map (\<lambda>i. ucast (drop_bit (8 * i) v)) [0..<8]"

definition of_bytes :: "u8 list \<Rightarrow> u64" where
  "of_bytes bs = foldr (\<lambda>b w. ucast b OR push_bit 8 w) bs 0"

definition read64 :: "memory \<Rightarrow> u64 \<Rightarrow> u64" where
  "read64 m a = of_bytes (read_bytes m a 8)"

definition write64 :: "memory \<Rightarrow> u64 \<Rightarrow> u64 \<Rightarrow> memory" where
  "write64 m a v = write_bytes m a (bytes_of v)"

lemma length_read_bytes [simp]: "length (read_bytes m a n) = n"
  by (simp add: read_bytes_def)

lemma length_bytes_of [simp]: "length (bytes_of v) = 8"
  by (simp add: bytes_of_def)

lemma read_bytes_nth [simp]: "i < n \<Longrightarrow> read_bytes m a n ! i = m (a + of_nat i)"
  by (simp add: read_bytes_def)

lemma read_write_bytes_same:
  assumes "length bs \<le> 2 ^ 64"
  shows "read_bytes (write_bytes m a bs) a (length bs) = bs"
proof (rule nth_equalityI)
  fix i assume "i < length (read_bytes (write_bytes m a bs) a (length bs))"
  then have i: "i < length bs" by simp
  then have "unat (of_nat i :: u64) = i" using assms by (simp add: unat_of_nat take_bit_nat_eq_self)
  then show "read_bytes (write_bytes m a bs) a (length bs) ! i = bs ! i"
    using i by (simp add: write_bytes_def)
qed simp

lemma read_write_bytes_disjoint:
  assumes "\<And>i. i < n \<Longrightarrow> length bs \<le> unat (b + of_nat i - a)"
  shows "read_bytes (write_bytes m a bs) b n = read_bytes m b n"
  using assms by (intro nth_equalityI) (auto simp: write_bytes_def leD)

lemma of_bytes_Cons: "of_bytes (b # bs) = ucast b OR push_bit 8 (of_bytes bs)"
  by (simp add: of_bytes_def)

lemma bit_of_bytes:
  "bit (of_bytes bs) i \<longleftrightarrow> i < 64 \<and> i div 8 < length bs \<and> bit (bs ! (i div 8)) (i mod 8)"
proof (induction bs arbitrary: i)
  case Nil
  then show ?case by (simp add: of_bytes_def)
next
  case (Cons b bs)
  show ?case
  proof (cases "i < 8")
    case True
    then show ?thesis by (auto simp: of_bytes_Cons bit_simps)
  next
    case False
    then have "i div 8 = Suc ((i - 8) div 8)" "i mod 8 = (i - 8) mod 8"
      by (simp_all add: div_if mod_if)
    with False show ?thesis
      by (auto simp: of_bytes_Cons bit_simps Cons.IH dest: bit_imp_le_length)
  qed
qed

lemma of_bytes_of [simp]: "of_bytes (bytes_of v) = v"
proof (rule bit_word_eqI)
  fix i assume "i < LENGTH(64)"
  then have i: "i < 64" and "i div 8 < 8" "8 * (i div 8) + i mod 8 = i" by simp_all
  then show "bit (of_bytes (bytes_of v)) i = bit v i"
    by (auto simp: bit_of_bytes bytes_of_def bit_simps)
qed

lemma read_write64_same [simp]: "read64 (write64 m a v) a = v"
  using read_write_bytes_same [of "bytes_of v" m a] by (simp add: read64_def write64_def)

text \<open>
  Two byte ranges are separate when neither starts inside the other. Both bounds are read
  off modulo the size of the address space, so the notion needs no condition on wrapping.
\<close>

definition separate :: "u64 \<Rightarrow> nat \<Rightarrow> u64 \<Rightarrow> nat \<Rightarrow> bool" where
  "separate a n b k \<longleftrightarrow> n \<le> unat (b - a) \<and> k \<le> unat (a - b)"

lemma separate_sym: "separate a n b k \<longleftrightarrow> separate b k a n"
  by (auto simp: separate_def)

lemma unat_lt_2p_64: "unat (a :: u64) < 2 ^ 64"
  using unsigned_less [of a] by simp

lemma separate_D:
  assumes "separate a n b k" and "0 < n" and "unat (x - b) < k"
  shows "n \<le> unat (x - a)"
proof -
  have "a \<noteq> b" using assms(1,2) by (auto simp: separate_def)
  then have "unat a \<noteq> unat b" by (simp add: word_unat_eq_iff)
  moreover have "unat a < 2 ^ 64" "unat b < 2 ^ 64" using unat_lt_2p_64 by blast+
  ultimately have sum: "unat (b - a) + unat (a - b) = 2 ^ 64"
    by (simp add: unat_sub_if')
  have "unat (x - a) = (unat (b - a) + unat (x - b)) mod 2 ^ 64"
    using unat_word_ariths(1) [of "b - a" "x - b"] by simp
  also have "\<dots> = unat (b - a) + unat (x - b)"
    using assms sum by (simp add: separate_def)
  finally show ?thesis using assms(1) by (simp add: separate_def)
qed

lemma unat_add_le: "unat (a + b :: u64) \<le> unat a + unat b"
  by (simp add: unat_word_ariths)

text \<open>Subranges: inside a range, and separate from whatever the range is separate from.\<close>

lemma subrange_D:
  assumes "unat (b' - b) + k' \<le> k" and "unat (x - b') < k'"
  shows "unat (x - b :: u64) < k"
  using unat_add_le [of "x - b'" "b' - b"] assms by simp

lemma separate_subrange:
  assumes "separate a n b k" and "0 < n" and "0 < k'" and "unat (b' - b) + k' \<le> k"
  shows "separate a n b' k'"
proof -
  have k: "unat (b' - b) + k' \<le> unat (a - b)" using assms(1,4) by (simp add: separate_def)
  then have "b' - b \<le> a - b" by (simp add: word_le_nat_alt)
  then have "unat ((a - b) - (b' - b)) = unat (a - b) - unat (b' - b)" by (rule unat_sub)
  then have "k' \<le> unat (a - b')" using k by simp
  moreover have "n \<le> unat (b' - a)" using assms by (intro separate_D [of a n b k]) simp_all
  ultimately show ?thesis by (simp add: separate_def)
qed

lemma write64_outside: "8 \<le> unat (x - a) \<Longrightarrow> write64 m a v x = m x"
  by (simp add: write64_def write_bytes_def)

lemma read64_cong:
  assumes "\<And>x. unat (x - a) < 8 \<Longrightarrow> m' x = m x"
  shows "read64 m' a = read64 m a"
proof -
  have "read_bytes m' a 8 = read_bytes m a 8"
    by (intro nth_equalityI) (simp_all add: assms unat_of_nat take_bit_nat_eq_self)
  then show ?thesis by (simp add: read64_def)
qed

lemma read_write64_separate:
  assumes "separate a 8 b 8"
  shows "read64 (write64 m a v) b = read64 m b"
  using separate_D [OF assms] by (intro read64_cong write64_outside) simp

section \<open>Registers and instructions\<close>

datatype reg =
    RAX | RBX | RCX | RDX | RSI | RDI | RBP | RSP
  | R8 | R9 | R10 | R11 | R12 | R13 | R14 | R15

record cpu =
  regs :: "reg \<Rightarrow> u64"
  rip :: u64
  rflags :: u64
  cs :: u64
  ss :: u64
  mem :: memory

datatype instr =
    Push reg
  | Pop reg
  | Mov reg reg         \<comment> \<open>\<open>mov dst, src\<close>\<close>
  | Store reg reg       \<comment> \<open>\<open>mov [dst], src\<close>\<close>
  | Load reg reg        \<comment> \<open>\<open>mov dst, [src]\<close>\<close>
  | Ret
  | Iretq

definition set_reg :: "reg \<Rightarrow> u64 \<Rightarrow> cpu \<Rightarrow> cpu" where
  "set_reg r v c = c\<lparr>regs := (regs c)(r := v)\<rparr>"

fun exec_instr :: "instr \<Rightarrow> cpu \<Rightarrow> cpu" where
  "exec_instr (Push r) c =
     (let sp = regs c RSP - 8 in set_reg RSP sp (c\<lparr>mem := write64 (mem c) sp (regs c r)\<rparr>))"
| "exec_instr (Pop r) c =
     (let sp = regs c RSP in set_reg r (read64 (mem c) sp) (set_reg RSP (sp + 8) c))"
| "exec_instr (Mov d s) c = set_reg d (regs c s) c"
| "exec_instr (Store d s) c = c\<lparr>mem := write64 (mem c) (regs c d) (regs c s)\<rparr>"
| "exec_instr (Load d s) c = set_reg d (read64 (mem c) (regs c s)) c"
| "exec_instr Ret c =
     (let sp = regs c RSP in (set_reg RSP (sp + 8) c)\<lparr>rip := read64 (mem c) sp\<rparr>)"
| "exec_instr Iretq c =
     (let sp = regs c RSP; m = mem c in
      (set_reg RSP (read64 m (sp + 24)) c)
        \<lparr>rip := read64 m sp, cs := read64 m (sp + 8), rflags := read64 m (sp + 16),
         ss := read64 m (sp + 32)\<rparr>)"

definition exec :: "instr list \<Rightarrow> cpu \<Rightarrow> cpu" where
  "exec is c = fold exec_instr is c"

lemma exec_Nil [simp]: "exec [] c = c"
  by (simp add: exec_def)

lemma exec_Cons [simp]: "exec (i # is) c = exec is (exec_instr i c)"
  by (simp add: exec_def)

lemma exec_append: "exec (is @ js) c = exec js (exec is c)"
  by (simp add: exec_def)

lemma set_reg_simps [simp]:
  "regs (set_reg r v c) = (regs c)(r := v)" "rip (set_reg r v c) = rip c"
  "rflags (set_reg r v c) = rflags c" "cs (set_reg r v c) = cs c" "ss (set_reg r v c) = ss c"
  "mem (set_reg r v c) = mem c"
  by (simp_all add: set_reg_def)

section \<open>Frames: consecutive 8-byte slots\<close>

fun frame :: "memory \<Rightarrow> u64 \<Rightarrow> u64 list \<Rightarrow> bool" where
  "frame m sp [] \<longleftrightarrow> True"
| "frame m sp (v # vs) \<longleftrightarrow> read64 m sp = v \<and> frame m (sp + 8) vs"

lemma frame_nth: "frame m sp vs \<longleftrightarrow> (\<forall>i<length vs. read64 m (sp + 8 * of_nat i) = vs ! i)"
proof (induction vs arbitrary: sp)
  case (Cons v vs)
  show ?case
    by (auto simp: Cons.IH less_Suc_eq_0_disj algebra_simps)
qed simp

lemma frame_append:
  "frame m sp (vs @ ws) \<longleftrightarrow> frame m sp vs \<and> frame m (sp + 8 * of_nat (length vs)) ws"
  by (induction vs arbitrary: sp) (simp_all add: algebra_simps)

text \<open>A frame depends on its own bytes only.\<close>

lemma frame_cong:
  assumes "frame m sp vs" and "8 * length vs \<le> 2 ^ 64"
    and "\<And>x. unat (x - sp) < 8 * length vs \<Longrightarrow> m' x = m x"
  shows "frame m' sp vs"
  unfolding frame_nth
proof (intro allI impI)
  fix i assume i: "i < length vs"
  have "m' x = m x" if "unat (x - (sp + 8 * of_nat i)) < 8" for x
  proof (rule assms(3))
    have u: "unat (8 * of_nat i :: u64) = 8 * i"
      using assms(2) i unat_of_nat [where ?'a = 64, of "8 * i"] by (simp add: take_bit_nat_eq_self)
    then have "unat (sp + 8 * of_nat i - sp) + 8 \<le> 8 * length vs" using i by simp
    then show "unat (x - sp) < 8 * length vs" using that by (rule subrange_D)
  qed
  then have "read64 m' (sp + 8 * of_nat i) = read64 m (sp + 8 * of_nat i)" by (rule read64_cong)
  then show "read64 m' (sp + 8 * of_nat i) = vs ! i" using assms(1) i by (simp add: frame_nth)
qed

lemma frame_write64:
  assumes "frame m sp vs" and "separate a 8 sp (8 * length vs)"
  shows "frame (write64 m a v) sp vs"
proof (rule frame_cong [OF assms(1)])
  have "8 * length vs \<le> unat (a - sp)" using assms(2) by (simp add: separate_def)
  then show "8 * length vs \<le> 2 ^ 64" using unat_lt_2p_64 [of "a - sp"] by linarith
  show "write64 m a v x = m x" if "unat (x - sp) < 8 * length vs" for x
    using separate_D [OF assms(2) _ that] by (intro write64_outside) simp
qed

lemma frame_push:
  assumes "frame m sp vs" and "8 * length vs < 2 ^ 64"
  shows "frame (write64 m (sp - 8) v) (sp - 8) (v # vs)"
proof -
  have "8 * length vs \<le> 2 ^ 64 - 8" using assms(2) by simp
  then have "separate (sp - 8) 8 sp (8 * length vs)" by (simp add: separate_def)
  then show ?thesis using assms(1) by (simp add: frame_write64)
qed

section \<open>Blocks of pushes and pops\<close>

fun push_words :: "memory \<Rightarrow> u64 \<Rightarrow> u64 list \<Rightarrow> memory" where
  "push_words m sp [] = m"
| "push_words m sp (v # vs) = push_words (write64 m (sp - 8) v) (sp - 8) vs"

lemma frame_push_words:
  assumes "frame m sp ws" and "8 * (length vs + length ws) \<le> 2 ^ 64"
  shows "frame (push_words m sp vs) (sp - 8 * of_nat (length vs)) (rev vs @ ws)"
  using assms
proof (induction vs arbitrary: m sp ws)
  case (Cons v vs)
  have "frame (write64 m (sp - 8) v) (sp - 8) (v # ws)" using Cons.prems by (intro frame_push) simp_all
  from Cons.IH [OF this] Cons.prems(2) show ?case by (simp add: algebra_simps)
qed simp

lemma push_words_outside:
  assumes "8 * length vs \<le> unat (x - (sp - 8 * of_nat (length vs)))" and "8 * length vs < 2 ^ 64"
  shows "push_words m sp vs x = m x"
  using assms
proof (induction vs arbitrary: m sp)
  case (Cons v vs)
  let ?n = "length vs"
  define d where "d = x - (sp - 8 * of_nat (length (v # vs)))"
  have d: "8 * ?n + 8 \<le> unat d" using Cons.prems(1) by (simp add: d_def)
  have u: "unat (8 * of_nat ?n :: u64) = 8 * ?n"
    using Cons.prems(2) unat_of_nat [where ?'a = 64, of "8 * ?n"]
    by (simp add: take_bit_nat_eq_self)
  have "x - (sp - 8) = d - 8 * of_nat ?n" by (simp add: d_def algebra_simps)
  moreover have "unat (d - 8 * of_nat ?n) = unat d - 8 * ?n"
    using d u by (simp add: unat_sub word_le_nat_alt)
  ultimately have "write64 m (sp - 8) v x = m x" using d by (intro write64_outside) simp
  moreover have "8 * ?n \<le> unat (x - (sp - 8 - 8 * of_nat ?n))"
    using d by (simp add: d_def algebra_simps)
  ultimately show ?case using Cons by simp
qed simp

lemma exec_pushes:
  assumes "RSP \<notin> set rs"
  shows "exec (map Push rs) c =
    (set_reg RSP (regs c RSP - 8 * of_nat (length rs)) c)
      \<lparr>mem := push_words (mem c) (regs c RSP) (map (regs c) rs)\<rparr>"
  using assms
proof (induction rs arbitrary: c)
  case Nil
  then show ?case by (simp add: set_reg_def)
next
  case (Cons r rs)
  have "map ((regs c)(RSP := v)) rs = map (regs c) rs" for v
    using Cons.prems by (intro map_cong) auto
  with Cons show ?case by (simp add: set_reg_def Let_def algebra_simps)
qed

fun load_regs :: "reg list \<Rightarrow> u64 list \<Rightarrow> (reg \<Rightarrow> u64) \<Rightarrow> (reg \<Rightarrow> u64)" where
  "load_regs (r # rs) (v # vs) f = load_regs rs vs (f(r := v))"
| "load_regs _ _ f = f"

lemma load_regs_upd: "r \<notin> set rs \<Longrightarrow> load_regs rs vs (f(r := v)) = (load_regs rs vs f)(r := v)"
  by (induction rs vs f rule: load_regs.induct) (auto simp: fun_upd_twist)

lemma load_regs_other [simp]: "r \<notin> set rs \<Longrightarrow> load_regs rs vs f r = f r"
  by (induction rs vs f rule: load_regs.induct) auto

lemma load_regs_nth:
  "distinct rs \<Longrightarrow> length vs = length rs \<Longrightarrow> i < length rs \<Longrightarrow> load_regs rs vs f (rs ! i) = vs ! i"
  by (induction rs vs f arbitrary: i rule: load_regs.induct) (auto simp: nth_Cons split: nat.split)

lemma load_regs_map: "distinct rs \<Longrightarrow> r \<in> set rs \<Longrightarrow> load_regs rs (map g rs) f r = g r"
  using load_regs_nth [of rs "map g rs"] by (metis in_set_conv_nth length_map nth_map)

lemma exec_pops:
  assumes "RSP \<notin> set rs" and "frame (mem c) (regs c RSP) vs" and "length vs = length rs"
  shows "exec (map Pop rs) c =
    set_reg RSP (regs c RSP + 8 * of_nat (length rs)) (c\<lparr>regs := load_regs rs vs (regs c)\<rparr>)"
  using assms
proof (induction rs arbitrary: c vs)
  case Nil
  then show ?case by (simp add: set_reg_def)
next
  case (Cons r rs)
  obtain v vs' where vs: "vs = v # vs'" using Cons.prems(3) by (cases vs) auto
  let ?c = "exec_instr (Pop r) c"
  have r: "r \<noteq> RSP" "RSP \<notin> set rs" using Cons.prems(1) by auto
  have c: "?c = c\<lparr>regs := (regs c)(r := v, RSP := regs c RSP + 8)\<rparr>"
    using Cons.prems(2) r vs by (simp add: set_reg_def Let_def fun_upd_twist)
  have "exec (map Pop rs) ?c = set_reg RSP (regs ?c RSP + 8 * of_nat (length rs))
      (?c\<lparr>regs := load_regs rs vs' (regs ?c)\<rparr>)"
    using Cons.prems vs r c by (intro Cons.IH) auto
  then show ?case
    using r vs by (simp only: list.map exec_Cons c)
      (simp add: load_regs_upd set_reg_def algebra_simps)
qed

end
