(* ===== verification/Context_Switch.thy ===== *)
theory Context_Switch
  imports Machine
begin

text \<open>
  Kernel-thread stacks and the context switch (\<open>src/src/thread.rs\<close>, the part above the
  scheduler): \<open>KernelThread_new\<close> builds the initial stack of a thread and
  \<open>switch_context\<close> is the naked assembly routine, executed instruction by instruction on
  the machine.

  A \<open>Context\<close> is one 8-byte cell of memory that holds the saved stack pointer; the assembly
  receives its address, so a thread records the address of its context and of its stack
  buffer and the contents live in the machine's memory. The two addresses are those of the
  heap allocations that \<open>Box::new\<close> performs, and are arguments of the constructor.
\<close>

section \<open>The model\<close>

definition STACK_SIZE :: nat where
  "STACK_SIZE = 16 * 1024"

record KernelThread =
  kt_id :: u64
  kt_process :: u64
  kt_context :: u64
  kt_stack :: u64

definition u64_sub :: "u64 \<Rightarrow> u64 \<Rightarrow> u64 res" where
  "u64_sub a b = (if b \<le> a then Inr (a - b) else Inl ArithmeticOverflow)"

primrec reserve_slots :: "nat \<Rightarrow> memory \<times> u64 \<Rightarrow> (memory \<times> u64) res" where
  "reserve_slots 0 st = Inr st"
| "reserve_slots (Suc n) st =
    (case st of (m, sp) \<Rightarrow> bind_res (u64_sub sp 8) (\<lambda>sp. reserve_slots n (write64 m sp 0, sp)))"

definition KernelThread_new ::
  "memory \<Rightarrow> u64 \<Rightarrow> u64 \<Rightarrow> u64 \<Rightarrow> u64 \<Rightarrow> u64 \<Rightarrow> (memory \<times> KernelThread) res" where
  "KernelThread_new m tid ctx stack entry process =
    (let m = write_bytes m stack (replicate STACK_SIZE 0);
         stack_top = stack + of_nat STACK_SIZE;
         sp = stack_top AND NOT 0xF in
     bind_res (u64_sub sp 8) (\<lambda>sp.
     bind_res (reserve_slots 6 (write64 m sp entry, sp)) (\<lambda>(m, sp).
     Inr (write64 m ctx sp,
          \<lparr>kt_id = tid, kt_process = process, kt_context = ctx, kt_stack = stack\<rparr>))))"

definition switch_code :: "instr list" where
  "switch_code =
    [Push RBP, Push RBX, Push R12, Push R13, Push R14, Push R15,
     Store RDI RSP,
     Load RSP RSI,
     Pop R15, Pop R14, Pop R13, Pop R12, Pop RBX, Pop RBP,
     Ret]"

definition switch_context :: "cpu \<Rightarrow> cpu" where
  "switch_context c = exec switch_code c"

section \<open>What a switch saves and what it loads\<close>

definition CALLEE_SAVED :: "reg list" where
  "CALLEE_SAVED = [RBP, RBX, R12, R13, R14, R15]"

text \<open>
  A suspended thread: its context cell holds the address of a frame of six register values
  and the address at which it resumes.
\<close>

definition suspended :: "memory \<Rightarrow> u64 \<Rightarrow> u64 \<Rightarrow> u64 list \<Rightarrow> u64 \<Rightarrow> bool" where
  "suspended m ctx sp vs ret \<longleftrightarrow> read64 m ctx = sp \<and> frame m sp (vs @ [ret]) \<and> length vs = 6"

lemma CALLEE_SAVED_facts [simp]:
  "RSP \<notin> set CALLEE_SAVED" "RDI \<notin> set CALLEE_SAVED" "RSI \<notin> set CALLEE_SAVED"
  "distinct CALLEE_SAVED" "length CALLEE_SAVED = 6"
  by (simp_all add: CALLEE_SAVED_def)

lemma suspended_cong:
  assumes "suspended m ctx sp vs ret"
    and "\<And>x. unat (x - ctx) < 8 \<Longrightarrow> m' x = m x" and "\<And>x. unat (x - sp) < 56 \<Longrightarrow> m' x = m x"
  shows "suspended m' ctx sp vs ret"
  using assms read64_cong [of ctx m' m] frame_cong [of m sp "vs @ [ret]" m']
  by (simp add: suspended_def)

text \<open>The memory that the first half of a switch leaves behind.\<close>

definition saved_mem :: "cpu \<Rightarrow> memory" where
  "saved_mem c =
    write64 (push_words (mem c) (regs c RSP) (map (regs c) CALLEE_SAVED))
      (regs c RDI) (regs c RSP - 48)"

lemma frame_exists: "\<exists>vs. length vs = n \<and> frame m sp vs"
proof (induction n arbitrary: sp)
  case (Suc n)
  then obtain vs where "length vs = n" "frame m (sp + 8) vs" by blast
  then show ?case by (intro exI [of _ "read64 m sp # vs"]) simp
qed simp

lemma switch_context_eq:
  assumes "read64 (saved_mem c) (regs c RSI) = sp" and "frame (saved_mem c) sp (vs @ [ret])"
    and "length vs = 6"
  shows "switch_context c =
    c\<lparr>regs := (load_regs (rev CALLEE_SAVED) vs (regs c))(RSP := sp + 56), rip := ret,
      mem := saved_mem c\<rparr>"
proof -
  define c1 where "c1 = exec (map Push CALLEE_SAVED) c"
  define c2 where "c2 = exec [Store RDI RSP, Load RSP RSI] c1"
  have c2: "c2 = c\<lparr>regs := (regs c)(RSP := sp), mem := saved_mem c\<rparr>"
    using assms(1) by (simp add: c2_def c1_def exec_pushes saved_mem_def set_reg_def)
  have code: "switch_code = map Push CALLEE_SAVED @ [Store RDI RSP, Load RSP RSI] @
      map Pop (rev CALLEE_SAVED) @ [Ret]"
    by (simp add: switch_code_def CALLEE_SAVED_def)
  have "switch_context c = exec_instr Ret (exec (map Pop (rev CALLEE_SAVED)) c2)"
    by (simp only: switch_context_def code exec_append c1_def c2_def exec_Cons exec_Nil)
  also have "exec (map Pop (rev CALLEE_SAVED)) c2 =
      set_reg RSP (sp + 48) (c2\<lparr>regs := load_regs (rev CALLEE_SAVED) vs (regs c2)\<rparr>)"
    using exec_pops [of "rev CALLEE_SAVED" c2 vs] assms(2,3) c2 by (simp add: frame_append)
  finally show ?thesis
    using assms(2,3) c2
    by (cases c) (simp add: frame_append load_regs_upd set_reg_def Let_def add.commute)
qed

lemma mem_switch_context: "mem (switch_context c) = saved_mem c"
proof -
  obtain ws where ws: "length ws = 7" "frame (saved_mem c) (read64 (saved_mem c) (regs c RSI)) ws"
    using frame_exists by blast
  then have "ws = take 6 ws @ [ws ! 6]" "length (take 6 ws) = 6"
    by (simp_all add: take_Suc_conv_app_nth [symmetric])
  then show ?thesis using switch_context_eq [of c _ "take 6 ws" "ws ! 6"] ws by simp
qed

lemma saved_mem_outside:
  assumes "8 \<le> unat (x - regs c RDI)" and "48 \<le> unat (x - (regs c RSP - 48))"
  shows "saved_mem c x = mem c x"
  using assms push_words_outside [of "map (regs c) CALLEE_SAVED" x "regs c RSP"]
  by (simp add: saved_mem_def write64_outside)

lemma switch_context_saves:
  assumes "separate (regs c RDI) 8 (regs c RSP - 48) 56"
  shows "suspended (mem (switch_context c)) (regs c RDI) (regs c RSP - 48)
    (map (regs c) (rev CALLEE_SAVED)) (read64 (mem c) (regs c RSP))"
proof -
  have "frame (push_words (mem c) (regs c RSP) (map (regs c) CALLEE_SAVED)) (regs c RSP - 48)
      (map (regs c) (rev CALLEE_SAVED) @ [read64 (mem c) (regs c RSP)])"
    using frame_push_words [of "mem c" "regs c RSP" "[read64 (mem c) (regs c RSP)]"
        "map (regs c) CALLEE_SAVED"] by (simp add: rev_map)
  then show ?thesis
    using frame_write64 assms by (simp add: suspended_def mem_switch_context saved_mem_def)
qed

lemma switch_context_loads:
  assumes "suspended (mem c) (regs c RSI) sp vs ret"
    and "separate (regs c RDI) 8 (regs c RSI) 8" and "separate (regs c RDI) 8 sp 56"
    and "separate (regs c RSP - 48) 48 (regs c RSI) 8" and "separate (regs c RSP - 48) 48 sp 56"
  shows "switch_context c =
    c\<lparr>regs := (load_regs (rev CALLEE_SAVED) vs (regs c))(RSP := sp + 56), rip := ret,
      mem := saved_mem c\<rparr>"
proof -
  have "suspended (saved_mem c) (regs c RSI) sp vs ret"
    using assms(1)
  proof (rule suspended_cong)
    show "saved_mem c x = mem c x" if "unat (x - regs c RSI) < 8" for x
      using separate_D [OF assms(2) _ that] separate_D [OF assms(4) _ that]
      by (intro saved_mem_outside) simp_all
    show "saved_mem c x = mem c x" if "unat (x - sp) < 56" for x
      using separate_D [OF assms(3) _ that] separate_D [OF assms(5) _ that]
      by (intro saved_mem_outside) simp_all
  qed
  then show ?thesis by (intro switch_context_eq) (simp_all add: suspended_def)
qed

section \<open>The initial stack of a thread\<close>

definition initial_sp :: "u64 \<Rightarrow> u64" where
  "initial_sp stack = (stack + of_nat STACK_SIZE) AND NOT 0xF"

lemma and_not_mask_eq: "(x :: u64) AND NOT (mask n) = x - take_bit n x"
proof -
  have "x AND NOT (mask n) = push_bit n (drop_bit n x)" by (rule bit_word_eqI) (auto simp: bit_simps)
  then show ?thesis using bits_ident [of n x] by (simp add: eq_diff_eq)
qed

lemma initial_sp_bounds:
  assumes "unat stack + STACK_SIZE < 2 ^ 64"
  shows "unat stack + STACK_SIZE - 15 \<le> unat (initial_sp stack)"
    and "unat (initial_sp stack) \<le> unat stack + STACK_SIZE" and "unat (initial_sp stack) mod 16 = 0"
proof -
  let ?t = "stack + of_nat STACK_SIZE"
  have t: "unat ?t = unat stack + STACK_SIZE"
    using assms by (simp add: unat_word_ariths STACK_SIZE_def)
  have "initial_sp stack = ?t AND NOT (mask 4)"
    by (simp add: initial_sp_def mask_eq_exp_minus_1)
  then have e: "initial_sp stack = ?t - take_bit 4 ?t" by (simp add: and_not_mask_eq)
  have u: "unat (take_bit 4 ?t) = unat ?t mod 16"
    by (simp only: unsigned_take_bit_eq) (simp add: take_bit_eq_mod)
  then have "take_bit 4 ?t \<le> ?t" by (simp add: word_le_nat_alt)
  then have "unat (initial_sp stack) = unat ?t - unat ?t mod 16" using e u by (simp add: unat_sub)
  then show "unat stack + STACK_SIZE - 15 \<le> unat (initial_sp stack)"
    "unat (initial_sp stack) \<le> unat stack + STACK_SIZE" "unat (initial_sp stack) mod 16 = 0"
    using t by (auto simp: minus_mod_eq_mult_div)
qed

lemma initial_frame_in_stack:
  assumes "unat stack + STACK_SIZE < 2 ^ 64"
  shows "unat (initial_sp stack - 56 - stack) + 56 \<le> STACK_SIZE"
proof -
  note b = initial_sp_bounds [OF assms]
  have "unat (initial_sp stack - 56) = unat (initial_sp stack) - 56"
    using b(1) unat_sub [of 56 "initial_sp stack"] by (simp add: STACK_SIZE_def word_le_nat_alt)
  moreover from this have "unat (initial_sp stack - 56 - stack) =
      unat (initial_sp stack - 56) - unat stack"
    using b(1) by (intro unat_sub) (simp add: STACK_SIZE_def word_le_nat_alt)
  ultimately show ?thesis using b(1,2) by (simp add: STACK_SIZE_def)
qed

lemma reserve_slots_eq:
  assumes "8 * n \<le> unat sp"
  shows "reserve_slots n (m, sp) =
    Inr (push_words m sp (replicate n 0), sp - 8 * of_nat n)"
  using assms
proof (induction n arbitrary: m sp)
  case (Suc n)
  then have "8 \<le> sp" by (simp add: word_le_nat_alt)
  moreover have "8 * n \<le> unat (sp - 8)" using Suc.prems calculation by (simp add: unat_sub)
  ultimately show ?case using Suc.IH by (simp add: u64_sub_def algebra_simps)
qed simp

lemma KernelThread_new_suspended:
  assumes "unat stack + STACK_SIZE < 2 ^ 64" and "separate ctx 8 stack STACK_SIZE"
  obtains m' where
    "KernelThread_new m tid ctx stack entry process =
      Inr (m', \<lparr>kt_id = tid, kt_process = process, kt_context = ctx, kt_stack = stack\<rparr>)"
    and "suspended m' ctx (initial_sp stack - 56) (replicate 6 0) entry"
    and "\<And>x. 8 \<le> unat (x - ctx) \<Longrightarrow> STACK_SIZE \<le> unat (x - stack) \<Longrightarrow> m' x = m x"
proof -
  let ?sp = "initial_sp stack"
  define m0 where "m0 = write_bytes m stack (replicate STACK_SIZE 0)"
  define m1 where "m1 = push_words m0 ?sp (entry # replicate 6 0)"
  have sp: "8 * 7 \<le> unat ?sp" "8 \<le> ?sp"
    using initial_sp_bounds(1) [OF assms(1)] by (simp_all add: STACK_SIZE_def word_le_nat_alt)
  then have "8 * 6 \<le> unat (?sp - 8)" by (simp add: unat_sub)
  from reserve_slots_eq [OF this, of "write64 m0 (?sp - 8) entry"]
  have new: "KernelThread_new m tid ctx stack entry process =
      Inr (write64 m1 ctx (?sp - 56),
        \<lparr>kt_id = tid, kt_process = process, kt_context = ctx, kt_stack = stack\<rparr>)"
    using sp by (simp add: KernelThread_new_def u64_sub_def initial_sp_def m0_def m1_def
        Let_def del: reserve_slots.simps)
  have off: "unat (?sp - 56 - stack) + 56 \<le> STACK_SIZE"
    by (rule initial_frame_in_stack [OF assms(1)])
  have "frame m1 (?sp - 56) (replicate 6 0 @ [entry])"
    using frame_push_words [of m0 ?sp "[]" "entry # replicate 6 0"] by (simp add: m1_def)
  moreover have "separate ctx 8 (?sp - 56) 56"
    using separate_subrange [OF assms(2) _ _ off] by simp
  ultimately have "suspended (write64 m1 ctx (?sp - 56)) ctx (?sp - 56) (replicate 6 0) entry"
    by (simp add: suspended_def frame_write64)
  moreover have "write64 m1 ctx (?sp - 56) x = m x"
    if x: "8 \<le> unat (x - ctx)" "STACK_SIZE \<le> unat (x - stack)" for x
  proof -
    have "56 \<le> unat (x - (?sp - 56))" using subrange_D [OF off] x(2) by (meson leD not_le)
    then have "m1 x = m0 x"
      using push_words_outside [of "entry # replicate 6 0" x ?sp m0] by (simp add: m1_def)
    then show ?thesis using x by (simp add: write64_outside m0_def write_bytes_def)
  qed
  ultimately show ?thesis using that new by blast
qed

section \<open>Properties\<close>



text \<open>
  C28: A thread built by \<open>KernelThread_new\<close> starts at its entry function: the constructor does
  not overflow and writes only to the thread's stack and context, and the first switch to
  the new context jumps to \<open>entry\<close> with zeroed callee-saved registers and a stack pointer
  inside the thread's own stack that is a multiple of 16.
\<close>

theorem new_thread_starts_at_entry:
  assumes "unat stack + STACK_SIZE < 2 ^ 64" and "separate ctx 8 stack STACK_SIZE"
    and "regs c RSI = ctx" and "separate (regs c RDI) 8 ctx 8"
    and "separate (regs c RDI) 8 stack STACK_SIZE" and "separate (regs c RSP - 48) 48 ctx 8"
    and "separate (regs c RSP - 48) 48 stack STACK_SIZE"
  shows "\<exists>m' t. KernelThread_new m tid ctx stack entry process = Inr (m', t) \<and>
    (\<forall>x. 8 \<le> unat (x - ctx) \<and> STACK_SIZE \<le> unat (x - stack) \<longrightarrow> m' x = m x) \<and>
    (mem c = m' \<longrightarrow>
      rip (switch_context c) = entry \<and> regs (switch_context c) RSP = initial_sp stack \<and>
      (\<forall>r \<in> set CALLEE_SAVED. regs (switch_context c) r = 0)) \<and>
    unat stack + STACK_SIZE - 15 \<le> unat (initial_sp stack) \<and>
    unat (initial_sp stack) \<le> unat stack + STACK_SIZE \<and> unat (initial_sp stack) mod 16 = 0"
proof -
  obtain m' where m': "KernelThread_new m tid ctx stack entry process =
      Inr (m', \<lparr>kt_id = tid, kt_process = process, kt_context = ctx, kt_stack = stack\<rparr>)"
    "suspended m' ctx (initial_sp stack - 56) (replicate 6 0) entry"
    "\<And>x. 8 \<le> unat (x - ctx) \<Longrightarrow> STACK_SIZE \<le> unat (x - stack) \<Longrightarrow> m' x = m x"
    using KernelThread_new_suspended [OF assms(1,2)] by metis
  note off = initial_frame_in_stack [OF assms(1)]
  have sep: "separate (regs c RDI) 8 (initial_sp stack - 56) 56"
    "separate (regs c RSP - 48) 48 (initial_sp stack - 56) 56"
    using separate_subrange [OF assms(5) _ _ off] separate_subrange [OF assms(7) _ _ off] by simp_all
  have "switch_context c = c\<lparr>regs := (load_regs (rev CALLEE_SAVED) (replicate 6 0)
      (regs c))(RSP := initial_sp stack - 56 + 56), rip := entry, mem := saved_mem c\<rparr>"
    if "mem c = m'"
    using m'(2) sep assms(3,4,6) that by (intro switch_context_loads) simp_all
  moreover have "(replicate 6 0 :: u64 list) = map (\<lambda>_. 0) (rev CALLEE_SAVED)"
    by (simp add: CALLEE_SAVED_def numeral_eq_Suc)
  then have "load_regs (rev CALLEE_SAVED) (replicate 6 0) f r = 0" if "r \<in> set CALLEE_SAVED" for f r
    using load_regs_map [of "rev CALLEE_SAVED" r "\<lambda>_. 0" f] that by simp
  ultimately show ?thesis using m' initial_sp_bounds [OF assms(1)] by auto
qed

theorem new_thread_starts_at_entry_witness:
  "\<exists>m' t. KernelThread_new (\<lambda>_. 0) 1 0x100 0x8001 0xCAFE 0 = Inr (m', t) \<and>
    (let c = \<lparr>regs = (\<lambda>_. 7)(RDI := 0x200, RSI := 0x100, RSP := 0x4000), rip = 0, rflags = 2,
              cs = 8, ss = 0, mem = m'\<rparr> in
     rip (switch_context c) = 0xCAFE \<and> regs (switch_context c) RSP = 0xC000 \<and>
     regs (switch_context c) RBX = 0)"
proof -
  let ?c = "\<lambda>m. \<lparr>regs = (\<lambda>_. 7)(RDI := 0x200, RSI := 0x100, RSP := 0x4000), rip = 0, rflags = 2,
              cs = 8, ss = 0, mem = m\<rparr>"
  have new: "\<exists>m' t. KernelThread_new (\<lambda>_. 0) 1 0x100 0x8001 0xCAFE 0 = Inr (m', t) \<and>
      (mem (?c m) = m' \<longrightarrow> rip (switch_context (?c m)) = 0xCAFE \<and>
        regs (switch_context (?c m)) RSP = initial_sp 0x8001 \<and>
        (\<forall>r \<in> set CALLEE_SAVED. regs (switch_context (?c m)) r = 0))" for m
    using new_thread_starts_at_entry [of "0x8001" "0x100" "?c m" "\<lambda>_. 0" 1 "0xCAFE" 0]
    by (simp add: separate_def STACK_SIZE_def) blast
  obtain m' t where "KernelThread_new (\<lambda>_. 0) 1 0x100 0x8001 0xCAFE 0 = Inr (m', t)"
    using new by blast
  with new [of m'] show ?thesis
    by (auto simp: Let_def CALLEE_SAVED_def initial_sp_def STACK_SIZE_def)
qed

end
