(* ===== verification/Scheduler_Counters.thy ===== *)
theory Scheduler_Counters
  imports Apogee_Prelude
begin

text \<open>
  The kernel-wide runtime counters (\<open>src/src/scheduler.rs\<close>). Every field is an atomic whose
  \<open>fetch_add\<close> and \<open>fetch_sub\<close> wrap around at 64 bits, so the fields are 64-bit words. The one
  checked operation is the \<open>+ 1\<close> that \<open>tick\<close> applies to the value it read; a tick that logs
  a heartbeat returns the three arguments of the log line.
\<close>

section \<open>The model\<close>

definition TICK_LOG_INTERVAL :: u64 where
  "TICK_LOG_INTERVAL = 200"

record Scheduler =
  tick_count :: u64
  threads_alive :: u64
  threads_spawned :: u64
  tasks_alive :: u64
  tasks_spawned :: u64
  tasks_completed :: u64
  processes_alive :: u64
  processes_spawned :: u64

definition Scheduler_new :: Scheduler where
  "Scheduler_new =
    \<lparr>tick_count = 0, threads_alive = 0, threads_spawned = 0, tasks_alive = 0, tasks_spawned = 0,
     tasks_completed = 0, processes_alive = 0, processes_spawned = 0\<rparr>"

definition tick :: "Scheduler \<Rightarrow> (Scheduler \<times> (u64 \<times> u64 \<times> u64) option) res" where
  "tick s =
    (let old = tick_count s; s = s\<lparr>tick_count := old + 1\<rparr> in
     if old = - 1 then Inl ArithmeticOverflow
     else let ticks = old + 1 in
       Inr (s, if ticks mod TICK_LOG_INTERVAL = 0
               then Some (ticks, threads_alive s, tasks_alive s) else None))"

definition ticks :: "Scheduler \<Rightarrow> u64" where
  "ticks s = tick_count s"

definition note_thread_spawned :: "Scheduler \<Rightarrow> Scheduler" where
  "note_thread_spawned s =
    s\<lparr>threads_alive := threads_alive s + 1, threads_spawned := threads_spawned s + 1\<rparr>"

definition note_thread_exited :: "Scheduler \<Rightarrow> Scheduler" where
  "note_thread_exited s = s\<lparr>threads_alive := threads_alive s - 1\<rparr>"

definition note_task_spawned :: "Scheduler \<Rightarrow> Scheduler" where
  "note_task_spawned s =
    s\<lparr>tasks_alive := tasks_alive s + 1, tasks_spawned := tasks_spawned s + 1\<rparr>"

definition note_task_completed :: "Scheduler \<Rightarrow> Scheduler" where
  "note_task_completed s =
    s\<lparr>tasks_alive := tasks_alive s - 1, tasks_completed := tasks_completed s + 1\<rparr>"

definition note_process_spawned :: "Scheduler \<Rightarrow> Scheduler" where
  "note_process_spawned s =
    s\<lparr>processes_alive := processes_alive s + 1, processes_spawned := processes_spawned s + 1\<rparr>"

definition note_process_exited :: "Scheduler \<Rightarrow> Scheduler" where
  "note_process_exited s = s\<lparr>processes_alive := processes_alive s - 1\<rparr>"

text \<open>A run of timer interrupts and the heartbeats it logs, in order.\<close>

primrec run_ticks :: "nat \<Rightarrow> Scheduler \<Rightarrow> (Scheduler \<times> (u64 \<times> u64 \<times> u64) list) res" where
  "run_ticks 0 s = Inr (s, [])"
| "run_ticks (Suc n) s =
    bind_res (run_ticks n s) (\<lambda>(s, log). bind_res (tick s) (\<lambda>(s, beat).
      Inr (s, log @ (case beat of None \<Rightarrow> [] | Some b \<Rightarrow> [b]))))"

lemmas counter_defs = note_thread_spawned_def note_thread_exited_def note_task_spawned_def
  note_task_completed_def note_process_spawned_def note_process_exited_def

section \<open>Properties\<close>

lemma upt_div_Suc:
  "0 < k \<Longrightarrow> [0..<Suc n div k] = [0..<n div k] @ (if Suc n mod k = 0 then [n div k] else [])"
  by (cases "Suc n mod k = 0") (auto simp: div_Suc)

text \<open>
  The tick source: after any number of timer interrupts below 2 to the 64 the tick counter
  is that number, no interrupt panicked, no other counter moved, and a heartbeat was logged
  at exactly the multiples of 200, in order, each carrying the live thread and task counts.
\<close>

theorem tick_heartbeats:
  assumes "n < 2 ^ 64"
  shows "run_ticks n Scheduler_new =
    Inr (Scheduler_new\<lparr>tick_count := of_nat n\<rparr>,
         map (\<lambda>k. (of_nat (200 * Suc k), 0, 0)) [0..<n div 200])"
  using assms
proof (induction n)
  case 0
  then show ?case by (simp add: Scheduler_new_def)
next
  case (Suc n)
  have n: "unat (of_nat n :: u64) = n" "unat (of_nat (Suc n) :: u64) = Suc n"
    using Suc.prems by (simp_all only: unat_of_nat) (simp_all add: take_bit_nat_eq_self)
  have "(of_nat n :: u64) \<noteq> - 1"
  proof
    assume "(of_nat n :: u64) = - 1"
    then have "(of_nat (Suc n) :: u64) = 0" by simp
    then show False using n(2) by (simp only: unat_0)
  qed
  moreover have "(of_nat (Suc n) mod TICK_LOG_INTERVAL = 0) \<longleftrightarrow> Suc n mod 200 = 0"
    using n(2) by (simp only: word_unat_eq_iff unat_mod TICK_LOG_INTERVAL_def) simp
  moreover have "(of_nat n :: u64) = 199 + 200 * of_nat (n div 200)" if "Suc n mod 200 = 0"
  proof -
    have "n = 199 + 200 * (n div 200)"
      using that mult_div_mod_eq [of 200 "Suc n"] by (simp add: div_Suc)
    from arg_cong [OF this, of of_nat] show ?thesis by simp
  qed
  moreover have "run_ticks n Scheduler_new = Inr (Scheduler_new\<lparr>tick_count := of_nat n\<rparr>,
      map (\<lambda>k. (of_nat (200 * Suc k), 0, 0)) [0..<n div 200])"
    using Suc by simp
  moreover have "(of_nat (Suc n) :: u64) = of_nat n + 1" by simp
  ultimately show ?case
    by (simp add: tick_def Let_def Scheduler_new_def upt_div_Suc del: of_nat_Suc mult_Suc_right
        split del: if_split) simp
qed

theorem tick_heartbeats_witness:
  "run_ticks 3 Scheduler_new = Inr (Scheduler_new\<lparr>tick_count := 3\<rparr>, [])"
  using tick_heartbeats [of 3] by simp

end
