(* ===== verification/Process_Registry.thy ===== *)
theory Process_Registry
  imports Scheduler_Counters "HOL-Library.Finite_Map"
begin

text \<open>
  Process descriptors (\<open>src/src/process.rs\<close>) and the process service that owns the registry
  (\<open>ProcessService\<close> of \<open>src/src/kernel/service.rs\<close>). The registry is a finite map; the id
  counter is the static of \<open>ProcessId::new\<close>. Every operation takes and returns the runtime
  counters that it updates. Addresses (\<open>VirtAddr\<close>, \<open>PhysAddr\<close>) are 64-bit words and exit
  codes 32-bit ones.
\<close>

section \<open>The model\<close>

type_synonym ProcessId = u64
type_synonym VirtAddr = u64
type_synonym PhysAddr = u64
type_synonym i32 = "32 word"

definition KERNEL_PID :: ProcessId where
  "KERNEL_PID = 0"

datatype ProcessState = Ready | Running | Exited i32

record Process =
  pid :: ProcessId
  page_table_root :: "PhysAddr option"
  user_entry :: VirtAddr
  user_stack_top :: VirtAddr
  state :: ProcessState

record ProcessSnapshot =
  snap_pid :: ProcessId
  snap_user_entry :: VirtAddr
  snap_user_stack_top :: VirtAddr
  snap_state :: ProcessState

record process_service =
  processes :: "(ProcessId, Process) fmap"
  NEXT_PID :: u64

definition ProcessService_new :: process_service where
  "ProcessService_new = \<lparr>processes = fmempty, NEXT_PID = 1\<rparr>"

definition ProcessId_new :: "process_service \<Rightarrow> process_service \<times> ProcessId" where
  "ProcessId_new ps = (ps\<lparr>NEXT_PID := NEXT_PID ps + 1\<rparr>, NEXT_PID ps)"

definition Process_new ::
  "VirtAddr \<Rightarrow> VirtAddr \<Rightarrow> process_service \<Rightarrow> process_service \<times> Process" where
  "Process_new entry stack_top ps =
    (let (ps, i) = ProcessId_new ps in
     (ps, \<lparr>pid = i, page_table_root = None, user_entry = entry, user_stack_top = stack_top,
           state = Ready\<rparr>))"

definition process_register ::
  "Process \<Rightarrow> process_service \<times> Scheduler \<Rightarrow> (process_service \<times> Scheduler) \<times> ProcessId" where
  "process_register p = (\<lambda>(ps, sc).
    ((ps\<lparr>processes := fmupd (pid p) p (processes ps)\<rparr>, note_process_spawned sc), pid p))"

definition process_create ::
  "VirtAddr \<Rightarrow> VirtAddr \<Rightarrow> process_service \<times> Scheduler \<Rightarrow>
    (process_service \<times> Scheduler) \<times> ProcessId" where
  "process_create entry stack_top = (\<lambda>(ps, sc).
    let (ps, p) = Process_new entry stack_top ps in process_register p (ps, sc))"

definition process_exit ::
  "ProcessId \<Rightarrow> i32 \<Rightarrow> process_service \<times> Scheduler \<Rightarrow> (process_service \<times> Scheduler) \<times> bool" where
  "process_exit i code = (\<lambda>(ps, sc).
    case fmlookup (processes ps) i of
      Some _ \<Rightarrow> ((ps\<lparr>processes := fmdrop i (processes ps)\<rparr>, note_process_exited sc), True)
    | None \<Rightarrow> ((ps, sc), False))"

definition process_snapshot :: "process_service \<Rightarrow> ProcessId \<Rightarrow> ProcessSnapshot option" where
  "process_snapshot ps i =
    map_option (\<lambda>p. \<lparr>snap_pid = pid p, snap_user_entry = user_entry p,
        snap_user_stack_top = user_stack_top p, snap_state = state p\<rparr>)
      (fmlookup (processes ps) i)"

definition process_count :: "process_service \<Rightarrow> nat" where
  "process_count ps = card (fmdom' (processes ps))"

definition is_registered :: "process_service \<Rightarrow> ProcessId \<Rightarrow> bool" where
  "is_registered ps i = (process_snapshot ps i \<noteq> None)"

section \<open>The invariant\<close>

definition process_inv :: "process_service \<times> Scheduler \<Rightarrow> bool" where
  "process_inv = (\<lambda>(ps, sc).
    (\<forall>i p. fmlookup (processes ps) i = Some p \<longrightarrow>
       pid p = i \<and> i \<noteq> KERNEL_PID \<and> i < NEXT_PID ps \<and> state p = Ready \<and> page_table_root p = None) \<and>
    NEXT_PID ps \<noteq> 0 \<and>
    processes_alive sc = of_nat (process_count ps) \<and> processes_spawned sc = NEXT_PID ps - 1)"

lemma u64_less_Suc: "(n :: u64) + 1 \<noteq> 0 \<Longrightarrow> i \<le> n \<Longrightarrow> i < n + 1"
  using unatSuc [of n] by (simp add: add.commute word_less_nat_alt word_le_nat_alt)

lemma process_inv_init: "process_inv (ProcessService_new, Scheduler_new)"
  by (simp add: process_inv_def ProcessService_new_def Scheduler_new_def process_count_def)

lemma next_pid_fresh:
  assumes "process_inv (ps, sc)"
  shows "fmlookup (processes ps) (NEXT_PID ps) = None"
  using assms by (cases "fmlookup (processes ps) (NEXT_PID ps)") (auto simp: process_inv_def)

lemma process_create_eq:
  "process_create entry stack_top (ps, sc) =
    ((ps\<lparr>NEXT_PID := NEXT_PID ps + 1,
         processes := fmupd (NEXT_PID ps) \<lparr>pid = NEXT_PID ps, page_table_root = None,
           user_entry = entry, user_stack_top = stack_top, state = Ready\<rparr> (processes ps)\<rparr>,
      note_process_spawned sc), NEXT_PID ps)"
  by (simp add: process_create_def Process_new_def ProcessId_new_def process_register_def)

lemma process_create_inv:
  assumes "process_inv (ps, sc)" and "NEXT_PID ps + 1 \<noteq> 0"
  shows "process_inv (fst (process_create entry stack_top (ps, sc)))"
proof -
  let ?n = "NEXT_PID ps"
  have "?n \<notin> fmdom' (processes ps)" using next_pid_fresh [OF assms(1)] by (simp add: fmlookup_dom'_iff)
  then have "card (insert ?n (fmdom' (processes ps))) = process_count ps + 1"
    by (simp add: process_count_def)
  moreover have "?n < ?n + 1" using u64_less_Suc [OF assms(2)] by simp
  moreover have "i < ?n + 1" if "i < ?n" for i
    using u64_less_Suc [OF assms(2)] that by (simp add: order_less_imp_le)
  ultimately show ?thesis
    using assms by (auto simp: process_create_eq process_inv_def process_count_def counter_defs KERNEL_PID_def)
qed

lemma process_exit_inv:
  assumes "process_inv (ps, sc)"
  shows "process_inv (fst (process_exit i code (ps, sc)))"
proof (cases "fmlookup (processes ps) i")
  case None
  then show ?thesis using assms by (simp add: process_exit_def)
next
  case (Some p)
  then have "i \<in> fmdom' (processes ps)" by (simp add: fmlookup_dom'_iff)
  then have "card (fmdom' (processes ps)) = Suc (card (fmdom' (processes ps) - {i}))"
    by (intro card.remove) simp_all
  then show ?thesis
    using assms Some by (simp add: process_exit_def process_inv_def process_count_def counter_defs)
qed

section \<open>Properties\<close>

text \<open>
  C31: The life of a process: creating one returns a pid that was not registered and is not the
  kernel's, makes exactly that descriptor visible and counts it; exiting it succeeds once and
  restores the registry and the count of live processes as they were, while the count of
  spawned processes keeps the creation; exiting it again reports failure and changes nothing.
\<close>

theorem process_lifecycle:
  assumes "process_inv (ps, sc)"
  shows "\<exists>ps1 sc1 i ps2 sc2.
    process_create entry stack_top (ps, sc) = ((ps1, sc1), i) \<and>
    \<not> is_registered ps i \<and> i \<noteq> KERNEL_PID \<and>
    process_snapshot ps1 = (process_snapshot ps)
      (i \<mapsto> \<lparr>snap_pid = i, snap_user_entry = entry, snap_user_stack_top = stack_top,
             snap_state = Ready\<rparr>) \<and>
    process_count ps1 = process_count ps + 1 \<and> processes_alive sc1 = processes_alive sc + 1 \<and>
    process_exit i code (ps1, sc1) = ((ps2, sc2), True) \<and> processes ps2 = processes ps \<and>
    processes_alive sc2 = processes_alive sc \<and> processes_spawned sc2 = processes_spawned sc + 1 \<and>
    process_exit i code' (ps2, sc2) = ((ps2, sc2), False)"
proof -
  let ?n = "NEXT_PID ps"
  have f: "fmlookup (processes ps) ?n = None" by (rule next_pid_fresh [OF assms])
  then have "?n \<notin> fmdom' (processes ps)" by (simp add: fmlookup_dom'_iff)
  moreover have "?n \<noteq> KERNEL_PID" using assms by (simp add: process_inv_def KERNEL_PID_def)
  moreover have "fmdrop ?n (fmupd ?n v (processes ps)) = processes ps" for v
    using f by (intro fmap_ext) simp
  ultimately show ?thesis
    using f by (auto simp: process_create_eq process_exit_def is_registered_def process_snapshot_def
        process_count_def counter_defs fun_eq_iff)
qed

theorem process_lifecycle_witness:
  "\<exists>ps1 sc1 i. process_create 0x400000000000 0x400000003000 (ProcessService_new, Scheduler_new) =
      ((ps1, sc1), i) \<and> processes_alive sc1 = 1 \<and> process_count ps1 = 1"
proof -
  obtain ps1 sc1 i where
    "process_create 0x400000000000 0x400000003000 (ProcessService_new, Scheduler_new) = ((ps1, sc1), i)"
    "process_count ps1 = process_count ProcessService_new + 1"
    "processes_alive sc1 = processes_alive Scheduler_new + 1"
    using process_lifecycle [OF process_inv_init, of "0x400000000000" "0x400000003000" 0 0] by metis
  then show ?thesis by (simp add: process_count_def ProcessService_new_def Scheduler_new_def)
qed

end
