(* ===== verification/Thread_Scheduler.thy ===== *)
theory Thread_Scheduler
  imports Context_Switch Process_Registry
begin

text \<open>
  The cooperative kernel-thread scheduler (\<open>src/src/thread.rs\<close>, from \<open>THREADS\<close> on).

  The \<open>BTreeMap\<close> of threads is a finite map and the \<open>VecDeque\<close> of ready ids a list. The
  module's statics form one state record: the scheduler behind its lock, the id counter, the
  runtime counters, and the boxes that \<open>drain_reaper\<close> has dropped so far, whose stacks are
  heap memory again. The lock is held and released inside every operation, on a single core
  with interrupts off, so an operation is one step. \<open>yield_now\<close> and \<open>exit_thread\<close> return the
  context addresses that they pass to \<open>switch_context\<close>.
\<close>

section \<open>The model\<close>

definition BOOTSTRAP_ID :: u64 where
  "BOOTSTRAP_ID = 0"

record ThreadScheduler =
  threads :: "(u64, KernelThread) fmap"
  ready :: "u64 list"
  current :: u64
  bootstrap_context :: u64
  reaper :: "KernelThread option"

record thread_state =
  THREADS :: ThreadScheduler
  NEXT_TID :: u64
  SCHEDULER :: Scheduler
  released :: "KernelThread list"

definition ThreadScheduler_new :: "u64 \<Rightarrow> ThreadScheduler" where
  "ThreadScheduler_new boot_ctx =
    \<lparr>threads = fmempty, ready = [], current = BOOTSTRAP_ID, bootstrap_context = boot_ctx,
     reaper = None\<rparr>"

definition thread_init :: "u64 \<Rightarrow> thread_state" where
  "thread_init boot_ctx =
    \<lparr>THREADS = ThreadScheduler_new boot_ctx, NEXT_TID = 1, SCHEDULER = Scheduler_new, released = []\<rparr>"

definition thread_count :: "thread_state \<Rightarrow> nat" where
  "thread_count s = card (fmdom' (threads (THREADS s)))"

definition ready_count :: "thread_state \<Rightarrow> nat" where
  "ready_count s = length (ready (THREADS s))"

definition current_id :: "thread_state \<Rightarrow> u64" where
  "current_id s = current (THREADS s)"

definition spawn ::
  "memory \<Rightarrow> u64 \<Rightarrow> u64 \<Rightarrow> u64 \<Rightarrow> u64 \<Rightarrow> thread_state \<Rightarrow> (memory \<times> thread_state \<times> u64) res" where
  "spawn m ctx stack entry process s =
    bind_res (KernelThread_new m (NEXT_TID s) ctx stack entry process) (\<lambda>(m, t).
    let id = kt_id t; sched = THREADS s in
    bind_res (debug_assert (id |\<notin>| fmdom (threads sched)) ''spawned thread id is already tracked'') (\<lambda>_.
    Inr (m,
         s\<lparr>THREADS := sched\<lparr>threads := fmupd id t (threads sched), ready := ready sched @ [id]\<rparr>,
           NEXT_TID := NEXT_TID s + 1,
           SCHEDULER := note_thread_spawned (SCHEDULER s)\<rparr>,
         id)))"

definition spawn_kernel ::
  "memory \<Rightarrow> u64 \<Rightarrow> u64 \<Rightarrow> u64 \<Rightarrow> thread_state \<Rightarrow> (memory \<times> thread_state \<times> u64) res" where
  "spawn_kernel m ctx stack entry s = spawn m ctx stack entry KERNEL_PID s"

definition drain_reaper :: "thread_state \<Rightarrow> thread_state" where
  "drain_reaper s =
    (case reaper (THREADS s) of
       None \<Rightarrow> s
     | Some t \<Rightarrow> s\<lparr>THREADS := (THREADS s)\<lparr>reaper := None\<rparr>,
                  SCHEDULER := note_thread_exited (SCHEDULER s),
                  released := released s @ [t]\<rparr>)"

definition context_of :: "ThreadScheduler \<Rightarrow> u64 \<Rightarrow> string \<Rightarrow> u64 res" where
  "context_of sched i msg =
    (if i = BOOTSTRAP_ID then Inr (bootstrap_context sched)
     else bind_res (expect (fmlookup (threads sched) i) msg) (\<lambda>t. Inr (kt_context t)))"

definition yield_now :: "thread_state \<Rightarrow> (thread_state \<times> (u64 \<times> u64) option) res" where
  "yield_now s =
    (let s = drain_reaper s; sched = THREADS s in
     case ready sched of
       [] \<Rightarrow> Inr (s, None)
     | next_id # rest \<Rightarrow>
         let prev_id = current sched; sched = sched\<lparr>ready := rest, current := next_id\<rparr> in
         bind_res (context_of sched prev_id ''yield_now: current thread missing from map'') (\<lambda>prev_ctx.
         let sched = sched\<lparr>ready := ready sched @ [prev_id]\<rparr> in
         bind_res (context_of sched next_id ''yield_now: next ready thread missing from map'') (\<lambda>next_ctx.
         Inr (s\<lparr>THREADS := sched\<rparr>, Some (prev_ctx, next_ctx)))))"

definition park :: "ThreadScheduler \<Rightarrow> ThreadScheduler res" where
  "park sched =
    (if current sched \<noteq> BOOTSTRAP_ID then
       case fmlookup (threads sched) (current sched) of
         None \<Rightarrow> Inr sched
       | Some boxed \<Rightarrow>
           let sched = sched\<lparr>threads := fmdrop (current sched) (threads sched)\<rparr> in
           bind_res (debug_assert (reaper sched = None) ''reaper slot should have been drained'') (\<lambda>_.
           Inr (sched\<lparr>reaper := Some boxed\<rparr>))
     else Inr sched)"

definition exit_thread :: "thread_state \<Rightarrow> (thread_state \<times> u64) res" where
  "exit_thread s =
    (let s = drain_reaper s in
     bind_res (park (THREADS s)) (\<lambda>sched.
     case ready sched of
       [] \<Rightarrow> Inl (ExpectFailed ''exit_thread: no other thread to switch into'')
     | next_id # rest \<Rightarrow>
         let sched = sched\<lparr>ready := rest, current := next_id\<rparr> in
         bind_res (context_of sched next_id ''exit_thread: next ready thread missing from map'') (\<lambda>next_ctx.
         Inr (s\<lparr>THREADS := sched\<rparr>, next_ctx))))"

definition current_process :: "thread_state \<Rightarrow> u64" where
  "current_process s =
    (let sched = THREADS s in
     if current sched = BOOTSTRAP_ID then KERNEL_PID
     else case fmlookup (threads sched) (current sched) of
            Some t \<Rightarrow> kt_process t
          | None \<Rightarrow> KERNEL_PID)"

section \<open>The invariant\<close>

text \<open>
  \<open>run_queue\<close> is the running thread followed by the ready ones. Every tracked thread and the
  bootstrap thread occur in it exactly once, so no thread is lost and none runs twice; a
  parked or released thread is not in it.
\<close>

definition run_queue :: "thread_state \<Rightarrow> u64 list" where
  "run_queue s = current (THREADS s) # ready (THREADS s)"

definition parked :: "thread_state \<Rightarrow> KernelThread list" where
  "parked s = (case reaper (THREADS s) of None \<Rightarrow> [] | Some t \<Rightarrow> [t])"

definition thread_inv :: "thread_state \<Rightarrow> bool" where
  "thread_inv s \<longleftrightarrow>
    distinct (run_queue s) \<and>
    set (run_queue s) = insert BOOTSTRAP_ID (fmdom' (threads (THREADS s))) \<and>
    BOOTSTRAP_ID \<notin> fmdom' (threads (THREADS s)) \<and>
    (\<forall>i t. fmlookup (threads (THREADS s)) i = Some t \<longrightarrow> kt_id t = i \<and> i < NEXT_TID s) \<and>
    (\<forall>t \<in> set (parked s @ released s).
       kt_id t \<notin> insert BOOTSTRAP_ID (fmdom' (threads (THREADS s))) \<and> kt_id t < NEXT_TID s) \<and>
    distinct (map kt_id (parked s @ released s)) \<and>
    threads_alive (SCHEDULER s) = of_nat (thread_count s + length (parked s)) \<and>
    threads_spawned (SCHEDULER s) = NEXT_TID s - 1 \<and> NEXT_TID s \<noteq> 0"

lemma thread_invD:
  assumes "thread_inv s"
  shows "distinct (run_queue s)"
    and "set (run_queue s) = insert BOOTSTRAP_ID (fmdom' (threads (THREADS s)))"
    and "BOOTSTRAP_ID \<notin> fmdom' (threads (THREADS s))"
    and "\<And>i t. fmlookup (threads (THREADS s)) i = Some t \<Longrightarrow> kt_id t = i \<and> i < NEXT_TID s"
    and "\<And>t. t \<in> set (parked s @ released s) \<Longrightarrow>
      kt_id t \<notin> insert BOOTSTRAP_ID (fmdom' (threads (THREADS s))) \<and> kt_id t < NEXT_TID s"
    and "distinct (map kt_id (parked s @ released s))"
    and "threads_alive (SCHEDULER s) = of_nat (card (fmdom' (threads (THREADS s))) + length (parked s))"
    and "threads_spawned (SCHEDULER s) = NEXT_TID s - 1" and "NEXT_TID s \<noteq> 0"
  using assms unfolding thread_inv_def thread_count_def by blast+

lemma thread_inv_init: "thread_inv (thread_init boot_ctx)"
  by (simp add: thread_inv_def thread_init_def ThreadScheduler_new_def run_queue_def parked_def
      thread_count_def Scheduler_new_def BOOTSTRAP_ID_def)

lemma drain_reaper_facts:
  "threads (THREADS (drain_reaper s)) = threads (THREADS s)"
  "ready (THREADS (drain_reaper s)) = ready (THREADS s)"
  "current (THREADS (drain_reaper s)) = current (THREADS s)"
  "bootstrap_context (THREADS (drain_reaper s)) = bootstrap_context (THREADS s)"
  "reaper (THREADS (drain_reaper s)) = None"
  "NEXT_TID (drain_reaper s) = NEXT_TID s"
  "threads_spawned (SCHEDULER (drain_reaper s)) = threads_spawned (SCHEDULER s)"
  "released (drain_reaper s) = released s @ parked s"
  "threads_alive (SCHEDULER (drain_reaper s)) = threads_alive (SCHEDULER s) - of_nat (length (parked s))"
  by (auto simp: drain_reaper_def parked_def counter_defs split: option.split)

lemma drain_reaper_inv:
  assumes "thread_inv s"
  shows "thread_inv (drain_reaper s)"
  using assms
  by (auto simp: thread_inv_def drain_reaper_facts run_queue_def thread_count_def
      parked_def [of "drain_reaper s"])

section \<open>Each operation on the invariant\<close>

definition ctx_addr :: "thread_state \<Rightarrow> u64 \<Rightarrow> u64" where
  "ctx_addr s i =
    (if i = BOOTSTRAP_ID then bootstrap_context (THREADS s)
     else kt_context (the (fmlookup (threads (THREADS s)) i)))"

lemma context_of_ok:
  assumes "i \<in> insert BOOTSTRAP_ID (fmdom' (threads (THREADS s)))"
    and "threads sched = threads (THREADS s)"
    and "bootstrap_context sched = bootstrap_context (THREADS s)"
  shows "context_of sched i msg = Inr (ctx_addr s i)"
  using assms by (auto simp: context_of_def ctx_addr_def fmlookup_dom'_iff)

lemma ctx_addr_drain [simp]: "ctx_addr (drain_reaper s) = ctx_addr s"
  by (simp add: ctx_addr_def drain_reaper_facts fun_eq_iff)

text \<open>The state in which the run queue has turned by one position.\<close>

definition turned :: "thread_state \<Rightarrow> thread_state" where
  "turned s = s\<lparr>THREADS := (THREADS s)
      \<lparr>ready := tl (rotate1 (run_queue s)), current := hd (rotate1 (run_queue s))\<rparr>\<rparr>"

lemma run_queue_turned [simp]: "run_queue (turned s) = rotate1 (run_queue s)"
  by (cases "ready (THREADS s)") (simp_all add: turned_def run_queue_def)

lemma turned_idle: "ready (THREADS s) = [] \<Longrightarrow> turned s = s"
  by (cases s; cases "THREADS s") (simp add: turned_def run_queue_def)

lemma turned_inv: "thread_inv s \<Longrightarrow> thread_inv (turned s)"
proof -
  assume inv: "thread_inv s"
  have "threads (THREADS (turned s)) = threads (THREADS s)" "parked (turned s) = parked s"
    "released (turned s) = released s" "NEXT_TID (turned s) = NEXT_TID s"
    "SCHEDULER (turned s) = SCHEDULER s"
    by (simp_all add: turned_def parked_def)
  then show ?thesis
    using inv unfolding thread_inv_def thread_count_def run_queue_turned by simp
qed

lemma yield_now_eq:
  assumes "thread_inv s"
  shows "yield_now s =
    Inr (turned (drain_reaper s),
         case ready (THREADS s) of [] \<Rightarrow> None
         | n # _ \<Rightarrow> Some (ctx_addr s (current (THREADS s)), ctx_addr s n))"
proof (cases "ready (THREADS s)")
  case Nil
  then show ?thesis by (simp add: yield_now_def Let_def drain_reaper_facts turned_idle)
next
  case (Cons n rest)
  have "set (run_queue s) = insert BOOTSTRAP_ID (fmdom' (threads (THREADS s)))"
    using assms by (simp add: thread_inv_def)
  then have "current (THREADS s) \<in> insert BOOTSTRAP_ID (fmdom' (threads (THREADS s)))"
    "n \<in> insert BOOTSTRAP_ID (fmdom' (threads (THREADS s)))"
    using Cons by (auto simp: run_queue_def)
  note ctx = context_of_ok [OF this(1)] context_of_ok [OF this(2)]
  show ?thesis
    using Cons by (simp add: yield_now_def Let_def drain_reaper_facts ctx turned_def run_queue_def)
qed

lemma yield_now_inv:
  "thread_inv s \<Longrightarrow> yield_now s = Inr (s', sw) \<Longrightarrow> thread_inv s'"
  by (auto simp: yield_now_eq turned_inv drain_reaper_inv)

text \<open>The state in which the running thread is parked and the next one runs.\<close>

definition exited :: "thread_state \<Rightarrow> thread_state" where
  "exited s = s\<lparr>THREADS := (THREADS s)
      \<lparr>threads := fmdrop (current (THREADS s)) (threads (THREADS s)),
       reaper := fmlookup (threads (THREADS s)) (current (THREADS s)),
       ready := tl (ready (THREADS s)), current := hd (ready (THREADS s))\<rparr>\<rparr>"

lemma running_thread:
  assumes "thread_inv s" and "current (THREADS s) \<noteq> BOOTSTRAP_ID"
  obtains t n rest where "fmlookup (threads (THREADS s)) (current (THREADS s)) = Some t"
    and "ready (THREADS s) = n # rest" and "n \<noteq> current (THREADS s)"
    and "n \<in> insert BOOTSTRAP_ID (fmdom' (threads (THREADS s)))"
proof -
  have q: "distinct (run_queue s)"
    "set (run_queue s) = insert BOOTSTRAP_ID (fmdom' (threads (THREADS s)))"
    using assms(1) by (simp_all add: thread_inv_def)
  then have "current (THREADS s) \<in> fmdom' (threads (THREADS s))"
    using assms(2) by (auto simp: run_queue_def)
  moreover have "BOOTSTRAP_ID \<in> set (run_queue s)" using q(2) by simp
  then have "BOOTSTRAP_ID \<in> set (ready (THREADS s))" using assms(2) by (simp add: run_queue_def)
  moreover from this obtain n rest where n: "ready (THREADS s) = n # rest"
    by (cases "ready (THREADS s)") auto
  moreover have "n \<in> set (run_queue s)" "n \<noteq> current (THREADS s)"
    using q(1) n by (auto simp: run_queue_def)
  ultimately show ?thesis using that q(2) by (auto simp: fmlookup_dom'_iff [of "current (THREADS s)"])
qed

lemma exit_thread_eq:
  assumes "thread_inv s" and "current (THREADS s) \<noteq> BOOTSTRAP_ID"
  shows "exit_thread s = Inr (exited (drain_reaper s), ctx_addr s (hd (ready (THREADS s))))"
proof -
  obtain t n rest where r: "fmlookup (threads (THREADS s)) (current (THREADS s)) = Some t"
    "ready (THREADS s) = n # rest" "n \<noteq> current (THREADS s)"
    "n \<in> insert BOOTSTRAP_ID (fmdom' (threads (THREADS s)))"
    using running_thread [OF assms] by metis
  have "context_of sched n msg = Inr (ctx_addr s n)"
    if "threads sched = fmdrop (current (THREADS s)) (threads (THREADS s))"
      and "bootstrap_context sched = bootstrap_context (THREADS s)" for sched msg
    using r(3,4) that by (auto simp: context_of_def ctx_addr_def fmlookup_dom'_iff)
  then show ?thesis
    using r assms(2)
    by (simp add: exit_thread_def Let_def park_def drain_reaper_facts exited_def)
qed

lemma exited_inv:
  assumes "thread_inv s" and "current (THREADS s) \<noteq> BOOTSTRAP_ID" and "reaper (THREADS s) = None"
  shows "thread_inv (exited s)"
proof -
  obtain t n rest where r: "fmlookup (threads (THREADS s)) (current (THREADS s)) = Some t"
    "ready (THREADS s) = n # rest" "n \<noteq> current (THREADS s)"
    "n \<in> insert BOOTSTRAP_ID (fmdom' (threads (THREADS s)))"
    using running_thread [OF assms(1,2)] by metis
  let ?c = "current (THREADS s)" and ?T = "threads (THREADS s)"
  have d: "fmdom' (fmdrop ?c ?T) = fmdom' ?T - {?c}" by simp
  have c: "?c \<in> fmdom' ?T" using r(1) by (simp add: fmlookup_dom'_iff)
  have "set (run_queue s) = insert BOOTSTRAP_ID (fmdom' ?T)" "distinct (run_queue s)"
    using assms(1) by (simp_all add: thread_inv_def)
  then have dq: "distinct (?c # n # rest)" and sq: "set (?c # n # rest) = insert BOOTSTRAP_ID (fmdom' ?T)"
    using r(2) by (simp_all add: run_queue_def)
  have "set (n # rest) = set (?c # n # rest) - {?c}" using dq by auto
  also have "\<dots> = insert BOOTSTRAP_ID (fmdom' ?T - {?c})"
    unfolding sq using assms(2) by (auto simp: insert_Diff_if)
  finally have q: "set (n # rest) = insert BOOTSTRAP_ID (fmdom' ?T - {?c})"
    "run_queue (exited s) = n # rest" "distinct (n # rest)"
    using r(2) dq by (simp_all only: run_queue_def exited_def) simp_all
  have n: "threads (THREADS (exited s)) = fmdrop ?c ?T" "parked (exited s) = [t]" "parked s = []"
    "released (exited s) = released s" "NEXT_TID (exited s) = NEXT_TID s"
    "SCHEDULER (exited s) = SCHEDULER s"
    using r(1) assms(3) by (simp_all add: exited_def parked_def)
  have t: "kt_id t = ?c" "?c < NEXT_TID s" using thread_invD(4) [OF assms(1)] r(1) by auto
  have fresh: "?c \<notin> kt_id ` set (released s)" using thread_invD(5) [OF assms(1)] c by auto
  have card: "card (fmdom' ?T - {?c}) + 1 = card (fmdom' ?T)"
    using c by (metis One_nat_def Suc_eq_plus1 card.remove finite_fmdom')
  note old = thread_invD [OF assms(1)]
  show ?thesis
    unfolding thread_inv_def thread_count_def n q(2) d
  proof (intro conjI)
    show "\<forall>i u. fmlookup (fmdrop ?c ?T) i = Some u \<longrightarrow> kt_id u = i \<and> i < NEXT_TID s"
      using old(4) by simp
    show "\<forall>u\<in>set ([t] @ released s).
        kt_id u \<notin> insert BOOTSTRAP_ID (fmdom' ?T - {?c}) \<and> kt_id u < NEXT_TID s"
      using old(5) t assms(2) by auto
    show "distinct (map kt_id ([t] @ released s))" using old(6) fresh t(1) n(3) by simp
    show "threads_alive (SCHEDULER s) = of_nat (card (fmdom' ?T - {?c}) + length [t])"
      using old(7) card n(3) by simp
  qed (use q old in simp_all)
qed

lemma exit_thread_inv:
  assumes "thread_inv s" and "current (THREADS s) \<noteq> BOOTSTRAP_ID" and "exit_thread s = Inr (s', n)"
  shows "thread_inv s'"
proof -
  have "s' = exited (drain_reaper s)" using exit_thread_eq [OF assms(1,2)] assms(3) by simp
  then show ?thesis
    using assms(1,2) by (auto intro!: exited_inv drain_reaper_inv simp: drain_reaper_facts)
qed

definition spawned :: "KernelThread \<Rightarrow> thread_state \<Rightarrow> thread_state" where
  "spawned t s = s\<lparr>THREADS := (THREADS s)
      \<lparr>threads := fmupd (kt_id t) t (threads (THREADS s)), ready := ready (THREADS s) @ [kt_id t]\<rparr>,
    NEXT_TID := NEXT_TID s + 1, SCHEDULER := note_thread_spawned (SCHEDULER s)\<rparr>"

lemma next_tid_fresh:
  assumes "thread_inv s"
  shows "NEXT_TID s \<notin> insert BOOTSTRAP_ID (fmdom' (threads (THREADS s)))"
    and "NEXT_TID s \<notin> set (run_queue s)" and "NEXT_TID s \<notin> kt_id ` set (parked s @ released s)"
proof -
  show a: "NEXT_TID s \<notin> insert BOOTSTRAP_ID (fmdom' (threads (THREADS s)))"
    using thread_invD(4) [OF assms, of "NEXT_TID s"] thread_invD(9) [OF assms]
    by (cases "fmlookup (threads (THREADS s)) (NEXT_TID s)")
      (auto simp: fmlookup_dom'_iff BOOTSTRAP_ID_def)
  then show "NEXT_TID s \<notin> set (run_queue s)" using thread_invD(2) [OF assms] by simp
  show "NEXT_TID s \<notin> kt_id ` set (parked s @ released s)" using thread_invD(5) [OF assms]
    by (metis imageE less_irrefl)
qed

lemma spawn_eq:
  assumes "thread_inv s" and "KernelThread_new m (NEXT_TID s) ctx stack entry process = Inr (m', t)"
    and "kt_id t = NEXT_TID s"
  shows "spawn m ctx stack entry process s = Inr (m', spawned t s, NEXT_TID s)"
  using assms next_tid_fresh(1) [OF assms(1)]
  by (simp add: spawn_def spawned_def Let_def fmdom'_alt_def)

lemma less_next: "(i :: u64) < n \<Longrightarrow> n \<noteq> - 1 \<Longrightarrow> i < n + 1" and next_less: "n \<noteq> - 1 \<Longrightarrow> (n :: u64) < n + 1"
proof -
  have "unat (n + 1) = Suc (unat n)" if "n \<noteq> - 1"
    using that unatSuc [of n] by (simp add: add.commute add_eq_0_iff)
  then show "i < n \<Longrightarrow> n \<noteq> - 1 \<Longrightarrow> i < n + 1" "n \<noteq> - 1 \<Longrightarrow> n < n + 1"
    by (simp_all add: word_less_nat_alt)
qed

lemma not_max_word: "unat (n :: u64) + 1 < 2 ^ 64 \<Longrightarrow> n \<noteq> - 1"
proof
  assume "unat n + 1 < 2 ^ 64" and "n = - 1"
  then have "unat (n + 1) = unat n + 1" by (simp only: unat_word_ariths) simp
  with \<open>n = - 1\<close> show False by simp
qed

lemma spawned_inv:
  assumes "thread_inv s" and "kt_id t = NEXT_TID s" and "NEXT_TID s \<noteq> - 1"
  shows "thread_inv (spawned t s)"
proof -
  let ?n = "NEXT_TID s" and ?T = "threads (THREADS s)"
  note f = next_tid_fresh [OF assms(1)]
  have n: "run_queue (spawned t s) = run_queue s @ [?n]" "parked (spawned t s) = parked s"
    "threads (THREADS (spawned t s)) = fmupd ?n t ?T" "released (spawned t s) = released s"
    "NEXT_TID (spawned t s) = ?n + 1"
    "threads_alive (SCHEDULER (spawned t s)) = threads_alive (SCHEDULER s) + 1"
    "threads_spawned (SCHEDULER (spawned t s)) = threads_spawned (SCHEDULER s) + 1"
    using assms(2) by (simp_all add: spawned_def run_queue_def parked_def counter_defs)
  have d: "fmdom' (fmupd ?n t ?T) = insert ?n (fmdom' ?T)" by simp
  have card: "card (insert ?n (fmdom' ?T)) = card (fmdom' ?T) + 1" using f(1) by simp
  note old = thread_invD [OF assms(1)]
  show ?thesis
    unfolding thread_inv_def thread_count_def n d card
  proof (intro conjI)
    show "distinct (run_queue s @ [?n])" using old(1) f(2) by simp
    show "set (run_queue s @ [?n]) = insert BOOTSTRAP_ID (insert ?n (fmdom' ?T))"
      using old(2) by auto
    show "BOOTSTRAP_ID \<notin> insert ?n (fmdom' ?T)" using old(3) f(1) by auto
    show "\<forall>i u. fmlookup (fmupd ?n t ?T) i = Some u \<longrightarrow> kt_id u = i \<and> i < ?n + 1"
      using old(4) assms(2,3) by (auto simp: less_next next_less)
    show "\<forall>u\<in>set (parked s @ released s).
        kt_id u \<notin> insert BOOTSTRAP_ID (insert ?n (fmdom' ?T)) \<and> kt_id u < ?n + 1"
      using old(5) f(3) assms(3) less_next by (metis image_eqI insert_iff)
    show "?n + 1 \<noteq> 0" using assms(3) by (simp add: add_eq_0_iff2)
  qed (use old in simp_all)
qed

lemma KernelThread_new_id:
  "KernelThread_new m tid ctx stack entry process = Inr (m', t) \<Longrightarrow>
    t = \<lparr>kt_id = tid, kt_process = process, kt_context = ctx, kt_stack = stack\<rparr>"
  by (auto simp: KernelThread_new_def Let_def bind_res_eq_Inr split: prod.splits)

lemma spawn_inv:
  assumes "thread_inv s" and "spawn m ctx stack entry process s = Inr (m', s', i)"
    and "NEXT_TID s \<noteq> - 1"
  shows "thread_inv s'"
proof -
  obtain t where "KernelThread_new m (NEXT_TID s) ctx stack entry process = Inr (m', t)"
    using assms(2) by (auto simp: spawn_def Let_def bind_res_eq_Inr split: prod.splits)
  moreover from this have "kt_id t = NEXT_TID s" by (drule_tac KernelThread_new_id) simp
  ultimately show ?thesis using spawn_eq [OF assms(1)] spawned_inv [OF assms(1)] assms(2,3) by auto
qed

section \<open>Reachable scheduler states\<close>

text \<open>
  The system as a transition relation: any thread may spawn (as long as the 64-bit id counter
  has not run out and the heap provides a stack below the top of the address space), yield, or,
  unless it is the bootstrap thread, exit.
\<close>

inductive thread_reachable :: "u64 \<Rightarrow> thread_state \<Rightarrow> bool" for boot_ctx where
  init: "thread_reachable boot_ctx (thread_init boot_ctx)"
| spawn: "thread_reachable boot_ctx s \<Longrightarrow> NEXT_TID s \<noteq> - 1 \<Longrightarrow>
    spawn m ctx stack entry process s = Inr (m', s', i) \<Longrightarrow> thread_reachable boot_ctx s'"
| yield: "thread_reachable boot_ctx s \<Longrightarrow> yield_now s = Inr (s', sw) \<Longrightarrow> thread_reachable boot_ctx s'"
| exit: "thread_reachable boot_ctx s \<Longrightarrow> current (THREADS s) \<noteq> BOOTSTRAP_ID \<Longrightarrow>
    exit_thread s = Inr (s', n) \<Longrightarrow> thread_reachable boot_ctx s'"

lemma reachable_inv: "thread_reachable boot_ctx s \<Longrightarrow> thread_inv s"
proof (induction rule: thread_reachable.induct)
  case init
  show ?case by (rule thread_inv_init)
qed (blast intro: yield_now_inv exit_thread_inv spawn_inv)+

section \<open>Round-robin queues\<close>

text \<open>
  The contract of a round-robin scheduler: a yield succeeds and turns the queue of runnable
  entities by one position. Fairness follows from the contract alone.
\<close>

locale round_robin =
  fixes inv :: "'s \<Rightarrow> bool" and queue :: "'s \<Rightarrow> 'i list" and yield :: "'s \<Rightarrow> 's res"
  assumes yield_turns: "inv s \<Longrightarrow> \<exists>s'. yield s = Inr s' \<and> inv s' \<and> queue s' = rotate1 (queue s)"
begin

lemma yields_rotate:
  assumes "inv s"
  shows "\<exists>s'. iter_res k yield s = Inr s' \<and> inv s' \<and> queue s' = rotate k (queue s)"
proof (induction k)
  case (Suc k)
  then obtain s' where "iter_res k yield s = Inr s'" "inv s'" "queue s' = rotate k (queue s)" by blast
  then show ?case using yield_turns [of s'] by auto
qed (simp add: assms)

lemma runs_within:
  assumes "inv s" and "i \<in> set (queue s)"
  obtains j s' where "j < length (queue s)" and "iter_res j yield s = Inr s'" and "hd (queue s') = i"
proof -
  obtain j where j: "j < length (queue s)" "queue s ! j = i"
    using assms(2) by (metis in_set_conv_nth)
  moreover obtain s' where "iter_res j yield s = Inr s'" "queue s' = rotate j (queue s)"
    using yields_rotate [OF assms(1), of j] by blast
  moreover have "queue s \<noteq> []" using j(1) by auto
  then have "hd (rotate j (queue s)) = i" using j by (simp add: hd_rotate_conv_nth)
  ultimately show ?thesis using that by metis
qed

end

definition yield_once :: "thread_state \<Rightarrow> thread_state res" where
  "yield_once s = bind_res (yield_now s) (\<lambda>(s, _). Inr s)"

lemma run_queue_drain [simp]: "run_queue (drain_reaper s) = run_queue s"
  by (simp add: run_queue_def drain_reaper_facts)

lemma yield_once_eq: "thread_inv s \<Longrightarrow> yield_once s = Inr (turned (drain_reaper s))"
  by (simp add: yield_once_def yield_now_eq)

interpretation rr: round_robin thread_inv run_queue yield_once
proof unfold_locales
  fix s assume "thread_inv s"
  then show "\<exists>s'. yield_once s = Inr s' \<and> thread_inv s' \<and> run_queue s' = rotate1 (run_queue s)"
    by (simp add: yield_once_eq turned_inv drain_reaper_inv)
qed

text \<open>The scheduler's operations leave the process counters alone.\<close>

lemma thread_calls_processes:
  "processes_alive (SCHEDULER (turned s)) = processes_alive (SCHEDULER s)"
  "processes_spawned (SCHEDULER (turned s)) = processes_spawned (SCHEDULER s)"
  "processes_alive (SCHEDULER (exited s)) = processes_alive (SCHEDULER s)"
  "processes_spawned (SCHEDULER (exited s)) = processes_spawned (SCHEDULER s)"
  "processes_alive (SCHEDULER (spawned t s)) = processes_alive (SCHEDULER s)"
  "processes_spawned (SCHEDULER (spawned t s)) = processes_spawned (SCHEDULER s)"
  by (simp_all add: turned_def exited_def spawned_def counter_defs)

lemma drain_reaper_processes:
  "processes_alive (SCHEDULER (drain_reaper s)) = processes_alive (SCHEDULER s)"
  "processes_spawned (SCHEDULER (drain_reaper s)) = processes_spawned (SCHEDULER s)"
  by (auto simp: drain_reaper_def counter_defs split: option.splits)

section \<open>Properties\<close>

text \<open>
  C4: In every reachable state the scheduler keeps its books: the running thread and the ready
  queue hold the bootstrap thread and every tracked thread exactly once, no parked or
  released thread can ever run again, and the counter of live threads is the number of
  tracked threads plus the parked one. None of its panics is reachable: \<open>yield_now\<close> returns,
  \<open>exit_thread\<close> called by a spawned thread finds a successor, and \<open>spawn\<close> returns a fresh id.
\<close>

theorem scheduler_never_panics:
  assumes "thread_reachable boot_ctx s"
  shows "distinct (run_queue s) \<and>
    set (run_queue s) = insert BOOTSTRAP_ID (fmdom' (threads (THREADS s))) \<and>
    (\<forall>t \<in> set (parked s @ released s). kt_id t \<notin> set (run_queue s)) \<and>
    threads_alive (SCHEDULER s) = of_nat (thread_count s + length (parked s)) \<and>
    (\<exists>s' sw. yield_now s = Inr (s', sw)) \<and>
    (current (THREADS s) \<noteq> BOOTSTRAP_ID \<longrightarrow> (\<exists>s' n. exit_thread s = Inr (s', n))) \<and>
    (unat stack + STACK_SIZE < 2 ^ 64 \<and> separate ctx 8 stack STACK_SIZE \<longrightarrow>
      (\<exists>m' s' i. spawn m ctx stack entry process s = Inr (m', s', i) \<and> i \<notin> set (run_queue s)))"
proof -
  note inv = reachable_inv [OF assms]
  have "\<exists>m' s' i. spawn m ctx stack entry process s = Inr (m', s', i) \<and> i \<notin> set (run_queue s)"
    if ok: "unat stack + STACK_SIZE < 2 ^ 64" "separate ctx 8 stack STACK_SIZE"
  proof -
    obtain m' where "KernelThread_new m (NEXT_TID s) ctx stack entry process = Inr (m',
        \<lparr>kt_id = NEXT_TID s, kt_process = process, kt_context = ctx, kt_stack = stack\<rparr>)"
      using KernelThread_new_suspended [OF ok] by metis
    from spawn_eq [OF inv this] show ?thesis using next_tid_fresh(2) [OF inv] by auto
  qed
  moreover have "\<forall>t \<in> set (parked s @ released s). kt_id t \<notin> set (run_queue s)"
    using thread_invD(2,5) [OF inv] by simp
  ultimately show ?thesis
    using thread_invD(1,2,7) [OF inv] yield_now_eq [OF inv] exit_thread_eq [OF inv]
    by (auto simp: thread_count_def)
qed

theorem scheduler_never_panics_witness:
  "\<exists>m s i s' sw. spawn (\<lambda>_. 0) 0x100 0x8000 0xCAFE 7 (thread_init 0x9000) = Inr (m, s, i) \<and>
    i \<noteq> BOOTSTRAP_ID \<and> yield_now s = Inr (s', sw)"
proof -
  let ?s = "thread_init 0x9000"
  have "unat (0x8000 :: u64) + STACK_SIZE < 2 ^ 64" "separate 0x100 8 0x8000 STACK_SIZE"
    by (simp_all add: STACK_SIZE_def separate_def)
  with scheduler_never_panics [OF thread_reachable.init [of "0x9000"], of "0x8000" "0x100" "\<lambda>_. 0"
      "0xCAFE" 7]
  obtain m s i where s: "spawn (\<lambda>_. 0) 0x100 0x8000 0xCAFE 7 ?s = Inr (m, s, i)"
    "i \<notin> set (run_queue ?s)" "set (run_queue ?s) = insert BOOTSTRAP_ID (fmdom' (threads (THREADS ?s)))"
    by metis
  have "NEXT_TID ?s \<noteq> - 1" by (simp add: thread_init_def)
  from thread_reachable.spawn [OF thread_reachable.init this s(1)]
  have "thread_reachable 0x9000 s" .
  from scheduler_never_panics [OF this, of 0 0 "\<lambda>_. 0" 0 0]
  obtain s' sw where "yield_now s = Inr (s', sw)" by metis
  then show ?thesis using s by blast
qed

text \<open>
  C29: Scheduling is round-robin: k yields succeed and turn the queue of the running and the
  ready threads by k positions. So from any reachable state every tracked thread runs within
  as many yields as there are ready threads, whatever the order in which they were spawned.
\<close>

theorem yield_round_robin:
  assumes "thread_reachable boot_ctx s"
  shows "(\<exists>s'. iter_res k yield_once s = Inr s' \<and> run_queue s' = rotate k (run_queue s)) \<and>
    (\<forall>i \<in> fmdom' (threads (THREADS s)).
      \<exists>j \<le> ready_count s. \<exists>s'. iter_res j yield_once s = Inr s' \<and> current_id s' = i)"
proof (intro conjI ballI)
  note inv = reachable_inv [OF assms]
  show "\<exists>s'. iter_res k yield_once s = Inr s' \<and> run_queue s' = rotate k (run_queue s)"
    using rr.yields_rotate [OF inv, of k] by blast
  fix i assume "i \<in> fmdom' (threads (THREADS s))"
  then have "i \<in> set (run_queue s)" using thread_invD(2) [OF inv] by simp
  from rr.runs_within [OF inv this]
  obtain j s' where "j < length (run_queue s)" "iter_res j yield_once s = Inr s'"
    "hd (run_queue s') = i" .
  then show "\<exists>j \<le> ready_count s. \<exists>s'. iter_res j yield_once s = Inr s' \<and> current_id s' = i"
    by (intro exI [of _ j]) (auto simp: run_queue_def ready_count_def current_id_def)
qed

theorem yield_round_robin_witness:
  "\<exists>s'. iter_res 5 yield_once (thread_init 0x9000) = Inr s' \<and> run_queue s' = rotate 5 [0]"
proof -
  have "run_queue (thread_init 0x9000) = [0]"
    by (simp add: run_queue_def thread_init_def ThreadScheduler_new_def BOOTSTRAP_ID_def)
  then show ?thesis
    using yield_round_robin [OF thread_reachable.init [of "0x9000"], of 5, THEN conjunct1] by simp
qed

text \<open>A concrete reachable state: one spawned thread of process 7 is running.\<close>

definition one_running :: thread_state where
  "one_running =
    \<lparr>THREADS = \<lparr>threads = fmupd 1 \<lparr>kt_id = 1, kt_process = 7, kt_context = 0x100, kt_stack = 0x8000\<rparr>
        fmempty, ready = [0], current = 1, bootstrap_context = 0x9000, reaper = None\<rparr>,
     NEXT_TID = 2, SCHEDULER = Scheduler_new\<lparr>threads_alive := 1, threads_spawned := 1\<rparr>,
     released = []\<rparr>"

lemma one_running_reachable: "thread_reachable 0x9000 one_running"
proof -
  let ?s = "thread_init 0x9000"
  let ?t = "\<lparr>kt_id = 1, kt_process = 7, kt_context = 0x100, kt_stack = 0x8000\<rparr>"
  have "unat (0x8000 :: u64) + STACK_SIZE < 2 ^ 64" "separate 0x100 8 0x8000 STACK_SIZE"
    by (simp_all add: STACK_SIZE_def separate_def)
  then obtain m' where "KernelThread_new (\<lambda>_. 0) 1 0x100 0x8000 0xCAFE 7 = Inr (m', ?t)"
    using KernelThread_new_suspended by metis
  then have "spawn (\<lambda>_. 0) 0x100 0x8000 0xCAFE 7 ?s = Inr (m', spawned ?t ?s, 1)"
    using spawn_eq [OF thread_inv_init] by (simp add: thread_init_def)
  moreover have "NEXT_TID ?s \<noteq> - 1" by (simp add: thread_init_def)
  ultimately have r: "thread_reachable 0x9000 (spawned ?t ?s)"
    using thread_reachable.spawn [OF thread_reachable.init] by blast
  have "turned (drain_reaper (spawned ?t ?s)) = one_running"
    by (simp add: turned_def drain_reaper_def spawned_def thread_init_def ThreadScheduler_new_def
        run_queue_def one_running_def counter_defs Scheduler_new_def BOOTSTRAP_ID_def)
  then show ?thesis
    using thread_reachable.yield [OF r yield_now_eq [OF reachable_inv [OF r]]] by simp
qed

text \<open>
  C30: \<open>exit_thread\<close> tears a thread down safely: the exiting thread leaves the scheduler at once
  but its box is only parked, so the stack it still runs on stays allocated across the switch;
  the context it switches to belongs to the thread that runs next; and the first yield after
  it, on that other stack, releases exactly this box and counts the thread as exited.
\<close>

theorem exit_thread_defers_release:
  assumes "thread_reachable boot_ctx s" and "current (THREADS s) \<noteq> BOOTSTRAP_ID"
  shows "\<exists>s' t s'' sw. exit_thread s = Inr (s', ctx_addr s' (current (THREADS s'))) \<and>
    fmlookup (threads (THREADS s)) (current (THREADS s)) = Some t \<and>
    run_queue s' = ready (THREADS s) \<and> reaper (THREADS s') = Some t \<and>
    t \<notin> set (released s') \<and> kt_id t \<notin> set (run_queue s') \<and>
    yield_now s' = Inr (s'', sw) \<and> released s'' = released s' @ [t] \<and> reaper (THREADS s'') = None \<and>
    threads_alive (SCHEDULER s'') = threads_alive (SCHEDULER s') - 1"
proof -
  note inv = reachable_inv [OF assms(1)]
  obtain t n rest where r: "fmlookup (threads (THREADS s)) (current (THREADS s)) = Some t"
    "ready (THREADS s) = n # rest" "n \<noteq> current (THREADS s)"
    using running_thread [OF inv assms(2)] by metis
  define s' where "s' = exited (drain_reaper s)"
  have e: "exit_thread s = Inr (s', ctx_addr s n)"
    using exit_thread_eq [OF inv assms(2)] r(2) by (simp add: s'_def)
  have inv': "thread_inv s'" using exit_thread_inv [OF inv assms(2) e] .
  have f: "run_queue s' = n # rest" "reaper (THREADS s') = Some t" "current (THREADS s') = n"
    "parked s' = [t]" "ctx_addr s' n = ctx_addr s n"
    using r by (simp_all add: s'_def exited_def drain_reaper_facts run_queue_def parked_def ctx_addr_def)
  moreover have "kt_id t \<notin> set (run_queue s')" "t \<notin> set (released s')"
    using thread_invD(2,5,6) [OF inv'] f(4) by auto
  moreover have "released (turned (drain_reaper s')) = released s' @ [t]"
    "reaper (THREADS (turned (drain_reaper s'))) = None"
    "threads_alive (SCHEDULER (turned (drain_reaper s'))) = threads_alive (SCHEDULER s') - 1"
    using f(4) by (simp_all add: turned_def drain_reaper_facts)
  ultimately show ?thesis using e r yield_now_eq [OF inv'] by auto
qed

theorem exit_thread_defers_release_witness:
  "\<exists>s' s'' sw. exit_thread one_running = Inr (s', 0x9000) \<and> run_queue s' = [0] \<and>
    yield_now s' = Inr (s'', sw) \<and> map kt_stack (released s'') = [0x8000]"
proof -
  have "current (THREADS one_running) \<noteq> BOOTSTRAP_ID" by (simp add: one_running_def BOOTSTRAP_ID_def)
  from exit_thread_defers_release [OF one_running_reachable this] obtain s' t s'' sw
    where w: "exit_thread one_running = Inr (s', ctx_addr s' (current (THREADS s')))"
      "fmlookup (threads (THREADS one_running)) (current (THREADS one_running)) = Some t"
      "run_queue s' = ready (THREADS one_running)" "yield_now s' = Inr (s'', sw)"
      "released s'' = released s' @ [t]"
    by metis
  have "exit_thread one_running = Inr (s, n) \<Longrightarrow> n = 0x9000 \<and> released s = []" for s n
    by (auto simp: exit_thread_def Let_def drain_reaper_def one_running_def park_def context_of_def
        BOOTSTRAP_ID_def)
  then have "ctx_addr s' (current (THREADS s')) = 0x9000" "released s' = []" using w(1) by blast+
  moreover have "run_queue s' = [0]" "kt_stack t = 0x8000"
    using w(2,3) by (auto simp: one_running_def)
  ultimately show ?thesis using w(1,4,5) by auto
qed

end
