(* ===== verification/External_Interfaces.thy ===== *)
theory External_Interfaces
  imports Apogee_Prelude
begin

text \<open>
  Third-party types that the kernel calls through a small interface, as contracts.

  \<open>ArrayQueue\<close> of \<open>crossbeam-queue\<close> is a bounded first-in first-out queue: \<open>push\<close> fails exactly
  when the queue is full. \<open>AtomicWaker\<close> of \<open>futures-util\<close> is a slot for one waker: \<open>register\<close>
  fills it and \<open>take\<close> empties it. The definitions of the kernel take the operations as an
  argument; the locales state the documented behaviour over an abstraction function, and the
  client lemmas are proved from it. The interpretations on lists and options are the reference
  semantics, which is also what the concrete runs of the development use.
\<close>

section \<open>Bounded queues\<close>

record ('a, 'q) queue_ops =
  q_new :: "nat \<Rightarrow> 'q"
  q_push :: "'a \<Rightarrow> 'q \<Rightarrow> 'q option"  \<comment> \<open>\<open>None\<close> is the error of a full queue\<close>
  q_pop :: "'q \<Rightarrow> ('a \<times> 'q) option"
  q_is_empty :: "'q \<Rightarrow> bool"

locale array_queue =
  fixes Q :: "('a, 'q) queue_ops" and capacity :: "'q \<Rightarrow> nat" and contents :: "'q \<Rightarrow> 'a list"
  assumes new_contents: "0 < n \<Longrightarrow> contents (q_new Q n) = [] \<and> capacity (q_new Q n) = n"
    and push_contents: "map_option contents (q_push Q x q) =
      (if length (contents q) < capacity q then Some (contents q @ [x]) else None)"
    and push_capacity: "q_push Q x q = Some q' \<Longrightarrow> capacity q' = capacity q"
    and pop_contents: "map_option (map_prod id contents) (q_pop Q q) =
      (case contents q of [] \<Rightarrow> None | x # xs \<Rightarrow> Some (x, xs))"
    and pop_capacity: "q_pop Q q = Some (x, q') \<Longrightarrow> capacity q' = capacity q"
    and is_empty_contents: "q_is_empty Q q \<longleftrightarrow> contents q = []"
begin

lemma push_Some_D:
  "q_push Q x q = Some q' \<Longrightarrow>
    contents q' = contents q @ [x] \<and> length (contents q) < capacity q \<and> capacity q' = capacity q"
  using push_contents [of x q] push_capacity [of x q q'] by (simp split: if_splits)

lemma push_None_iff: "q_push Q x q = None \<longleftrightarrow> capacity q \<le> length (contents q)"
  using push_contents [of x q] by (auto split: if_splits)

lemma pushE:
  assumes "length (contents q) < capacity q"
  obtains q' where "q_push Q x q = Some q'" and "contents q' = contents q @ [x]"
    and "capacity q' = capacity q"
  using push_contents [of x q] push_capacity [of x q] assms by auto

lemma pop_None_iff: "q_pop Q q = None \<longleftrightarrow> contents q = []"
  using pop_contents [of q] by (auto split: list.splits)

lemma pop_Some_D: "q_pop Q q = Some (x, q') \<Longrightarrow> contents q = x # contents q' \<and> capacity q' = capacity q"
  using pop_contents [of q] pop_capacity [of q x q'] by (auto split: list.splits)

lemma popE:
  assumes "contents q = x # xs"
  obtains q' where "q_pop Q q = Some (x, q')" and "contents q' = xs" and "capacity q' = capacity q"
  using pop_contents [of q] pop_capacity [of q x] assms by auto

end

definition list_queue :: "('a, nat \<times> 'a list) queue_ops" where
  "list_queue =
    \<lparr>q_new = (\<lambda>n. (n, [])),
     q_push = (\<lambda>x (n, q). if length q < n then Some (n, q @ [x]) else None),
     q_pop = (\<lambda>(n, q). case q of [] \<Rightarrow> None | x # xs \<Rightarrow> Some (x, (n, xs))),
     q_is_empty = (\<lambda>(n, q). q = [])\<rparr>"

interpretation lq: array_queue list_queue fst snd
  by unfold_locales (auto simp: list_queue_def split: list.splits if_splits)

section \<open>Waker slots\<close>

record ('w, 's) waker_ops =
  w_new :: 's
  w_register :: "'w \<Rightarrow> 's \<Rightarrow> 's"
  w_take :: "'s \<Rightarrow> 'w option \<times> 's"

locale atomic_waker =
  fixes W :: "('w, 's) waker_ops" and slot :: "'s \<Rightarrow> 'w option"
  assumes new_slot: "slot (w_new W) = None"
    and register_slot: "slot (w_register W w s) = Some w"
    and take_slot: "fst (w_take W s) = slot s" "slot (snd (w_take W s)) = None"

definition option_waker :: "('w, 'w option) waker_ops" where
  "option_waker = \<lparr>w_new = None, w_register = (\<lambda>w _. Some w), w_take = (\<lambda>s. (s, None))\<rparr>"

interpretation ow: atomic_waker option_waker "\<lambda>s. s"
  by unfold_locales (simp_all add: option_waker_def)

end
