(* ===== verification/Vga_Buffer.thy ===== *)
theory Vga_Buffer
  imports Apogee_Prelude
begin

text \<open>
  The VGA text console (\<open>src/src/vga_buffer.rs\<close>). The memory-mapped buffer is a list of rows
  of cells; every access checks its indices, as Rust's array indexing does, so an access out
  of bounds is a panic of the model. The writer's lock is taken with interrupts off around
  each call, so a call is one step. \<open>print\<close> receives the formatted text as its UTF-8 bytes.
\<close>

section \<open>The model\<close>

definition BUFFER_HEIGHT :: nat where
  "BUFFER_HEIGHT = 25"

definition BUFFER_WIDTH :: nat where
  "BUFFER_WIDTH = 80"

datatype Color =
    Black | Blue | Green | Cyan | Red | Magenta | Brown | LightGray
  | DarkGray | LightBlue | LightGreen | LightCyan | LightRed | Pink | Yellow | White

fun color_u8 :: "Color \<Rightarrow> u8" where
  "color_u8 Black = 0" | "color_u8 Blue = 1" | "color_u8 Green = 2" | "color_u8 Cyan = 3"
| "color_u8 Red = 4" | "color_u8 Magenta = 5" | "color_u8 Brown = 6" | "color_u8 LightGray = 7"
| "color_u8 DarkGray = 8" | "color_u8 LightBlue = 9" | "color_u8 LightGreen = 10"
| "color_u8 LightCyan = 11" | "color_u8 LightRed = 12" | "color_u8 Pink = 13"
| "color_u8 Yellow = 14" | "color_u8 White = 15"

definition DEFAULT_FOREGROUND :: Color where
  "DEFAULT_FOREGROUND = LightGray"

definition DEFAULT_BACKGROUND :: Color where
  "DEFAULT_BACKGROUND = Black"

definition ColorCode_new :: "Color \<Rightarrow> Color \<Rightarrow> u8" where
  "ColorCode_new foreground background = push_bit 4 (color_u8 background) OR color_u8 foreground"

record ScreenChar =
  ascii_character :: u8
  char_color :: u8

type_synonym Buffer = "ScreenChar list list"

record Writer =
  column_position :: usize
  color_code :: u8
  buffer :: Buffer

definition WRITER_init :: "Buffer \<Rightarrow> Writer" where
  "WRITER_init b =
    \<lparr>column_position = 0, color_code = ColorCode_new DEFAULT_FOREGROUND DEFAULT_BACKGROUND, buffer = b\<rparr>"

definition set_color :: "Color \<Rightarrow> Color \<Rightarrow> Writer \<Rightarrow> Writer" where
  "set_color foreground background w = w\<lparr>color_code := ColorCode_new foreground background\<rparr>"

definition reset_color :: "Writer \<Rightarrow> Writer" where
  "reset_color w = set_color DEFAULT_FOREGROUND DEFAULT_BACKGROUND w"

definition cell_read :: "Buffer \<Rightarrow> nat \<Rightarrow> nat \<Rightarrow> ScreenChar res" where
  "cell_read b row col = bind_res (index_res b row) (\<lambda>r. index_res r col)"

definition cell_write :: "nat \<Rightarrow> nat \<Rightarrow> ScreenChar \<Rightarrow> Buffer \<Rightarrow> Buffer res" where
  "cell_write row col c b =
    bind_res (index_res b row) (\<lambda>r. bind_res (index_res r col) (\<lambda>_. Inr (b[row := r[col := c]])))"

definition clear_row :: "nat \<Rightarrow> Writer \<Rightarrow> Writer res" where
  "clear_row row w =
    (let blank = \<lparr>ascii_character = 0x20, char_color = color_code w\<rparr> in
     bind_res (for_res (\<lambda>col. cell_write row col blank) [0..<BUFFER_WIDTH] (buffer w))
       (\<lambda>b. Inr (w\<lparr>buffer := b\<rparr>)))"

definition copy_up :: "nat \<Rightarrow> nat \<Rightarrow> Buffer \<Rightarrow> Buffer res" where
  "copy_up row col b = bind_res (cell_read b row col) (\<lambda>c. cell_write (row - 1) col c b)"

definition new_line :: "Writer \<Rightarrow> Writer res" where
  "new_line w =
    bind_res (for_res (\<lambda>row. for_res (copy_up row) [0..<BUFFER_WIDTH]) [1..<BUFFER_HEIGHT] (buffer w)) (\<lambda>b.
    bind_res (clear_row (BUFFER_HEIGHT - 1) (w\<lparr>buffer := b\<rparr>)) (\<lambda>w.
    Inr (w\<lparr>column_position := 0\<rparr>)))"

definition write_byte :: "u8 \<Rightarrow> Writer \<Rightarrow> Writer res" where
  "write_byte byte w =
    (if byte = 0x0a then new_line w
     else
       bind_res (if BUFFER_WIDTH \<le> column_position w then new_line w else Inr w) (\<lambda>w.
       let row = BUFFER_HEIGHT - 1; col = column_position w in
       bind_res (cell_write row col \<lparr>ascii_character = byte, char_color = color_code w\<rparr> (buffer w)) (\<lambda>b.
       bind_res (usize_add col 1) (\<lambda>col'.
       Inr (w\<lparr>buffer := b, column_position := col'\<rparr>)))))"

definition write_string :: "u8 list \<Rightarrow> Writer \<Rightarrow> Writer res" where
  "write_string s w =
    for_res (\<lambda>byte. write_byte (if 0x20 \<le> byte \<and> byte \<le> 0x7e \<or> byte = 0x0a then byte else 0xfe)) s w"

definition vga_print :: "u8 list \<Rightarrow> Writer \<Rightarrow> Writer res" where
  "vga_print s w = write_string s w"

definition vga_println :: "u8 list \<Rightarrow> Writer \<Rightarrow> Writer res" where
  "vga_println s w = vga_print (s @ [0x0a]) w"

section \<open>Well-formed screens\<close>

definition vga_wf :: "Writer \<Rightarrow> bool" where
  "vga_wf w \<longleftrightarrow> length (buffer w) = 25 \<and> (\<forall>r \<in> set (buffer w). length r = 80) \<and> column_position w \<le> 80"

definition blank_row :: "u8 \<Rightarrow> ScreenChar list" where
  "blank_row color = replicate 80 \<lparr>ascii_character = 0x20, char_color = color\<rparr>"

lemma cell_write_ok:
  "row < length b \<Longrightarrow> col < length (b ! row) \<Longrightarrow>
    cell_write row col c b = Inr (b[row := (b ! row)[col := c]])"
  by (simp add: cell_write_def index_res_def)

text \<open>A loop over the columns of a row that writes \<open>f col\<close> everywhere.\<close>

lemma fill_row:
  assumes "row < length b" and "k \<le> length (b ! row)"
    and "\<And>col b'. col < k \<Longrightarrow> length b' = length b \<Longrightarrow> (\<forall>i < length b. i \<noteq> row \<longrightarrow> b' ! i = b ! i) \<Longrightarrow>
      length (b' ! row) = length (b ! row) \<Longrightarrow> g col b' = cell_write row col (f col) b'"
  shows "for_res g [0..<k] b = Inr (b[row := map f [0..<k] @ drop k (b ! row)])"
  using assms
proof (induction k)
  case 0
  then show ?case by simp
next
  case (Suc k)
  let ?b = "b[row := map f [0..<k] @ drop k (b ! row)]"
  have "for_res g [0..<k] b = Inr ?b" using Suc by simp
  moreover have "g k ?b = cell_write row k (f k) ?b" using Suc.prems by simp
  moreover have "(map f [0..<k] @ drop k (b ! row))[k := f k] = map f [0..<Suc k] @ drop (Suc k) (b ! row)"
    using Suc.prems(2) by (simp add: list_update_append Cons_nth_drop_Suc [symmetric])
  ultimately show ?case
    using Suc.prems(1,2) by (simp add: for_res_append cell_write_ok)
qed

lemma clear_row_eq:
  assumes "vga_wf w" and "row < 25"
  shows "clear_row row w = Inr (w\<lparr>buffer := (buffer w)[row := blank_row (color_code w)]\<rparr>)"
proof -
  let ?blank = "\<lparr>ascii_character = 0x20, char_color = color_code w\<rparr>"
  have "for_res (\<lambda>col. cell_write row col ?blank) [0..<80] (buffer w) =
      Inr ((buffer w)[row := map (\<lambda>_. ?blank) [0..<80] @ drop 80 (buffer w ! row)])"
    using assms by (intro fill_row) (simp_all add: vga_wf_def)
  moreover have "map (\<lambda>_. ?blank) [0..<80] @ drop 80 (buffer w ! row) = blank_row (color_code w)"
    using assms by (simp add: vga_wf_def blank_row_def map_replicate_const)
  ultimately show ?thesis by (simp add: clear_row_def BUFFER_WIDTH_def)
qed

lemma copy_row_up:
  assumes "Suc row < length b" and "length (b ! row) = 80" and "length (b ! Suc row) = 80"
  shows "for_res (copy_up (Suc row)) [0..<80] b = Inr (b[row := b ! Suc row])"
proof -
  have "for_res (copy_up (Suc row)) [0..<80] b =
      Inr (b[row := map (\<lambda>col. b ! Suc row ! col) [0..<80] @ drop 80 (b ! row)])"
    using assms by (intro fill_row) (simp_all add: copy_up_def cell_read_def index_res_def)
  moreover have "map (\<lambda>col. b ! Suc row ! col) [0..<80] = b ! Suc row"
    using assms(3) map_nth [of "b ! Suc row"] by simp
  ultimately show ?thesis using assms(2) by simp
qed

lemma scroll_loop:
  assumes "k < length b" and "\<forall>r \<in> set b. length r = 80"
  shows "for_res (\<lambda>row. for_res (copy_up row) [0..<80]) [1..<Suc k] b =
    Inr (take k (tl b) @ drop k b)"
  using assms(1)
proof (induction k)
  case (Suc k)
  let ?b = "take k (tl b) @ drop k b"
  have n: "?b ! k = b ! k" "?b ! Suc k = b ! Suc k" "length ?b = length b"
    using Suc.prems by (simp_all add: nth_append)
  have "length (b ! k) = 80" "length (b ! Suc k) = 80" using assms(2) Suc.prems by simp_all
  then have "for_res (copy_up (Suc k)) [0..<80] ?b = Inr (?b[k := b ! Suc k])"
    using copy_row_up [of k ?b] n Suc.prems by simp
  moreover have "?b[k := b ! Suc k] = take (Suc k) (tl b) @ drop (Suc k) b"
    using Suc.prems
    by (simp add: list_update_append take_Suc_conv_app_nth nth_tl Cons_nth_drop_Suc [symmetric])
  ultimately show ?case using Suc by (simp add: for_res_append)
qed simp

text \<open>Scrolling drops the top row and appends a blank one.\<close>

lemma new_line_eq:
  assumes "vga_wf w"
  shows "new_line w = Inr (w\<lparr>buffer := tl (buffer w) @ [blank_row (color_code w)], column_position := 0\<rparr>)"
proof -
  let ?b = "take 24 (tl (buffer w)) @ drop 24 (buffer w)"
  have wf: "length (buffer w) = 25" "\<forall>r \<in> set (buffer w). length r = 80" "column_position w \<le> 80"
    using assms by (simp_all add: vga_wf_def)
  have "for_res (\<lambda>row. for_res (copy_up row) [0..<80]) [1..<25] (buffer w) = Inr ?b"
    using scroll_loop [of 24 "buffer w"] wf by (simp del: upt_Suc)
  moreover have "set ?b \<subseteq> set (buffer w)"
    by (auto dest!: in_set_takeD in_set_dropD intro: list.set_sel(2))
  then have "vga_wf (w\<lparr>buffer := ?b\<rparr>)" using wf by (auto simp: vga_wf_def)
  from clear_row_eq [OF this, of 24]
  have "clear_row 24 (w\<lparr>buffer := ?b\<rparr>) = Inr (w\<lparr>buffer := ?b[24 := blank_row (color_code w)]\<rparr>)" by simp
  moreover have "?b[24 := blank_row (color_code w)] = tl (buffer w) @ [blank_row (color_code w)]"
    using wf(1) by (simp add: list_update_append Cons_nth_drop_Suc [symmetric])
  ultimately show ?thesis by (simp add: new_line_def BUFFER_WIDTH_def BUFFER_HEIGHT_def)
qed

lemma new_line_wf:
  assumes "vga_wf w" shows "vga_wf (w\<lparr>buffer := tl (buffer w) @ [blank_row (color_code w)], column_position := 0\<rparr>)"
  using assms by (auto simp: vga_wf_def blank_row_def dest: list.set_sel(2) [rotated])

section \<open>A terminal with unbounded scrollback\<close>

text \<open>
  The specification: a terminal that never forgets a row. Its state is the list of all rows,
  the last one being written, and the column. The console is meant to show the last 25 rows.
\<close>

type_synonym terminal = "ScreenChar list list \<times> nat"

definition term_newline :: "u8 \<Rightarrow> terminal \<Rightarrow> terminal" where
  "term_newline color = (\<lambda>(rows, col). (rows @ [blank_row color], 0))"

definition term_put :: "u8 \<Rightarrow> u8 \<Rightarrow> terminal \<Rightarrow> terminal" where
  "term_put color b t =
    (if b = 0x0a then term_newline color t
     else case (if 80 \<le> snd t then term_newline color t else t) of
       (rows, col) \<Rightarrow>
         (butlast rows @ [(last rows)[col := \<lparr>ascii_character = b, char_color = color\<rparr>]], col + 1))"

definition last_rows :: "nat \<Rightarrow> 'a list \<Rightarrow> 'a list" where
  "last_rows n xs = drop (length xs - n) xs"

definition glyph :: "u8 \<Rightarrow> u8" where
  "glyph b = (if 0x20 \<le> b \<and> b \<le> 0x7e \<or> b = 0x0a then b else 0xfe)"

definition shows_terminal :: "terminal \<Rightarrow> Writer \<Rightarrow> bool" where
  "shows_terminal t w \<longleftrightarrow> vga_wf w \<and> 25 \<le> length (fst t) \<and> buffer w = last_rows 25 (fst t) \<and>
    column_position w = snd t"

lemma last_rows_snoc:
  assumes "Suc n \<le> length xs"
  shows "last_rows (Suc n) (xs @ [x]) = tl (last_rows (Suc n) xs) @ [x]"
proof -
  have "tl (drop (length xs - Suc n) xs) = drop (Suc (length xs - Suc n)) xs"
    by (simp add: drop_Suc tl_drop)
  then show ?thesis using assms by (simp add: last_rows_def Suc_diff_Suc)
qed

lemma last_rows_last:
  assumes "0 < n" and "n \<le> length xs"
  shows "last_rows n (butlast xs @ [y]) = butlast (last_rows n xs) @ [y]"
proof -
  have "xs \<noteq> []" using assms by auto
  then have "length (butlast xs @ [y]) = length xs" by simp
  then show ?thesis using assms \<open>xs \<noteq> []\<close> by (simp add: last_rows_def butlast_drop)
qed

lemma last_last_rows: "0 < n \<Longrightarrow> n \<le> length xs \<Longrightarrow> last (last_rows n xs) = last xs"
  by (simp add: last_rows_def last_drop)

lemma new_line_shows:
  assumes "shows_terminal t w"
  obtains w' where "new_line w = Inr w'" and "shows_terminal (term_newline (color_code w) t) w'"
    and "color_code w' = color_code w"
proof -
  let ?w = "w\<lparr>buffer := tl (buffer w) @ [blank_row (color_code w)], column_position := 0\<rparr>"
  have wf: "vga_wf w" using assms by (simp add: shows_terminal_def)
  obtain rows col where t: "t = (rows, col)" by (cases t)
  have "shows_terminal (term_newline (color_code w) t) ?w"
    using assms new_line_wf [OF wf] last_rows_snoc [of 24 rows]
    by (simp add: shows_terminal_def term_newline_def t)
  then show ?thesis using that new_line_eq [OF wf] by simp
qed

lemma put_cell_shows:
  assumes "shows_terminal (rows, col) w" and "col < 80"
  shows "\<exists>b'. cell_write 24 col c (buffer w) = Inr b' \<and>
    shows_terminal (butlast rows @ [(last rows)[col := c]], col + 1)
      (w\<lparr>buffer := b', column_position := col + 1\<rparr>)"
proof -
  have v: "length (buffer w) = 25" "\<forall>r \<in> set (buffer w). length r = 80" "25 \<le> length rows"
    "buffer w = last_rows 25 rows"
    using assms(1) unfolding shows_terminal_def vga_wf_def fst_conv by blast+
  have ne: "buffer w \<noteq> []" using v(1) by auto
  have l: "buffer w ! 24 = last (buffer w)" using v(1) ne by (simp add: last_conv_nth)
  have "length (last (buffer w)) = 80" using v(2) ne by simp
  moreover have "(buffer w)[24 := r] = butlast (buffer w) @ [r]" for r
    using v(1) ne list_update_length [of "butlast (buffer w)" "last (buffer w)" "[]" r] by simp
  ultimately have c: "cell_write 24 col c (buffer w) = Inr (butlast (buffer w) @ [(last (buffer w))[col := c]])"
    using cell_write_ok [of 24 "buffer w" col c] v(1) l assms(2) by simp
  have "last (buffer w) = last rows" using v by (simp add: last_last_rows)
  moreover have "\<forall>r \<in> set (butlast (buffer w)). length r = 80" using v(2) by (auto dest: in_set_butlastD)
  ultimately show ?thesis
    using c v assms(2) \<open>length (last (buffer w)) = 80\<close> last_rows_last [of 25 rows]
    by (auto simp: shows_terminal_def vga_wf_def)
qed

lemma write_byte_shows:
  assumes "shows_terminal t w"
  shows "\<exists>w'. write_byte b w = Inr w' \<and> shows_terminal (term_put (color_code w) b t) w' \<and>
    color_code w' = color_code w"
proof (cases "b = 0x0a")
  case True
  then show ?thesis
    using new_line_shows [OF assms] by (metis term_put_def write_byte_def)
next
  case False
  let ?t = "if 80 \<le> snd t then term_newline (color_code w) t else t"
  have c: "column_position w = snd t" using assms by (simp add: shows_terminal_def)
  obtain w1 where w1: "(if 80 \<le> column_position w then new_line w else Inr w) = Inr w1"
    "shows_terminal ?t w1" "color_code w1 = color_code w"
  proof (cases "80 \<le> snd t")
    case True
    obtain w' where "new_line w = Inr w'" "shows_terminal (term_newline (color_code w) t) w'"
      "color_code w' = color_code w" by (rule new_line_shows [OF assms])
    then show ?thesis using that True c by simp
  next
    case False
    then show ?thesis using that assms c by simp
  qed
  obtain rows col where t: "?t = (rows, col)" by (cases ?t)
  have col: "col < 80" "column_position w1 = col"
    using t w1(2) by (auto simp: term_newline_def shows_terminal_def split: if_splits prod.splits)
  have "shows_terminal (rows, col) w1" using w1(2) unfolding t .
  from put_cell_shows [OF this col(1), of "\<lparr>ascii_character = b, char_color = color_code w\<rparr>"]
  obtain b' where b': "cell_write 24 col \<lparr>ascii_character = b, char_color = color_code w\<rparr> (buffer w1) = Inr b'"
    "shows_terminal (butlast rows @ [(last rows)[col := \<lparr>ascii_character = b, char_color = color_code w\<rparr>]],
        col + 1) (w1\<lparr>buffer := b', column_position := col + 1\<rparr>)"
    by blast
  have "usize_add col 1 = Inr (col + 1)" using col(1) by (simp add: USIZE_MAX_def)
  then have "write_byte b w = Inr (w1\<lparr>buffer := b', column_position := col + 1\<rparr>)"
    using False w1(1,3) b'(1) col(2)
    by (simp add: write_byte_def BUFFER_WIDTH_def BUFFER_HEIGHT_def Let_def)
  moreover have "term_put (color_code w) b t =
      (butlast rows @ [(last rows)[col := \<lparr>ascii_character = b, char_color = color_code w\<rparr>]], col + 1)"
    using False t by (simp add: term_put_def)
  ultimately show ?thesis using b'(2) w1(3) by simp
qed

lemma write_string_append:
  "write_string (s @ t) w = bind_res (write_string s w) (write_string t)"
  by (simp add: write_string_def [abs_def] for_res_append)

lemma write_string_shows:
  assumes "shows_terminal t w"
  shows "\<exists>w'. write_string s w = Inr w' \<and> color_code w' = color_code w \<and>
    shows_terminal (fold (term_put (color_code w)) (map glyph s) t) w'"
  using assms
proof (induction s arbitrary: t w)
  case (Cons b s)
  obtain w' where w': "write_byte (glyph b) w = Inr w'"
    "shows_terminal (term_put (color_code w) (glyph b) t) w'" "color_code w' = color_code w"
    using write_byte_shows [OF Cons.prems] by blast
  from Cons.IH [OF w'(2)] show ?case
    using w'(1,3) by (simp add: write_string_def glyph_def)
qed (simp add: write_string_def)

lemma shows_terminal_start: "vga_wf w \<Longrightarrow> shows_terminal (buffer w, column_position w) w"
  by (simp add: shows_terminal_def vga_wf_def last_rows_def)

section \<open>Properties\<close>

text \<open>
  C11: The console refines a terminal with unbounded scrollback: printing any bytes on a
  well-formed screen never indexes out of bounds, leaves a well-formed screen of 25 rows of 80
  cells with the column in range, and the screen shows exactly the last 25 rows of the
  terminal that received the same bytes, with wrapping at column 80 and every byte that is
  neither printable ASCII nor a newline replaced by \<open>0xfe\<close>.
\<close>

theorem console_refines_terminal:
  assumes "vga_wf w"
  shows "\<exists>w' rows col. write_string s w = Inr w' \<and> vga_wf w' \<and> color_code w' = color_code w \<and>
    fold (term_put (color_code w)) (map glyph s) (buffer w, column_position w) = (rows, col) \<and>
    buffer w' = last_rows 25 rows \<and> column_position w' = col"
proof -
  obtain rows col where "fold (term_put (color_code w)) (map glyph s) (buffer w, column_position w) = (rows, col)"
    by (cases "fold (term_put (color_code w)) (map glyph s) (buffer w, column_position w)")
  then show ?thesis
    using write_string_shows [OF shows_terminal_start [OF assms], of s] by (auto simp: shows_terminal_def)
qed

theorem console_refines_terminal_witness:
  "\<exists>w' rows col. write_string [0x48, 0x69, 0x0a, 0xc3] (WRITER_init (replicate 25 (blank_row 7))) = Inr w' \<and>
    buffer w' = last_rows 25 rows \<and> column_position w' = col \<and>
    fold (term_put 7) [0x48, 0x69, 0x0a, 0xfe] (replicate 25 (blank_row 7), 0) = (rows, col)"
proof -
  let ?w = "WRITER_init (replicate 25 (blank_row 7))"
  have "vga_wf ?w" by (simp add: vga_wf_def WRITER_init_def blank_row_def)
  moreover have "color_code ?w = 7" "buffer ?w = replicate 25 (blank_row 7)" "column_position ?w = 0"
    by (simp_all add: WRITER_init_def ColorCode_new_def DEFAULT_FOREGROUND_def DEFAULT_BACKGROUND_def)
  moreover have "map glyph [0x48, 0x69, 0x0a, 0xc3] = [0x48, 0x69, 0x0a, 0xfe]" by (simp add: glyph_def)
  ultimately show ?thesis
    using console_refines_terminal [of ?w "[0x48, 0x69, 0x0a, 0xc3]"] by (simp only:) blast
qed

end
