(* ===== verification/Keyboard.thy ===== *)
theory Keyboard
  imports External_Interfaces Vga_Buffer
begin

text \<open>
  The keyboard pipeline (\<open>src/src/task/keyboard.rs\<close>). The interrupt handler pushes raw
  scancodes with \<open>add_scancode\<close>; the consuming task polls \<open>poll_next\<close>, decodes with the
  \<open>pc-keyboard\<close> crate, whose decoder is a parameter, and pushes ASCII bytes for the \<open>read\<close>
  system call. The two queues are \<open>ArrayQueue\<close>s inside cells that are empty until
  \<open>ScancodeStream::new\<close>.

  Interrupts are enabled while the task polls, so \<open>poll_next\<close> is given as its four atomic
  accesses to the shared queue and waker, and an interrupt may run between any two of them.
\<close>

section \<open>The model\<close>

definition SCANCODE_QUEUE_CAPACITY :: nat where
  "SCANCODE_QUEUE_CAPACITY = 100"

definition KEY_QUEUE_CAPACITY :: nat where
  "KEY_QUEUE_CAPACITY = 100"

record ('q, 's) keyboard =
  SCANCODE_QUEUE :: "'q option"
  KEY_QUEUE :: "'q option"
  WAKER :: 's

definition keyboard_init :: "('w, 's) waker_ops \<Rightarrow> ('q, 's) keyboard" where
  "keyboard_init W = \<lparr>SCANCODE_QUEUE = None, KEY_QUEUE = None, WAKER = w_new W\<rparr>"

datatype 'w scancode_result = Uninitialized | Dropped | Pushed "'w option"

definition add_scancode ::
  "(u8, 'q) queue_ops \<Rightarrow> ('w, 's) waker_ops \<Rightarrow> u8 \<Rightarrow> ('q, 's) keyboard \<Rightarrow>
    ('q, 's) keyboard \<times> 'w scancode_result" where
  "add_scancode Q W scancode k =
    (case SCANCODE_QUEUE k of
       None \<Rightarrow> (k, Uninitialized)
     | Some queue \<Rightarrow>
         (case q_push Q scancode queue of
            None \<Rightarrow> (k, Dropped)
          | Some queue \<Rightarrow>
              let (woken, s) = w_take W (WAKER k) in
              (k\<lparr>SCANCODE_QUEUE := Some queue, WAKER := s\<rparr>, Pushed woken)))"

definition ScancodeStream_new ::
  "(u8, 'q) queue_ops \<Rightarrow> ('q, 's) keyboard \<Rightarrow> ('q, 's) keyboard res" where
  "ScancodeStream_new Q k =
    (if SCANCODE_QUEUE k \<noteq> None
     then Inl (ExpectFailed ''ScancodeStream::new should only be called once'')
     else if KEY_QUEUE k \<noteq> None
     then Inl (ExpectFailed ''key queue should only be initialised once'')
     else Inr (k\<lparr>SCANCODE_QUEUE := Some (q_new Q SCANCODE_QUEUE_CAPACITY),
                  KEY_QUEUE := Some (q_new Q KEY_QUEUE_CAPACITY)\<rparr>))"

definition read_byte :: "(u8, 'q) queue_ops \<Rightarrow> ('q, 's) keyboard \<Rightarrow> ('q, 's) keyboard \<times> u8 option" where
  "read_byte Q k =
    (case KEY_QUEUE k of
       None \<Rightarrow> (k, None)
     | Some queue \<Rightarrow>
         (case q_pop Q queue of
            None \<Rightarrow> (k, None)
          | Some (b, queue) \<Rightarrow> (k\<lparr>KEY_QUEUE := Some queue\<rparr>, Some b)))"

datatype poll_pc = PopFirst | Register | PopAgain | TakeWaker u8 | Polled "u8 option"

definition poll_step ::
  "(u8, 'q) queue_ops \<Rightarrow> ('w, 's) waker_ops \<Rightarrow> 'w \<Rightarrow> poll_pc \<times> ('q, 's) keyboard \<Rightarrow>
    (poll_pc \<times> ('q, 's) keyboard) res" where
  "poll_step Q W waker = (\<lambda>(pc, k).
    bind_res (expect (SCANCODE_QUEUE k) ''scancode queue not initialized'') (\<lambda>queue.
    case pc of
      PopFirst \<Rightarrow>
        (case q_pop Q queue of
           Some (scancode, queue) \<Rightarrow> Inr (Polled (Some scancode), k\<lparr>SCANCODE_QUEUE := Some queue\<rparr>)
         | None \<Rightarrow> Inr (Register, k))
    | Register \<Rightarrow> Inr (PopAgain, k\<lparr>WAKER := w_register W waker (WAKER k)\<rparr>)
    | PopAgain \<Rightarrow>
        (case q_pop Q queue of
           Some (scancode, queue) \<Rightarrow> Inr (TakeWaker scancode, k\<lparr>SCANCODE_QUEUE := Some queue\<rparr>)
         | None \<Rightarrow> Inr (Polled None, k))
    | TakeWaker scancode \<Rightarrow> Inr (Polled (Some scancode), k\<lparr>WAKER := snd (w_take W (WAKER k))\<rparr>)
    | Polled r \<Rightarrow> Inr (Polled r, k)))"

definition poll_next ::
  "(u8, 'q) queue_ops \<Rightarrow> ('w, 's) waker_ops \<Rightarrow> 'w \<Rightarrow> ('q, 's) keyboard \<Rightarrow>
    (poll_pc \<times> ('q, 's) keyboard) res" where
  "poll_next Q W waker k = iter_res 4 (poll_step Q W waker) (PopFirst, k)"

datatype DecodedKey = Unicode nat | RawKey nat

definition utf8 :: "nat \<Rightarrow> u8 list" where
  "utf8 c =
    (if c < 0x80 then [of_nat c]
     else if c < 0x800 then [of_nat (0xc0 + c div 64), of_nat (0x80 + c mod 64)]
     else if c < 0x10000 then
       [of_nat (0xe0 + c div 4096), of_nat (0x80 + c div 64 mod 64), of_nat (0x80 + c mod 64)]
     else
       [of_nat (0xf0 + c div 262144), of_nat (0x80 + c div 4096 mod 64),
        of_nat (0x80 + c div 64 mod 64), of_nat (0x80 + c mod 64)])"

definition handle_key ::
  "(u8, 'q) queue_ops \<Rightarrow> DecodedKey \<Rightarrow> ('q, 's) keyboard \<times> Writer \<Rightarrow> (('q, 's) keyboard \<times> Writer) res" where
  "handle_key Q key = (\<lambda>(k, w).
    case key of
      Unicode character \<Rightarrow>
        let k =
          (case KEY_QUEUE k of
             Some queue \<Rightarrow>
               if character \<le> 0x7f then
                 (case q_push Q (of_nat character) queue of
                    Some queue \<Rightarrow> k\<lparr>KEY_QUEUE := Some queue\<rparr>
                  | None \<Rightarrow> k)
               else k
           | None \<Rightarrow> k) in
        bind_res (vga_print (utf8 character) w) (\<lambda>w. Inr (k, w))
    | RawKey _ \<Rightarrow> Inr (k, w))"

definition process_scancode ::
  "(u8, 'q) queue_ops \<Rightarrow> (u8 \<Rightarrow> 'd \<Rightarrow> 'd \<times> DecodedKey option) \<Rightarrow> u8 \<Rightarrow>
    'd \<times> ('q, 's) keyboard \<times> Writer \<Rightarrow> ('d \<times> ('q, 's) keyboard \<times> Writer) res" where
  "process_scancode Q decode scancode = (\<lambda>(d, k, w).
    case decode scancode d of
      (d, None) \<Rightarrow> Inr (d, k, w)
    | (d, Some key) \<Rightarrow> bind_res (handle_key Q key (k, w)) (\<lambda>(k, w). Inr (d, k, w)))"

section \<open>Polling with interrupts\<close>

fun woken :: "'w scancode_result \<Rightarrow> 'w list" where
  "woken (Pushed (Some w)) = [w]"
| "woken _ = []"

fun accepted :: "u8 \<Rightarrow> 'w scancode_result \<Rightarrow> u8 list" where
  "accepted c (Pushed _) = [c]"
| "accepted c _ = []"

fun delivered :: "poll_pc \<Rightarrow> u8 list" where
  "delivered (TakeWaker c) = [c]"
| "delivered (Polled (Some c)) = [c]"
| "delivered _ = []"

text \<open>
  The states that a poll by the task with waker \<open>waker\<close> can go through when keyboard
  interrupts occur between its accesses and after it: the program point, the shared state, the
  wakers woken and the scancodes accepted by the handler since the poll began.
\<close>

inductive poll_run ::
  "(u8, 'q) queue_ops \<Rightarrow> ('w, 's) waker_ops \<Rightarrow> 'w \<Rightarrow> ('q, 's) keyboard \<Rightarrow>
    poll_pc \<Rightarrow> ('q, 's) keyboard \<Rightarrow> 'w list \<Rightarrow> u8 list \<Rightarrow> bool"
  for Q W waker k0 where
  start: "poll_run Q W waker k0 PopFirst k0 [] []"
| poll: "poll_run Q W waker k0 pc k ws acc \<Longrightarrow> poll_step Q W waker (pc, k) = Inr (pc', k') \<Longrightarrow>
    poll_run Q W waker k0 pc' k' ws acc"
| irq: "poll_run Q W waker k0 pc k ws acc \<Longrightarrow> add_scancode Q W c k = (k', r) \<Longrightarrow>
    poll_run Q W waker k0 pc k' (ws @ woken r) (acc @ accepted c r)"

text \<open>
  The invariant: nothing is lost or reordered, and once the waker is registered it stays
  registered unless it has been woken; a poll that ends empty-handed leaves either an empty
  queue or a woken task.
\<close>

definition poll_inv ::
  "('q \<Rightarrow> u8 list) \<Rightarrow> ('s \<Rightarrow> 'w option) \<Rightarrow> 'w \<Rightarrow> u8 list \<Rightarrow> poll_pc \<Rightarrow> ('q, 's) keyboard \<Rightarrow> 'w list \<Rightarrow>
    u8 list \<Rightarrow> bool" where
  "poll_inv contents slot waker q0 pc k ws acc \<longleftrightarrow>
    (\<exists>q. SCANCODE_QUEUE k = Some q \<and> delivered pc @ contents q = q0 @ acc \<and>
      (pc = PopAgain \<or> pc = Polled None \<longrightarrow> slot (WAKER k) = Some waker \<or> waker \<in> set ws) \<and>
      (pc = Polled None \<longrightarrow> contents q = [] \<or> waker \<in> set ws))"

lemma poll_run_inv:
  assumes "array_queue Q capacity contents" and "atomic_waker W slot"
    and "SCANCODE_QUEUE k0 = Some q0" and "poll_run Q W waker k0 pc k ws acc"
  shows "poll_inv contents slot waker (contents q0) pc k ws acc"
  using assms(4)
proof (induction rule: poll_run.induct)
  case start
  then show ?case using assms(3) by (simp add: poll_inv_def)
next
  case (poll pc k ws acc pc' k')
  note pop = array_queue.pop_Some_D [OF assms(1)] array_queue.pop_None_iff [OF assms(1)]
  from poll show ?case
    by (auto simp: poll_inv_def poll_step_def pop atomic_waker.register_slot [OF assms(2)]
        split: poll_pc.splits option.splits dest: pop(1))
next
  case (irq pc k ws acc c k' r)
  obtain q where q: "SCANCODE_QUEUE k = Some q" "delivered pc @ contents q = contents q0 @ acc"
    "pc = PopAgain \<or> pc = Polled None \<Longrightarrow> slot (WAKER k) = Some waker \<or> waker \<in> set ws"
    "pc = Polled None \<Longrightarrow> contents q = [] \<or> waker \<in> set ws"
    using irq.IH by (auto simp: poll_inv_def)
  show ?case
  proof (cases "q_push Q c q")
    case None
    then show ?thesis using irq q by (auto simp: add_scancode_def poll_inv_def)
  next
    case (Some q')
    obtain w s where t: "w_take W (WAKER k) = (w, s)" by (cases "w_take W (WAKER k)")
    have "w = slot (WAKER k)" using atomic_waker.take_slot(1) [OF assms(2), of "WAKER k"] t by simp
    moreover have r: "k' = k\<lparr>SCANCODE_QUEUE := Some q', WAKER := s\<rparr>" "r = Pushed w"
      using irq.hyps(2) q(1) Some t by (simp_all add: add_scancode_def)
    moreover have "contents q' = contents q @ [c]"
      using array_queue.push_Some_D [OF assms(1) Some] by simp
    moreover have "waker \<in> set (ws @ woken r)" if "pc = PopAgain \<or> pc = Polled None"
      using q(3) [OF that] calculation by auto
    ultimately show ?thesis using q(2) by (auto simp: poll_inv_def)
  qed
qed

section \<open>The bytes of the \<open>read\<close> system call\<close>

definition key_queue_ascii :: "('q \<Rightarrow> u8 list) \<Rightarrow> ('q, 's) keyboard \<Rightarrow> bool" where
  "key_queue_ascii contents k \<longleftrightarrow> (\<forall>q. KEY_QUEUE k = Some q \<longrightarrow> (\<forall>b \<in> set (contents q). b \<le> 0x7f))"

lemma handle_key_ok:
  assumes "array_queue Q capacity contents" and "vga_wf w" and "key_queue_ascii contents k"
  shows "\<exists>k' w'. handle_key Q key (k, w) = Inr (k', w') \<and> vga_wf w' \<and> key_queue_ascii contents k' \<and>
    SCANCODE_QUEUE k' = SCANCODE_QUEUE k"
proof (cases key)
  case (RawKey x)
  then show ?thesis using assms by (simp add: handle_key_def)
next
  case (Unicode c)
  have ascii: "(of_nat c :: u8) \<le> 0x7f" if "c \<le> 0x7f"
    using that by (simp add: word_le_nat_alt unat_of_nat take_bit_nat_eq_self)
  obtain w' where w': "vga_print (utf8 c) w = Inr w'" "vga_wf w'"
    using write_string_shows [OF shows_terminal_start [OF assms(2)], of "utf8 c"]
    by (auto simp: vga_print_def shows_terminal_def)
  define k' where "k' = (case KEY_QUEUE k of
      Some queue \<Rightarrow> if c \<le> 0x7f then (case q_push Q (of_nat c) queue of
        Some queue \<Rightarrow> k\<lparr>KEY_QUEUE := Some queue\<rparr> | None \<Rightarrow> k) else k
    | None \<Rightarrow> k)"
  have "key_queue_ascii contents k'" "SCANCODE_QUEUE k' = SCANCODE_QUEUE k"
    using assms(3) ascii
    by (auto simp: k'_def key_queue_ascii_def dest!: array_queue.push_Some_D [OF assms(1)]
        split: option.splits)
  moreover have "handle_key Q key (k, w) = Inr (k', w')"
    using w'(1) by (simp add: handle_key_def Unicode k'_def Let_def)
  ultimately show ?thesis using w'(2) by blast
qed

section \<open>Properties\<close>

text \<open>
  C10: No wakeup is lost: however keyboard interrupts interleave with a poll of the scancode
  stream, when the poll has returned \<open>Pending\<close> and a scancode is queued, the task has been
  woken since the poll began; and as long as it has not been woken, its waker is registered,
  so the next scancode will wake it.
\<close>

theorem poll_no_lost_wakeup:
  assumes "array_queue Q capacity contents" and "atomic_waker W slot"
    and "SCANCODE_QUEUE k0 = Some q0" and "poll_run Q W waker k0 (Polled None) k ws acc"
  shows "\<exists>q. SCANCODE_QUEUE k = Some q \<and> (contents q \<noteq> [] \<longrightarrow> waker \<in> set ws) \<and>
    (waker \<notin> set ws \<longrightarrow> slot (WAKER k) = Some waker)"
  using poll_run_inv [OF assms] by (auto simp: poll_inv_def)

theorem poll_no_lost_wakeup_witness:
  "let k0 = \<lparr>SCANCODE_QUEUE = Some (100, []), KEY_QUEUE = Some (100, []), WAKER = None\<rparr>;
       k = \<lparr>SCANCODE_QUEUE = Some (100, [0x1e]), KEY_QUEUE = Some (100, []), WAKER = None\<rparr> in
   poll_run list_queue option_waker (7 :: u64) k0 (Polled None) k [7] [0x1e] \<and>
   (\<exists>q. SCANCODE_QUEUE k = Some q \<and> (snd q \<noteq> [] \<longrightarrow> 7 \<in> set [7 :: u64]))"
proof -
  let ?before = "\<lparr>SCANCODE_QUEUE = Some (100, []), KEY_QUEUE = Some (100, []), WAKER = None\<rparr>"
  let ?armed = "\<lparr>SCANCODE_QUEUE = Some (100, []), KEY_QUEUE = Some (100, []), WAKER = Some (7 :: u64)\<rparr>"
  let ?after = "\<lparr>SCANCODE_QUEUE = Some (100, [0x1e]), KEY_QUEUE = Some (100, []), WAKER = None\<rparr>"
  let ?run = "poll_run list_queue option_waker (7 :: u64) ?before"
  note step = poll_step_def list_queue_def option_waker_def
  have "?run PopFirst ?before [] []" by (rule poll_run.start)
  moreover have "poll_step list_queue option_waker 7 (PopFirst, ?before) = Inr (Register, ?before)"
    "poll_step list_queue option_waker 7 (Register, ?before) = Inr (PopAgain, ?armed)"
    "poll_step list_queue option_waker 7 (PopAgain, ?armed) = Inr (Polled None, ?armed)"
    by (simp_all add: step)
  ultimately have "?run (Polled None) ?armed [] []" by (meson poll_run.poll)
  then have "?run (Polled None) ?after ([] @ woken (Pushed (Some 7))) ([] @ accepted 0x1e (Pushed (Some (7 :: u64))))"
    by (rule poll_run.irq) (simp add: add_scancode_def step)
  then have r: "?run (Polled None) ?after [7] [0x1e]" by simp
  show ?thesis
    using r poll_no_lost_wakeup [OF lq.array_queue_axioms ow.atomic_waker_axioms _ r] by simp
qed

text \<open>
  The scancode stream is first-in first-out and lossless up to the queue's capacity: at
  every point of a poll, the scancode it is delivering followed by the queue is the initial
  queue followed by the scancodes that the interrupt handler accepted meanwhile.
\<close>

theorem poll_fifo:
  assumes "array_queue Q capacity contents" and "atomic_waker W slot"
    and "SCANCODE_QUEUE k0 = Some q0" and "poll_run Q W waker k0 pc k ws acc"
  shows "\<exists>q. SCANCODE_QUEUE k = Some q \<and> delivered pc @ contents q = contents q0 @ acc"
  using poll_run_inv [OF assms] by (auto simp: poll_inv_def)

theorem poll_fifo_witness:
  "\<exists>k q. poll_run list_queue option_waker (7 :: u64)
      \<lparr>SCANCODE_QUEUE = Some (100, [0x1e, 0x1f]), KEY_QUEUE = None, WAKER = None\<rparr>
      (Polled (Some 0x1e)) k [] [] \<and>
    SCANCODE_QUEUE k = Some q \<and> 0x1e # snd q = [0x1e, 0x1f]"
proof -
  let ?before = "\<lparr>SCANCODE_QUEUE = Some (100, [0x1e, 0x1f]), KEY_QUEUE = None, WAKER = None\<rparr>"
  let ?after = "\<lparr>SCANCODE_QUEUE = Some (100, [0x1f]), KEY_QUEUE = None, WAKER = None\<rparr>"
  have "poll_run list_queue option_waker (7 :: u64) ?before PopFirst ?before [] []" by (rule poll_run.start)
  moreover have "poll_step list_queue option_waker 7 (PopFirst, ?before) = Inr (Polled (Some 0x1e), ?after)"
    by (simp add: poll_step_def list_queue_def)
  ultimately have r: "poll_run list_queue option_waker (7 :: u64) ?before (Polled (Some 0x1e)) ?after [] []"
    by (rule poll_run.poll)
  show ?thesis
    using r poll_fifo [OF lq.array_queue_axioms ow.atomic_waker_axioms _ r] by auto
qed

end
