(* ===== verification/Kernel_Call.thy ===== *)
theory Kernel_Call
  imports Fixed_Size_Block Thread_Scheduler Keyboard
begin

text \<open>
  The kernel object and its call boundary (\<open>src/src/kernel/mod.rs\<close>, \<open>kernel/abi.rs\<close> and the
  stateless services of \<open>kernel/service.rs\<close>).

  The \<open>kernel\<close> record joins the states of the components that the services reach: the process
  table, the thread scheduler with the runtime counters, the global heap, the keyboard queues,
  the screen, and the machine memory. The heap changes only through the allocation traffic of
  the collections; a request reads its statistics. \<open>call\<close> is total on the requests: \<open>outcome\<close>
  says whether the caller gets its response at once, gets it when its thread is resumed after
  the context switch, or never returns.
\<close>

section \<open>The call ABI\<close>

datatype Caller = Kernel | User ProcessId | Irq

datatype ServiceId = Process | Thread | Scheduler | Memory | Timer | Input | Console

datatype SysError = BadHandle | Denied | BadPointer | WouldBlock | NoResources | Unsupported

fun discriminant :: "SysError \<Rightarrow> u64" where
  "discriminant BadHandle = 1"
| "discriminant Denied = 2"
| "discriminant BadPointer = 3"
| "discriminant WouldBlock = 4"
| "discriminant NoResources = 5"
| "discriminant Unsupported = 6"

definition errno :: "SysError \<Rightarrow> u64" where
  "errno e = - discriminant e"

record SchedulerStats =
  st_ticks :: u64
  st_processes_alive :: u64
  st_processes_spawned :: u64
  st_threads_alive :: u64
  st_threads_spawned :: u64
  st_tasks_alive :: u64
  st_tasks_spawned :: u64
  st_tasks_completed :: u64

record MemoryStats =
  ms_heap_size :: usize
  ms_heap_free :: usize

datatype Request =
    ProcessCreate VirtAddr VirtAddr
  | ProcessExit ProcessId i32
  | ProcessSnapshot ProcessId
  | ProcessCount
  | ThreadSpawn u64 ProcessId
  | ThreadYield
  | ThreadExit
  | SchedulerStats
  | MemoryStats
  | TimerTicks
  | InputReadByte
  | ConsoleWrite "u8 list"

fun request_service :: "Request \<Rightarrow> ServiceId" where
  "request_service (ProcessCreate _ _) = ServiceId.Process"
| "request_service (ProcessExit _ _) = ServiceId.Process"
| "request_service (ProcessSnapshot _) = ServiceId.Process"
| "request_service ProcessCount = ServiceId.Process"
| "request_service (ThreadSpawn _ _) = ServiceId.Thread"
| "request_service ThreadYield = ServiceId.Thread"
| "request_service ThreadExit = ServiceId.Thread"
| "request_service SchedulerStats = ServiceId.Scheduler"
| "request_service MemoryStats = ServiceId.Memory"
| "request_service TimerTicks = ServiceId.Timer"
| "request_service InputReadByte = ServiceId.Input"
| "request_service (ConsoleWrite _) = ServiceId.Console"

datatype Response =
    Ok
  | Written usize
  | Byte "u8 option"
  | Process ProcessId
  | Snapshot "ProcessSnapshot option"
  | Thread u64
  | Count usize
  | Stats SchedulerStats
  | Memory MemoryStats
  | Ticks u64
  | Err SysError

section \<open>The kernel and its services\<close>

record ('q, 's) kernel =
  k_process :: process_service
  k_thread :: thread_state
  k_heap :: FixedSizeBlockAllocator
  k_input :: "('q, 's) keyboard"
  k_console :: Writer
  k_memory :: memory

definition Kernel_new :: "u64 \<Rightarrow> ('w, 's) waker_ops \<Rightarrow> Buffer \<Rightarrow> memory \<Rightarrow> ('q, 's) kernel" where
  "Kernel_new boot_ctx W screen m =
    \<lparr>k_process = ProcessService_new, k_thread = thread_init boot_ctx, k_heap = fsb_empty,
     k_input = keyboard_init W, k_console = WRITER_init screen, k_memory = m\<rparr>"

definition with_processes ::
  "('q, 's) kernel \<Rightarrow> process_service \<times> Scheduler \<Rightarrow> ('q, 's) kernel" where
  "with_processes k = (\<lambda>(ps, sc). k\<lparr>k_process := ps, k_thread := (k_thread k)\<lparr>SCHEDULER := sc\<rparr>\<rparr>)"

abbreviation process_side :: "('q, 's) kernel \<Rightarrow> process_service \<times> Scheduler" where
  "process_side k \<equiv> (k_process k, SCHEDULER (k_thread k))"

definition scheduler_stats :: "Scheduler \<Rightarrow> SchedulerStats" where
  "scheduler_stats sc =
    \<lparr>st_ticks = ticks sc, st_processes_alive = processes_alive sc,
     st_processes_spawned = processes_spawned sc, st_threads_alive = threads_alive sc,
     st_threads_spawned = threads_spawned sc, st_tasks_alive = tasks_alive sc,
     st_tasks_spawned = tasks_spawned sc, st_tasks_completed = tasks_completed sc\<rparr>"

definition allocator_stats :: "FixedSizeBlockAllocator \<Rightarrow> HeapStats res" where
  "allocator_stats a = fsb_stats a"

definition memory_stats :: "FixedSizeBlockAllocator \<Rightarrow> MemoryStats res" where
  "memory_stats a = bind_res (allocator_stats a) (\<lambda>st.
    Inr \<lparr>ms_heap_size = heap_size st, ms_heap_free = free_bytes st\<rparr>)"

definition console_write :: "u8 list \<Rightarrow> Writer \<Rightarrow> (Writer \<times> usize) res" where
  "console_write bytes w =
    bind_res (for_res (\<lambda>byte. vga_print (utf8 (unat byte))) bytes w) (\<lambda>w. Inr (w, length bytes))"

datatype outcome =
    Reply Response
  | ReplyAfter "u64 \<times> u64" Response
  | NoReturn u64

text \<open>\<open>boxes\<close> are the addresses of the two heap allocations of a spawn: context and stack.\<close>

fun call ::
  "(u8, 'q) queue_ops \<Rightarrow> u64 \<times> u64 \<Rightarrow> Caller \<Rightarrow> Request \<Rightarrow> ('q, 's) kernel \<Rightarrow>
    (('q, 's) kernel \<times> outcome) res" where
  "call Q boxes caller (ProcessCreate entry stack_top) k =
    (if caller \<noteq> Kernel then Inr (k, Reply (Err Denied))
     else let (st, i) = process_create entry stack_top (process_side k) in
          Inr (with_processes k st, Reply (Response.Process i)))"
| "call Q boxes caller (ProcessExit i code) k =
    (if (case caller of User caller_pid \<Rightarrow> caller_pid \<noteq> i | _ \<Rightarrow> False)
     then Inr (k, Reply (Err Denied))
     else let (st, found) = process_exit i code (process_side k) in
          Inr (with_processes k st, Reply (if found then Ok else Err BadHandle)))"
| "call Q boxes caller (ProcessSnapshot i) k =
    (if (case caller of User caller_pid \<Rightarrow> caller_pid \<noteq> i | _ \<Rightarrow> False)
     then Inr (k, Reply (Err Denied))
     else Inr (k, Reply (Snapshot (process_snapshot (k_process k) i))))"
| "call Q boxes caller ProcessCount k =
    (if caller \<noteq> Kernel then Inr (k, Reply (Err Denied))
     else Inr (k, Reply (Count (process_count (k_process k)))))"
| "call Q boxes caller (ThreadSpawn entry process) k =
    (if caller \<noteq> Kernel then Inr (k, Reply (Err Denied))
     else bind_res (spawn (k_memory k) (fst boxes) (snd boxes) entry process (k_thread k)) (\<lambda>(m, s, i).
          Inr (k\<lparr>k_memory := m, k_thread := s\<rparr>, Reply (Response.Thread i))))"
| "call Q boxes caller ThreadYield k =
    bind_res (yield_now (k_thread k)) (\<lambda>(s, sw).
    Inr (k\<lparr>k_thread := s\<rparr>, case sw of None \<Rightarrow> Reply Ok | Some sw \<Rightarrow> ReplyAfter sw Ok))"
| "call Q boxes caller ThreadExit k =
    bind_res (exit_thread (k_thread k)) (\<lambda>(s, ctx). Inr (k\<lparr>k_thread := s\<rparr>, NoReturn ctx))"
| "call Q boxes caller SchedulerStats k =
    Inr (k, Reply (Stats (scheduler_stats (SCHEDULER (k_thread k)))))"
| "call Q boxes caller MemoryStats k =
    bind_res (memory_stats (k_heap k)) (\<lambda>st. Inr (k, Reply (Response.Memory st)))"
| "call Q boxes caller TimerTicks k = Inr (k, Reply (Ticks (ticks (SCHEDULER (k_thread k)))))"
| "call Q boxes caller InputReadByte k =
    (let (i, b) = read_byte Q (k_input k) in Inr (k\<lparr>k_input := i\<rparr>, Reply (Byte b)))"
| "call Q boxes caller (ConsoleWrite bytes) k =
    bind_res (console_write bytes (k_console k)) (\<lambda>(w, n). Inr (k\<lparr>k_console := w\<rparr>, Reply (Written n)))"

definition kernel_tick :: "('q, 's) kernel \<Rightarrow> ('q, 's) kernel res" where
  "kernel_tick k =
    bind_res (tick (SCHEDULER (k_thread k))) (\<lambda>(sc, _).
    Inr (k\<lparr>k_thread := (k_thread k)\<lparr>SCHEDULER := sc\<rparr>\<rparr>))"

definition on_scancode ::
  "(u8, 'q) queue_ops \<Rightarrow> ('w, 's) waker_ops \<Rightarrow> u8 \<Rightarrow> ('q, 's) kernel \<Rightarrow>
    ('q, 's) kernel \<times> 'w scancode_result" where
  "on_scancode Q W byte k = (let (i, r) = add_scancode Q W byte (k_input k) in (k\<lparr>k_input := i\<rparr>, r))"

definition register_process :: "Process \<Rightarrow> ('q, 's) kernel \<Rightarrow> ('q, 's) kernel \<times> ProcessId" where
  "register_process p k =
    (let (st, i) = process_register p (process_side k) in (with_processes k st, i))"

definition exit_process :: "ProcessId \<Rightarrow> i32 \<Rightarrow> ('q, 's) kernel \<Rightarrow> ('q, 's) kernel \<times> bool" where
  "exit_process i code k =
    (let (st, found) = process_exit i code (process_side k) in (with_processes k st, found))"

section \<open>The invariant of the whole kernel\<close>

definition kernel_inv :: "('q \<Rightarrow> u8 list) \<Rightarrow> ('q, 's) kernel \<Rightarrow> bool" where
  "kernel_inv contents k \<longleftrightarrow>
    process_inv (process_side k) \<and> thread_inv (k_thread k) \<and> (\<exists>L. fsb_inv (k_heap k) L) \<and>
    vga_wf (k_console k) \<and> key_queue_ascii contents (k_input k)"

text \<open>
  The requests that the state can serve: the id counters have not run out, a spawn got a stack
  on which its initial frame fits, and the bootstrap thread does not exit.
\<close>

fun servable :: "u64 \<times> u64 \<Rightarrow> Request \<Rightarrow> ('q, 's) kernel \<Rightarrow> bool" where
  "servable boxes (ProcessCreate _ _) k \<longleftrightarrow> NEXT_PID (k_process k) + 1 \<noteq> 0"
| "servable boxes (ThreadSpawn _ _) k \<longleftrightarrow>
    NEXT_TID (k_thread k) \<noteq> - 1 \<and> unat (snd boxes) + STACK_SIZE < 2 ^ 64 \<and>
    separate (fst boxes) 8 (snd boxes) STACK_SIZE"
| "servable boxes ThreadExit k \<longleftrightarrow> current (THREADS (k_thread k)) \<noteq> BOOTSTRAP_ID"
| "servable boxes _ k \<longleftrightarrow> True"

lemma process_inv_cong:
  "processes_alive sc' = processes_alive sc \<Longrightarrow> processes_spawned sc' = processes_spawned sc \<Longrightarrow>
    process_inv (ps, sc') = process_inv (ps, sc)"
  by (simp add: process_inv_def)

lemma thread_inv_cong:
  "threads_alive sc' = threads_alive (SCHEDULER s) \<Longrightarrow> threads_spawned sc' = threads_spawned (SCHEDULER s) \<Longrightarrow>
    thread_inv (s\<lparr>SCHEDULER := sc'\<rparr>) = thread_inv s"
  by (simp add: thread_inv_def run_queue_def parked_def thread_count_def)

lemma process_ops_threads:
  "threads_alive (snd (fst (process_create e t (ps, sc)))) = threads_alive sc"
  "threads_spawned (snd (fst (process_create e t (ps, sc)))) = threads_spawned sc"
  "threads_alive (snd (fst (process_exit i c (ps, sc)))) = threads_alive sc"
  "threads_spawned (snd (fst (process_exit i c (ps, sc)))) = threads_spawned sc"
  by (auto simp: process_create_eq process_exit_def counter_defs split: option.splits)

lemma with_processes_inv:
  assumes "kernel_inv contents k" and "process_inv st"
    and "threads_alive (snd st) = threads_alive (SCHEDULER (k_thread k))"
    and "threads_spawned (snd st) = threads_spawned (SCHEDULER (k_thread k))"
  shows "kernel_inv contents (with_processes k st)"
  using assms by (cases st) (simp add: kernel_inv_def with_processes_def thread_inv_cong)

lemma with_threads_inv:
  assumes "kernel_inv contents k" and "thread_inv s"
    and "processes_alive (SCHEDULER s) = processes_alive (SCHEDULER (k_thread k))"
    and "processes_spawned (SCHEDULER s) = processes_spawned (SCHEDULER (k_thread k))"
  shows "kernel_inv contents (k\<lparr>k_thread := s\<rparr>)"
  using assms by (simp add: kernel_inv_def process_inv_cong [of "SCHEDULER s" "SCHEDULER (k_thread k)"])

text \<open>A write of bytes is one print of the UTF-8 encodings of their code points.\<close>

lemma console_write_eq:
  "console_write bytes w =
    bind_res (write_string (concat (map (\<lambda>b. utf8 (unat b)) bytes)) w) (\<lambda>w. Inr (w, length bytes))"
proof -
  have "for_res (\<lambda>byte. vga_print (utf8 (unat byte))) bytes =
      write_string (concat (map (\<lambda>b. utf8 (unat b)) bytes))"
  proof (induction bytes)
    case Nil
    show ?case by (simp add: write_string_def [abs_def] fun_eq_iff)
  next
    case (Cons b bytes)
    then show ?case by (intro ext) (simp add: vga_print_def [abs_def] write_string_append)
  qed
  then show ?thesis by (simp add: console_write_def)
qed

lemma console_write_ok:
  assumes "vga_wf w"
  obtains w' where "console_write bytes w = Inr (w', length bytes)" and "vga_wf w'"
    and "color_code w' = color_code w"
    and "shows_terminal (fold (term_put (color_code w))
      (map glyph (concat (map (\<lambda>b. utf8 (unat b)) bytes))) (buffer w, column_position w)) w'"
proof -
  let ?s = "concat (map (\<lambda>b. utf8 (unat b)) bytes)"
  obtain w' where "write_string ?s w = Inr w'" "color_code w' = color_code w"
    "shows_terminal (fold (term_put (color_code w)) (map glyph ?s) (buffer w, column_position w)) w'"
    using write_string_shows [OF shows_terminal_start [OF assms], of ?s] by blast
  then show ?thesis by (intro that [of w']) (auto simp: console_write_eq shows_terminal_def split: prod.splits)
qed

lemma read_byte_ascii:
  assumes "array_queue Q capacity contents" and "key_queue_ascii contents k" and "read_byte Q k = (k', b)"
  shows "key_queue_ascii contents k' \<and> (\<forall>c. b = Some c \<longrightarrow> c \<le> 0x7f)"
  using assms(2,3)
  by (auto simp: read_byte_def key_queue_ascii_def dest!: array_queue.pop_Some_D [OF assms(1)]
      split: option.splits)

lemma spawn_ok:
  assumes "thread_inv s" and "unat stack + STACK_SIZE < 2 ^ 64" and "separate ctx 8 stack STACK_SIZE"
    and "NEXT_TID s \<noteq> - 1"
  obtains m' t where "spawn m ctx stack entry process s = Inr (m', spawned t s, NEXT_TID s)"
    and "t = \<lparr>kt_id = NEXT_TID s, kt_process = process, kt_context = ctx, kt_stack = stack\<rparr>"
    and "thread_inv (spawned t s)"
proof -
  let ?t = "\<lparr>kt_id = NEXT_TID s, kt_process = process, kt_context = ctx, kt_stack = stack\<rparr>"
  obtain m' where "KernelThread_new m (NEXT_TID s) ctx stack entry process = Inr (m', ?t)"
    using KernelThread_new_suspended [OF assms(2,3)] by metis
  then have "spawn m ctx stack entry process s = Inr (m', spawned ?t s, NEXT_TID s)"
    using spawn_eq [OF assms(1)] by simp
  moreover have "thread_inv (spawned ?t s)" using spawned_inv [OF assms(1) _ assms(4)] by simp
  ultimately show ?thesis using that by blast
qed

lemma thread_calls_inv:
  assumes "kernel_inv contents k" and "request_service r = ServiceId.Thread" and "servable boxes r k"
  shows "\<exists>k' out. call Q boxes caller r k = Inr (k', out) \<and> kernel_inv contents k'"
proof -
  have t: "thread_inv (k_thread k)" using assms(1) by (simp add: kernel_inv_def)
  note pc = thread_calls_processes drain_reaper_processes
  consider (spawn) entry process where "r = ThreadSpawn entry process" | (yield) "r = ThreadYield"
    | (exit) "r = ThreadExit"
    using assms(2) by (cases r) auto
  then show ?thesis
  proof cases
    case spawn
    have ok: "unat (snd boxes) + STACK_SIZE < 2 ^ 64" "separate (fst boxes) 8 (snd boxes) STACK_SIZE"
      "NEXT_TID (k_thread k) \<noteq> - 1"
      using assms(3) spawn by simp_all
    obtain m' u where u: "spawn (k_memory k) (fst boxes) (snd boxes) entry process (k_thread k) =
        Inr (m', spawned u (k_thread k), NEXT_TID (k_thread k))" "thread_inv (spawned u (k_thread k))"
      using spawn_ok [OF t ok] .
    have "kernel_inv contents (k\<lparr>k_memory := m', k_thread := spawned u (k_thread k)\<rparr>)"
      using with_threads_inv [OF assms(1) u(2)] pc by (simp add: kernel_inv_def)
    then show ?thesis using spawn u(1) assms(1) by simp
  next
    case yield
    have "thread_inv (turned (drain_reaper (k_thread k)))" by (intro turned_inv drain_reaper_inv t)
    from with_threads_inv [OF assms(1) this] show ?thesis using yield pc by (simp add: yield_now_eq [OF t])
  next
    case exit
    then have "current (THREADS (k_thread k)) \<noteq> BOOTSTRAP_ID" using assms(3) by simp
    note e = exit_thread_eq [OF t this] and i = exit_thread_inv [OF t this]
    show ?thesis using with_threads_inv [OF assms(1) i [OF e]] exit pc by (simp add: e)
  qed
qed

lemma process_calls_inv:
  assumes "kernel_inv contents k" and "request_service r = ServiceId.Process" and "servable boxes r k"
  shows "\<exists>k' out. call Q boxes caller r k = Inr (k', out) \<and> kernel_inv contents k'"
proof -
  have p: "process_inv (process_side k)" using assms(1) by (simp add: kernel_inv_def)
  consider (create) e t where "r = ProcessCreate e t" | (exit) i c where "r = ProcessExit i c"
    | (read) i where "r = ProcessSnapshot i \<or> r = ProcessCount"
    using assms(2) by (cases r) auto
  then show ?thesis
  proof cases
    case create
    then have "process_inv (fst (process_create e t (process_side k)))"
      using process_create_inv [OF p] assms(3) by simp
    from with_processes_inv [OF assms(1) this] show ?thesis
      using create assms(1) by (auto simp: process_ops_threads split: prod.split)
  next
    case exit
    from with_processes_inv [OF assms(1) process_exit_inv [OF p, of i c]] show ?thesis
      using exit assms(1) by (auto simp: process_ops_threads split: prod.split)
  next
    case read
    then show ?thesis using assms(1) by auto
  qed
qed

lemma call_inv:
  assumes "array_queue Q capacity contents" and "kernel_inv contents k" and "servable boxes r k"
  shows "\<exists>k' out. call Q boxes caller r k = Inr (k', out) \<and> kernel_inv contents k'"
proof (cases "request_service r")
  case Process
  then show ?thesis using process_calls_inv assms(2,3) by blast
next
  case Thread
  then show ?thesis using thread_calls_inv assms(2,3) by blast
next
  case Memory
  then have "r = MemoryStats" by (cases r) simp_all
  moreover obtain L where "fsb_inv (k_heap k) L" using assms(2) by (auto simp: kernel_inv_def)
  ultimately show ?thesis using assms(2) by (auto simp: memory_stats_def allocator_stats_def fsb_stats_eq)
next
  case Input
  then have "r = InputReadByte" by (cases r) simp_all
  then show ?thesis
    using assms(2) read_byte_ascii [OF assms(1), of "k_input k"]
    by (cases "read_byte Q (k_input k)") (auto simp: kernel_inv_def)
next
  case Console
  then obtain bytes where r: "r = ConsoleWrite bytes" by (cases r) simp_all
  moreover have "vga_wf (k_console k)" using assms(2) by (simp add: kernel_inv_def)
  then obtain w where "console_write bytes (k_console k) = Inr (w, length bytes)" "vga_wf w"
    using console_write_ok by metis
  ultimately show ?thesis using assms(2) by (simp add: kernel_inv_def)
qed (use assms(2) in \<open>cases r; auto\<close>)+

lemma interrupts_inv:
  assumes "kernel_inv contents k"
  shows "unat (tick_count (SCHEDULER (k_thread k))) + 1 < 2 ^ 64 \<Longrightarrow>
      \<exists>k'. kernel_tick k = Inr k' \<and> kernel_inv contents k'"
    and "kernel_inv contents (fst (on_scancode Q W byte k))"
proof -
  show "\<exists>k'. kernel_tick k = Inr k' \<and> kernel_inv contents k'"
    if max: "unat (tick_count (SCHEDULER (k_thread k))) + 1 < 2 ^ 64"
  proof -
    let ?sc = "(SCHEDULER (k_thread k))\<lparr>tick_count := tick_count (SCHEDULER (k_thread k)) + 1\<rparr>"
    have "kernel_tick k = Inr (k\<lparr>k_thread := (k_thread k)\<lparr>SCHEDULER := ?sc\<rparr>\<rparr>)"
      using not_max_word [OF max] by (simp add: kernel_tick_def tick_def Let_def)
    moreover have "thread_inv ((k_thread k)\<lparr>SCHEDULER := ?sc\<rparr>)"
      using assms thread_inv_cong [of ?sc "k_thread k"] by (simp add: kernel_inv_def)
    then have "kernel_inv contents (k\<lparr>k_thread := (k_thread k)\<lparr>SCHEDULER := ?sc\<rparr>\<rparr>)"
      by (rule with_threads_inv [OF assms]) simp_all
    ultimately show ?thesis by blast
  qed
  show "kernel_inv contents (fst (on_scancode Q W byte k))"
    using assms
    by (auto simp: on_scancode_def add_scancode_def kernel_inv_def key_queue_ascii_def Let_def
        split: option.splits prod.splits)
qed

lemma kernel_inv_start:
  assumes "vga_wf (WRITER_init screen)" and "fsb_inv heap L"
  shows "kernel_inv contents ((Kernel_new boot_ctx W screen m)\<lparr>k_heap := heap\<rparr>)"
  using assms process_inv_init thread_inv_init [of boot_ctx]
  by (auto simp: kernel_inv_def Kernel_new_def key_queue_ascii_def keyboard_init_def thread_init_def)

section \<open>What a user may do\<close>

fun refused_to_user :: "ProcessId \<Rightarrow> Request \<Rightarrow> bool" where
  "refused_to_user p (ProcessCreate _ _) \<longleftrightarrow> True"
| "refused_to_user p (ProcessExit i _) \<longleftrightarrow> i \<noteq> p"
| "refused_to_user p (ProcessSnapshot i) \<longleftrightarrow> i \<noteq> p"
| "refused_to_user p ProcessCount \<longleftrightarrow> True"
| "refused_to_user p (ThreadSpawn _ _) \<longleftrightarrow> True"
| "refused_to_user p _ \<longleftrightarrow> False"

lemma user_refused:
  "refused_to_user p r \<Longrightarrow> call Q boxes (User p) r k = Inr (k, Reply (Err Denied))"
  by (cases r) auto

lemma user_served_not_denied:
  "\<not> refused_to_user p r \<Longrightarrow> call Q boxes (User p) r k = Inr (k', out) \<Longrightarrow> out \<noteq> Reply (Err Denied)"
  by (cases r) (auto simp: bind_res_eq_Inr Let_def split: if_splits option.splits prod.splits)

text \<open>The replies that a request can have: those of its own kind, and the errors of its checks.\<close>

fun reply_type :: "Request \<Rightarrow> outcome \<Rightarrow> bool" where
  "reply_type (ProcessCreate _ _) out \<longleftrightarrow> (case out of Reply (Response.Process _) \<Rightarrow> True | Reply (Err e) \<Rightarrow> e = Denied | _ \<Rightarrow> False)"
| "reply_type (ProcessExit _ _) out \<longleftrightarrow> (case out of Reply Ok \<Rightarrow> True | Reply (Err e) \<Rightarrow> e = Denied \<or> e = BadHandle | _ \<Rightarrow> False)"
| "reply_type (ProcessSnapshot _) out \<longleftrightarrow> (case out of Reply (Snapshot _) \<Rightarrow> True | Reply (Err e) \<Rightarrow> e = Denied | _ \<Rightarrow> False)"
| "reply_type ProcessCount out \<longleftrightarrow> (case out of Reply (Count _) \<Rightarrow> True | Reply (Err e) \<Rightarrow> e = Denied | _ \<Rightarrow> False)"
| "reply_type (ThreadSpawn _ _) out \<longleftrightarrow> (case out of Reply (Response.Thread _) \<Rightarrow> True | Reply (Err e) \<Rightarrow> e = Denied | _ \<Rightarrow> False)"
| "reply_type ThreadYield out \<longleftrightarrow> (case out of Reply r \<Rightarrow> r = Ok | ReplyAfter _ r \<Rightarrow> r = Ok | _ \<Rightarrow> False)"
| "reply_type ThreadExit out \<longleftrightarrow> (case out of NoReturn _ \<Rightarrow> True | _ \<Rightarrow> False)"
| "reply_type SchedulerStats out \<longleftrightarrow> (case out of Reply (Stats _) \<Rightarrow> True | _ \<Rightarrow> False)"
| "reply_type MemoryStats out \<longleftrightarrow> (case out of Reply (Response.Memory _) \<Rightarrow> True | _ \<Rightarrow> False)"
| "reply_type TimerTicks out \<longleftrightarrow> (case out of Reply (Ticks _) \<Rightarrow> True | _ \<Rightarrow> False)"
| "reply_type InputReadByte out \<longleftrightarrow> (case out of Reply (Byte _) \<Rightarrow> True | _ \<Rightarrow> False)"
| "reply_type (ConsoleWrite bytes) out \<longleftrightarrow> (case out of Reply (Written n) \<Rightarrow> n = length bytes | _ \<Rightarrow> False)"

lemma call_reply_typed: "call Q boxes caller r k = Inr (k', out) \<Longrightarrow> reply_type r out"
  by (cases r) (auto simp: bind_res_eq_Inr console_write_def Let_def split: if_splits option.splits prod.splits)

lemma reply_type_write: "reply_type (ConsoleWrite bytes) out \<longleftrightarrow> out = Reply (Written (length bytes))"
  by (auto split: outcome.splits Response.splits)

text \<open>What a request can change, service by service.\<close>

lemma call_processes_unchanged:
  assumes "call Q boxes caller r k = Inr (k', out)"
  shows "request_service r \<noteq> ServiceId.Process \<Longrightarrow> k_process k' = k_process k"
    and "request_service r \<noteq> ServiceId.Thread \<Longrightarrow> k_memory k' = k_memory k \<and>
      THREADS (k_thread k') = THREADS (k_thread k) \<and> NEXT_TID (k_thread k') = NEXT_TID (k_thread k) \<and>
      released (k_thread k') = released (k_thread k)"
    and "request_service r \<noteq> ServiceId.Input \<Longrightarrow> k_input k' = k_input k"
    and "request_service r \<noteq> ServiceId.Console \<Longrightarrow> k_console k' = k_console k"
    and "k_heap k' = k_heap k"
  using assms
  by (cases r; auto simp: bind_res_eq_Inr with_processes_def split: if_splits prod.splits)+

lemma park_confined:
  assumes "park sched = Inr sched'"
  shows "i \<noteq> current sched \<Longrightarrow> fmlookup (threads sched') i = fmlookup (threads sched) i"
    and "current sched' = current sched"
  using assms by (auto simp: park_def bind_res_eq_Inr Let_def split: if_splits option.splits)

lemma exit_thread_confined:
  assumes "exit_thread s = Inr (s', n)"
  shows "i \<noteq> current (THREADS s) \<Longrightarrow>
      fmlookup (threads (THREADS s')) i = fmlookup (threads (THREADS s)) i"
    and "NEXT_TID s' = NEXT_TID s"
proof -
  obtain sched where p: "park (THREADS (drain_reaper s)) = Inr sched"
    using assms by (auto simp: exit_thread_def Let_def bind_res_eq_Inr)
  have "threads (THREADS s') = threads sched" "NEXT_TID s' = NEXT_TID s"
    using assms p
    by (cases "ready sched"; auto simp: exit_thread_def Let_def bind_res_eq_Inr drain_reaper_facts)+
  then show "i \<noteq> current (THREADS s) \<Longrightarrow>
      fmlookup (threads (THREADS s')) i = fmlookup (threads (THREADS s)) i"
    and "NEXT_TID s' = NEXT_TID s"
    using park_confined(1) [OF p] by (simp_all add: drain_reaper_facts)
qed

lemma yield_now_confined:
  "yield_now s = Inr (s', sw) \<Longrightarrow> threads (THREADS s') = threads (THREADS s) \<and> NEXT_TID s' = NEXT_TID s"
  by (auto simp: yield_now_def bind_res_eq_Inr Let_def drain_reaper_facts split: list.splits)

lemma user_threads_confined:
  assumes "call Q boxes (User p) r k = Inr (k', out)"
  shows "NEXT_TID (k_thread k') = NEXT_TID (k_thread k) \<and> k_memory k' = k_memory k \<and>
    (\<forall>i. i \<noteq> current (THREADS (k_thread k)) \<longrightarrow>
      fmlookup (threads (THREADS (k_thread k'))) i = fmlookup (threads (THREADS (k_thread k))) i)"
proof (cases "request_service r = ServiceId.Thread")
  case False
  then show ?thesis using call_processes_unchanged(2) [OF assms] by simp
next
  case True
  then consider (refused) "refused_to_user p r" | (yield) "r = ThreadYield" | (exit) "r = ThreadExit"
    by (cases r) simp_all
  then show ?thesis
  proof cases
    case refused
    then show ?thesis using user_refused [of p r Q boxes k] assms by simp
  next
    case yield
    then obtain sw where "yield_now (k_thread k) = Inr (k_thread k', sw)" "k_memory k' = k_memory k"
      using assms by (auto simp: bind_res_eq_Inr)
    then show ?thesis using yield_now_confined by simp
  next
    case exit
    then obtain n where n: "exit_thread (k_thread k) = Inr (k_thread k', n)" "k_memory k' = k_memory k"
      using assms by (auto simp: bind_res_eq_Inr)
    show ?thesis using n(2) exit_thread_confined [OF n(1)] by simp
  qed
qed

lemma user_processes_confined:
  assumes "call Q boxes (User p) r k = Inr (k', out)"
  shows "NEXT_PID (k_process k') = NEXT_PID (k_process k) \<and>
    (\<forall>i. i \<noteq> p \<longrightarrow> fmlookup (processes (k_process k')) i = fmlookup (processes (k_process k)) i)"
proof (cases "request_service r = ServiceId.Process")
  case False
  then show ?thesis using call_processes_unchanged(1) [OF assms] by simp
next
  case True
  then consider (refused) "refused_to_user p r" | (exit) c where "r = ProcessExit p c"
    | (snapshot) "r = ProcessSnapshot p"
    by (cases r) auto
  then show ?thesis
  proof cases
    case refused
    then show ?thesis using user_refused [of p r Q boxes k] assms by simp
  next
    case exit
    then show ?thesis using assms by (auto simp: with_processes_def process_exit_def split: option.splits)
  next
    case snapshot
    then show ?thesis using assms by simp
  qed
qed

section \<open>Properties\<close>

text \<open>
  The invariant of the whole kernel survives every request. When the process table, the
  scheduler, the heap, the key queue and the screen are consistent, every request that the state
  can serve returns without a panic, whoever the caller is, and leaves them consistent: the
  counters still equal the number of registered processes and tracked threads, every thread
  is queued exactly once, and the key queue holds only ASCII.
\<close>

theorem call_keeps_kernel_invariant:
  assumes "array_queue Q capacity contents" and "kernel_inv contents k" and "servable boxes r k"
  shows "\<exists>k' out. call Q boxes caller r k = Inr (k', out) \<and> kernel_inv contents k' \<and>
    processes_alive (SCHEDULER (k_thread k')) = of_nat (process_count (k_process k')) \<and>
    threads_alive (SCHEDULER (k_thread k')) =
      of_nat (thread_count (k_thread k') + length (parked (k_thread k')))"
proof -
  obtain k' out where "call Q boxes caller r k = Inr (k', out)" and inv: "kernel_inv contents k'"
    using call_inv [OF assms] by blast
  moreover have "processes_alive (SCHEDULER (k_thread k')) = of_nat (process_count (k_process k'))"
    using inv by (simp add: kernel_inv_def process_inv_def)
  moreover have "threads_alive (SCHEDULER (k_thread k')) =
      of_nat (thread_count (k_thread k') + length (parked (k_thread k')))"
    using inv unfolding kernel_inv_def thread_inv_def by blast
  ultimately show ?thesis by blast
qed

text \<open>A concrete kernel after the heap has been initialised.\<close>

definition booted_kernel :: "(nat \<times> u8 list, nat option) kernel" where
  "booted_kernel =
    (Kernel_new 0x9000 option_waker (replicate 25 (blank_row 7)) (\<lambda>_. 0))
      \<lparr>k_heap := projr (fsb_init fsb_empty HEAP_START HEAP_SIZE)\<rparr>"

lemma booted_kernel_inv: "kernel_inv snd booted_kernel"
proof -
  obtain a where "fsb_init fsb_empty HEAP_START HEAP_SIZE = Inr a" "fsb_inv a Map.empty"
    using fsb_inv_init [of HEAP_START HEAP_SIZE] by (auto simp: HEAP_START_def HEAP_SIZE_def)
  moreover have "vga_wf (WRITER_init (replicate 25 (blank_row 7)))"
    by (simp add: vga_wf_def WRITER_init_def blank_row_def)
  ultimately show ?thesis using kernel_inv_start unfolding booted_kernel_def by (metis sum.sel(2))
qed

theorem call_keeps_kernel_invariant_witness:
  "\<exists>k' out. call list_queue (0, 0) Kernel (ProcessCreate 0x400000000000 0x400000003000) booted_kernel =
      Inr (k', out) \<and> kernel_inv snd k' \<and>
    processes_alive (SCHEDULER (k_thread k')) = of_nat (process_count (k_process k'))"
proof -
  have "servable (0, 0) (ProcessCreate 0x400000000000 0x400000003000) booted_kernel"
    by (simp add: booted_kernel_def Kernel_new_def ProcessService_new_def)
  from call_keeps_kernel_invariant [OF lq.array_queue_axioms booted_kernel_inv this, of Kernel]
  show ?thesis by blast
qed



text \<open>
  A service is reached only by its own requests. A request that belongs to another service,
  by the routing table of the ABI, leaves the process table, the scheduler, the key queue and
  the screen as they were, and no request touches the heap.
\<close>

theorem call_stays_in_its_service:
  assumes "call Q boxes caller r k = Inr (k', out)"
  shows "(request_service r \<noteq> ServiceId.Process \<longrightarrow> k_process k' = k_process k) \<and>
    (request_service r \<noteq> ServiceId.Thread \<longrightarrow> k_memory k' = k_memory k \<and>
      THREADS (k_thread k') = THREADS (k_thread k) \<and> released (k_thread k') = released (k_thread k)) \<and>
    (request_service r \<noteq> ServiceId.Input \<longrightarrow> k_input k' = k_input k) \<and>
    (request_service r \<noteq> ServiceId.Console \<longrightarrow> k_console k' = k_console k) \<and>
    k_heap k' = k_heap k"
  using call_processes_unchanged [OF assms] by blast

theorem call_stays_in_its_service_witness:
  "\<exists>k'. call list_queue (0, 0) Irq TimerTicks booted_kernel = Inr (k', Reply (Ticks 0)) \<and>
    k_process k' = k_process booted_kernel"
proof -
  have c: "call list_queue (0, 0) Irq TimerTicks booted_kernel = Inr (booted_kernel, Reply (Ticks 0))"
    by (simp add: booted_kernel_def Kernel_new_def thread_init_def Scheduler_new_def ticks_def)
  from call_stays_in_its_service [OF c] show ?thesis using c by auto
qed

lemma glyph_high: "0x80 \<le> n \<Longrightarrow> n < 0x100 \<Longrightarrow> glyph (of_nat n) = 0xfe"
proof -
  assume n: "0x80 \<le> n" "n < 0x100"
  then have u: "unat (of_nat n :: u8) = n" by (simp add: unat_of_nat take_bit_nat_eq_self)
  then have "\<not> (of_nat n :: u8) \<le> 0x7e" using n by (simp add: word_le_nat_alt)
  moreover have "(of_nat n :: u8) \<noteq> 0x0a"
  proof
    assume "(of_nat n :: u8) = 0x0a"
    then show False using u n(1) by simp
  qed
  ultimately show ?thesis by (simp add: glyph_def)
qed

lemma glyph_utf8:
  "map glyph (utf8 (unat b)) = (if b < 0x80 then [glyph b] else [0xfe, 0xfe])"
proof (cases "b < 0x80")
  case True
  then have "unat b < 0x80" by (simp add: word_less_nat_alt)
  then show ?thesis using True by (simp add: utf8_def)
next
  case False
  then have "0x80 \<le> unat b" "unat b < 0x100" using unsigned_less [of b] by (simp_all add: word_less_nat_alt)
  then have "utf8 (unat b) = [of_nat (0xc0 + unat b div 64), of_nat (0x80 + unat b mod 64)]"
    "0xc0 + unat b div 64 < 0x100" "0x80 + unat b mod 64 < 0x100"
    by (simp_all add: utf8_def less_mult_imp_div_less)
  then show ?thesis using False glyph_high by (simp only: list.map) simp
qed

text \<open>
  What a console write shows. The write reports the number of bytes given. The screen shows
  the last 25 rows of a terminal that received, for every printable ASCII byte or newline, that
  byte, for every other byte below \<open>0x80\<close> one box glyph, and for every byte from \<open>0x80\<close> on two
  box glyphs, since the byte is printed as the two UTF-8 bytes of its code point.
\<close>

theorem console_write_shows_bytes:
  assumes "vga_wf w"
  shows "\<exists>w' rows col. console_write bytes w = Inr (w', length bytes) \<and> vga_wf w' \<and>
    fold (term_put (color_code w)) (concat (map (\<lambda>b. if b < 0x80 then [glyph b] else [0xfe, 0xfe]) bytes))
      (buffer w, column_position w) = (rows, col) \<and>
    buffer w' = last_rows 25 rows \<and> column_position w' = col"
proof -
  let ?t = "fold (term_put (color_code w)) (map glyph (concat (map (\<lambda>b. utf8 (unat b)) bytes)))
      (buffer w, column_position w)"
  obtain w' where w': "console_write bytes w = Inr (w', length bytes)" "vga_wf w'" "shows_terminal ?t w'"
    using console_write_ok [OF assms] by metis
  obtain rows col where t: "?t = (rows, col)" by (cases ?t)
  have "map glyph (concat (map (\<lambda>b. utf8 (unat b)) bytes)) =
      concat (map (\<lambda>b. if b < 0x80 then [glyph b] else [0xfe, 0xfe]) bytes)"
    by (simp add: map_concat glyph_utf8 comp_def)
  then show ?thesis using w' t by (auto simp: shows_terminal_def)
qed

theorem console_write_shows_bytes_witness:
  "\<exists>w' rows col. console_write [0x48, 0xe9] (WRITER_init (replicate 25 (blank_row 7))) = Inr (w', 2) \<and>
    buffer w' = last_rows 25 rows \<and>
    fold (term_put 7) [0x48, 0xfe, 0xfe] (replicate 25 (blank_row 7), 0) = (rows, col)"
proof -
  let ?w = "WRITER_init (replicate 25 (blank_row 7))"
  have "vga_wf ?w" by (simp add: vga_wf_def WRITER_init_def blank_row_def)
  moreover have "color_code ?w = 7" "buffer ?w = replicate 25 (blank_row 7)" "column_position ?w = 0"
    by (simp_all add: WRITER_init_def ColorCode_new_def DEFAULT_FOREGROUND_def DEFAULT_BACKGROUND_def)
  moreover have "concat (map (\<lambda>b. if b < 0x80 then [glyph b] else [0xfe, 0xfe]) [0x48, 0xe9]) =
      [0x48, 0xfe, 0xfe]" "length [0x48 :: u8, 0xe9] = 2"
    by (simp_all add: glyph_def)
  ultimately show ?thesis
    using console_write_shows_bytes [of ?w "[0x48, 0xe9]"] by (simp only:) blast
qed

end
