(* ===== verification/Syscall.thy ===== *)
theory Syscall
  imports Kernel_Call
begin

text \<open>
  The \<open>int 0x80\<close> transport (\<open>src/src/syscall.rs\<close>): the saved register frame, the naked
  interrupt routine executed on the machine, and the dispatch of a frame into a kernel request.

  \<open>interrupt_enter\<close> is what the processor does on an interrupt from ring 3 through an interrupt
  gate: it switches to the stack of the task-state segment and pushes the five words that
  \<open>iretq\<close> pops. The compiled code of \<open>syscall_dispatch\<close> is a parameter of the routine. Which
  addresses are backed by a page is the parameter \<open>present\<close> of the dispatch: a read of any
  other address from ring 0 ends in the page-fault handler, which panics.
\<close>

section \<open>The model\<close>

definition USER_CODE_BASE :: u64 where
  "USER_CODE_BASE = 0x400000000000"

definition USER_STACK_BASE :: u64 where
  "USER_STACK_BASE = 0x400000002000"

definition USER_STACK_TOP :: u64 where
  "USER_STACK_TOP = 0x400000003000"

record SyscallFrame =
  f_r15 :: u64
  f_r14 :: u64
  f_r13 :: u64
  f_r12 :: u64
  f_r11 :: u64
  f_r10 :: u64
  f_r9 :: u64
  f_r8 :: u64
  f_rdi :: u64
  f_rsi :: u64
  f_rbp :: u64
  f_rbx :: u64
  f_rdx :: u64
  f_rcx :: u64
  f_rax :: u64
  f_rip :: u64
  f_cs :: u64
  f_rflags :: u64
  f_user_rsp :: u64
  f_user_ss :: u64

definition read_frame :: "memory \<Rightarrow> u64 \<Rightarrow> SyscallFrame" where
  "read_frame m a =
    \<lparr>f_r15 = read64 m a, f_r14 = read64 m (a + 8), f_r13 = read64 m (a + 16),
     f_r12 = read64 m (a + 24), f_r11 = read64 m (a + 32), f_r10 = read64 m (a + 40),
     f_r9 = read64 m (a + 48), f_r8 = read64 m (a + 56), f_rdi = read64 m (a + 64),
     f_rsi = read64 m (a + 72), f_rbp = read64 m (a + 80), f_rbx = read64 m (a + 88),
     f_rdx = read64 m (a + 96), f_rcx = read64 m (a + 104), f_rax = read64 m (a + 112),
     f_rip = read64 m (a + 120), f_cs = read64 m (a + 128), f_rflags = read64 m (a + 136),
     f_user_rsp = read64 m (a + 144), f_user_ss = read64 m (a + 152)\<rparr>"

definition isr_entry :: "instr list" where
  "isr_entry =
    [Push RAX, Push RCX, Push RDX, Push RBX, Push RBP, Push RSI, Push RDI, Push R8, Push R9,
     Push R10, Push R11, Push R12, Push R13, Push R14, Push R15, Mov RDI RSP]"

definition isr_exit :: "instr list" where
  "isr_exit =
    [Pop R15, Pop R14, Pop R13, Pop R12, Pop R11, Pop R10, Pop R9, Pop R8, Pop RDI, Pop RSI,
     Pop RBP, Pop RBX, Pop RDX, Pop RCX, Pop RAX, Iretq]"

definition syscall_isr :: "(cpu \<Rightarrow> cpu) \<Rightarrow> cpu \<Rightarrow> cpu" where
  "syscall_isr dispatch c = exec isr_exit (dispatch (exec isr_entry c))"

definition interrupt_enter :: "u64 \<Rightarrow> u64 \<Rightarrow> u64 \<Rightarrow> cpu \<Rightarrow> cpu" where
  "interrupt_enter rsp0 kernel_cs handler c =
    (let sp = rsp0 AND NOT 0xF in
     c\<lparr>regs := (regs c)(RSP := sp - 40), rip := handler, cs := kernel_cs, ss := 0,
       rflags := rflags c AND NOT 0x200,
       mem := push_words (mem c) sp [ss c, regs c RSP, rflags c, cs c, rip c]\<rparr>)"

definition SYS_EXIT :: u64 where "SYS_EXIT = 0"

definition SYS_WRITE :: u64 where "SYS_WRITE = 1"

definition SYS_READ :: u64 where "SYS_READ = 2"

definition SYS_YIELD :: u64 where "SYS_YIELD = 3"

definition STDOUT :: u64 where "STDOUT = 1"

definition MAX_USER_IO :: nat where "MAX_USER_IO = 4096"

definition u64_checked_add :: "u64 \<Rightarrow> u64 \<Rightarrow> u64 option" where
  "u64_checked_add a b = (if unat a + unat b < 2 ^ 64 then Some (a + b) else None)"

definition user_bytes :: "u64 \<Rightarrow> u64 \<Rightarrow> (u64 \<times> nat) option" where
  "user_bytes ptr len =
    (if of_nat MAX_USER_IO < len then None
     else case u64_checked_add ptr len of
       None \<Rightarrow> None
     | Some stop \<Rightarrow>
         if ptr < USER_CODE_BASE \<or> USER_STACK_TOP < stop then None
         else Some (ptr, unat len))"

text \<open>The read of the slice by the kernel.\<close>

definition load_slice :: "(u64 \<Rightarrow> bool) \<Rightarrow> memory \<Rightarrow> u64 \<times> nat \<Rightarrow> u8 list res" where
  "load_slice present m = (\<lambda>(ptr, n).
    if \<forall>i \<in> set [0..<n]. present (ptr + of_nat i) then Inr (read_bytes m ptr n)
    else Inl (Panicked ''Page fault''))"

text \<open>
  Where a system call leaves the processor: back in the calling process with a value for
  \<open>rax\<close>, the same after a switch to another thread, or in another thread for good.
\<close>

datatype sys_outcome = Rax u64 | RaxAfter "u64 \<times> u64" u64 | Gone u64

definition sys_exit ::
  "(u8, 'q) queue_ops \<Rightarrow> Caller \<Rightarrow> i32 \<Rightarrow> ('q, 's) kernel \<Rightarrow> (('q, 's) kernel \<times> sys_outcome) res" where
  "sys_exit Q caller code k =
    (case caller of
       User i \<Rightarrow>
         bind_res (call Q (0, 0) caller (ProcessExit i code) k) (\<lambda>(k, _).
         bind_res (exit_thread (k_thread k)) (\<lambda>(s, ctx). Inr (k\<lparr>k_thread := s\<rparr>, Gone ctx)))
     | _ \<Rightarrow> Inl (Panicked ''sys_exit called from kernel context''))"

definition sys_write ::
  "(u8, 'q) queue_ops \<Rightarrow> (u64 \<Rightarrow> bool) \<Rightarrow> Caller \<Rightarrow> SyscallFrame \<Rightarrow> ('q, 's) kernel \<Rightarrow>
    (('q, 's) kernel \<times> sys_outcome) res" where
  "sys_write Q present caller fr k =
    (if f_rdi fr \<noteq> STDOUT then Inr (k, Rax (errno BadHandle))
     else case user_bytes (f_rsi fr) (f_rdx fr) of
       None \<Rightarrow> Inr (k, Rax (errno BadPointer))
     | Some buf \<Rightarrow>
         bind_res (load_slice present (k_memory k) buf) (\<lambda>bytes.
         bind_res (call Q (0, 0) caller (ConsoleWrite bytes) k) (\<lambda>(k, out).
         Inr (k, Rax (case out of
             Reply (Written written) \<Rightarrow> of_nat written
           | Reply (Err error) \<Rightarrow> errno error
           | _ \<Rightarrow> errno Unsupported)))))"

definition sys_read ::
  "(u8, 'q) queue_ops \<Rightarrow> Caller \<Rightarrow> ('q, 's) kernel \<Rightarrow> (('q, 's) kernel \<times> sys_outcome) res" where
  "sys_read Q caller k =
    bind_res (call Q (0, 0) caller InputReadByte k) (\<lambda>(k, out).
    Inr (k, Rax (case out of
        Reply (Byte (Some byte)) \<Rightarrow> ucast byte
      | Reply (Byte None) \<Rightarrow> errno WouldBlock
      | Reply (Err error) \<Rightarrow> errno error
      | _ \<Rightarrow> errno Unsupported)))"

definition sys_yield ::
  "(u8, 'q) queue_ops \<Rightarrow> Caller \<Rightarrow> ('q, 's) kernel \<Rightarrow> (('q, 's) kernel \<times> sys_outcome) res" where
  "sys_yield Q caller k =
    bind_res (call Q (0, 0) caller ThreadYield k) (\<lambda>(k, out).
    let rax = (\<lambda>r. case r of Ok \<Rightarrow> 0 | Err error \<Rightarrow> errno error | _ \<Rightarrow> errno Unsupported) in
    Inr (k, case out of
        Reply r \<Rightarrow> Rax (rax r)
      | ReplyAfter sw r \<Rightarrow> RaxAfter sw (rax r)
      | NoReturn ctx \<Rightarrow> Gone ctx))"

definition syscall_dispatch ::
  "(u8, 'q) queue_ops \<Rightarrow> (u64 \<Rightarrow> bool) \<Rightarrow> SyscallFrame \<Rightarrow> ('q, 's) kernel \<Rightarrow>
    (('q, 's) kernel \<times> sys_outcome) res" where
  "syscall_dispatch Q present fr k =
    (let caller = User (current_process (k_thread k)) in
     if f_rax fr = SYS_EXIT then sys_exit Q caller (ucast (f_rdi fr)) k
     else if f_rax fr = SYS_WRITE then sys_write Q present caller fr k
     else if f_rax fr = SYS_READ then sys_read Q caller k
     else if f_rax fr = SYS_YIELD then sys_yield Q caller k
     else Inr (k, Rax (errno Unsupported)))"

section \<open>The interrupt routine\<close>

definition SAVED :: "reg list" where
  "SAVED = [RAX, RCX, RDX, RBX, RBP, RSI, RDI, R8, R9, R10, R11, R12, R13, R14, R15]"

lemma SAVED_facts [simp]:
  "RSP \<notin> set SAVED" "distinct SAVED" "length SAVED = 15" "r \<noteq> RSP \<Longrightarrow> r \<in> set SAVED"
  by (simp_all add: SAVED_def) (cases r; simp)

lemma isr_code:
  "isr_entry = map Push SAVED @ [Mov RDI RSP]" "isr_exit = map Pop (rev SAVED) @ [Iretq]"
  by (simp_all add: isr_entry_def isr_exit_def SAVED_def)

text \<open>The twenty words that the processor and the routine leave on the stack, lowest first.\<close>

definition user_words :: "cpu \<Rightarrow> u64 list" where
  "user_words c = map (regs c) (rev SAVED) @ [rip c, cs c, rflags c, regs c RSP, ss c]"

definition trapped :: "u64 \<Rightarrow> u64 \<Rightarrow> u64 \<Rightarrow> cpu \<Rightarrow> cpu" where
  "trapped rsp0 kernel_cs handler c = exec isr_entry (interrupt_enter rsp0 kernel_cs handler c)"

lemma trapped_regs:
  "regs (trapped rsp0 kernel_cs handler c) =
    (regs c)(RSP := (rsp0 AND NOT 0xF) - 160, RDI := (rsp0 AND NOT 0xF) - 160)"
  by (simp add: trapped_def isr_code exec_append exec_pushes interrupt_enter_def Let_def set_reg_def)

lemma trapped_frame:
  "frame (mem (trapped rsp0 kernel_cs handler c)) ((rsp0 AND NOT 0xF) - 160) (user_words c)"
proof -
  let ?sp = "rsp0 AND NOT 0xF" and ?c = "interrupt_enter rsp0 kernel_cs handler c"
  have "frame (mem ?c) (?sp - 40) [rip c, cs c, rflags c, regs c RSP, ss c]"
    using frame_push_words [of "mem c" ?sp "[]" "[ss c, regs c RSP, rflags c, cs c, rip c]"]
    by (simp add: interrupt_enter_def Let_def)
  moreover have "map (regs ?c) SAVED = map (regs c) SAVED"
    by (simp add: interrupt_enter_def Let_def SAVED_def)
  ultimately have "frame (push_words (mem ?c) (?sp - 40) (map (regs c) SAVED)) (?sp - 160) (user_words c)"
    using frame_push_words [of "mem ?c" "?sp - 40" "[rip c, cs c, rflags c, regs c RSP, ss c]"
        "map (regs c) SAVED"]
    by (simp add: user_words_def rev_map)
  moreover have "mem (trapped rsp0 kernel_cs handler c) =
      push_words (mem ?c) (?sp - 40) (map (regs c) SAVED)"
    using \<open>map (regs ?c) SAVED = map (regs c) SAVED\<close>
    by (simp add: trapped_def isr_code exec_append exec_pushes)
      (simp add: interrupt_enter_def Let_def)
  ultimately show ?thesis by simp
qed

lemma push_words_append:
  "push_words m sp (vs @ ws) = push_words (push_words m sp vs) (sp - 8 * of_nat (length vs)) ws"
  by (induction vs arbitrary: m sp) (simp_all add: algebra_simps)

lemma trapped_mem_outside:
  assumes "160 \<le> unat (x - ((rsp0 AND NOT 0xF) - 160))"
  shows "mem (trapped rsp0 kernel_cs handler c) x = mem c x"
proof -
  let ?vs = "[ss c, regs c RSP, rflags c, cs c, rip c] @ map (regs c) SAVED"
  have "map ((regs c)(RSP := v)) SAVED = map (regs c) SAVED" for v by (simp add: SAVED_def)
  then have "mem (trapped rsp0 kernel_cs handler c) = push_words (mem c) (rsp0 AND NOT 0xF) ?vs"
    by (simp only: push_words_append)
      (simp add: trapped_def isr_code exec_append exec_pushes interrupt_enter_def Let_def)
  then show ?thesis using push_words_outside [of ?vs x "rsp0 AND NOT 0xF" "mem c"] assms by simp
qed

text \<open>Leaving the routine: the frame decides where the processor goes.\<close>

lemma isr_exit_eq:
  assumes "frame (mem c) (regs c RSP) (map g (rev SAVED) @ [ip, co, fl, sp, st])"
  shows "exec isr_exit c = c\<lparr>regs := g(RSP := sp), rip := ip, cs := co, rflags := fl, ss := st\<rparr>"
proof -
  let ?sp = "regs c RSP"
  have f: "frame (mem c) ?sp (map g (rev SAVED))" "frame (mem c) (?sp + 120) [ip, co, fl, sp, st]"
    using assms by (simp_all add: frame_append del: frame.simps)
  have "exec (map Pop (rev SAVED)) c =
      set_reg RSP (?sp + 120) (c\<lparr>regs := load_regs (rev SAVED) (map g (rev SAVED)) (regs c)\<rparr>)"
    using exec_pops [of "rev SAVED" c "map g (rev SAVED)"] f(1) by simp
  moreover have "(load_regs (rev SAVED) (map g (rev SAVED)) (regs c))(RSP := v) = g(RSP := v)" for v
    using load_regs_map [of "rev SAVED" _ g "regs c"] by (auto simp: fun_eq_iff)
  ultimately show ?thesis
    using f(2) by (simp add: isr_code exec_append set_reg_def Let_def add.commute add.assoc)
qed

text \<open>
  What the routine needs from the compiled dispatch: the stack pointer is restored, and in the
  frame only the \<open>rax\<close> slot, the fifteenth word, changes.
\<close>

definition dispatch_returns :: "(cpu \<Rightarrow> cpu) \<Rightarrow> u64 \<Rightarrow> cpu \<Rightarrow> bool" where
  "dispatch_returns dispatch v c \<longleftrightarrow>
    regs (dispatch c) RSP = regs c RSP \<and>
    (\<forall>ws. length ws = 20 \<and> frame (mem c) (regs c RSP) ws \<longrightarrow>
      frame (mem (dispatch c)) (regs c RSP) (ws[14 := v]))"

lemma user_words_rax:
  "(user_words c)[14 := v] = map ((regs c)(RAX := v)) (rev SAVED) @ [rip c, cs c, rflags c, regs c RSP, ss c]"
  by (simp add: user_words_def SAVED_def)

lemma syscall_isr_eq:
  assumes "dispatch_returns dispatch v (trapped rsp0 kernel_cs handler c)"
  shows "syscall_isr dispatch (interrupt_enter rsp0 kernel_cs handler c) =
    c\<lparr>regs := (regs c)(RAX := v), mem := mem (dispatch (trapped rsp0 kernel_cs handler c))\<rparr>"
proof -
  let ?c = "trapped rsp0 kernel_cs handler c"
  have "frame (mem (dispatch ?c)) (regs (dispatch ?c) RSP)
      (map ((regs c)(RAX := v)) (rev SAVED) @ [rip c, cs c, rflags c, regs c RSP, ss c])"
    using assms trapped_frame [of rsp0 kernel_cs handler c]
    by (simp add: dispatch_returns_def trapped_regs flip: user_words_rax)
      (simp add: user_words_def)
  from isr_exit_eq [OF this] show ?thesis
    by (cases c) (auto simp: syscall_isr_def trapped_def [symmetric] fun_eq_iff)
qed

lemma read_frame_user_words:
  assumes "frame m a (user_words c)"
  shows "read_frame m a =
    \<lparr>f_r15 = regs c R15, f_r14 = regs c R14, f_r13 = regs c R13, f_r12 = regs c R12,
     f_r11 = regs c R11, f_r10 = regs c R10, f_r9 = regs c R9, f_r8 = regs c R8,
     f_rdi = regs c RDI, f_rsi = regs c RSI, f_rbp = regs c RBP, f_rbx = regs c RBX,
     f_rdx = regs c RDX, f_rcx = regs c RCX, f_rax = regs c RAX, f_rip = rip c, f_cs = cs c,
     f_rflags = rflags c, f_user_rsp = regs c RSP, f_user_ss = ss c\<rparr>"
  using assms by (simp add: user_words_def SAVED_def read_frame_def add.assoc)

lemma aligned_16: "16 dvd unat ((a AND NOT 0xF) - 160 :: u64)"
proof -
  have "take_bit 4 (a AND NOT (mask 4)) = 0" by (rule bit_word_eqI) (auto simp: bit_simps)
  then have "unat (take_bit 4 (a AND NOT 0xF)) = 0" by (simp add: mask_eq_exp_minus_1)
  then have "16 dvd unat (a AND NOT 0xF)"
    by (simp only: unsigned_take_bit_eq) (simp add: take_bit_eq_mod dvd_eq_mod_eq_0)
  then obtain q where "unat (a AND NOT 0xF) = 16 * q" by blast
  then show ?thesis by (simp add: unat_sub_if')
qed

section \<open>Dispatch\<close>

lemma user_bytes_eq:
  "user_bytes ptr len = Some b \<longleftrightarrow> b = (ptr, unat len) \<and> unat len \<le> 4096 \<and>
    unat USER_CODE_BASE \<le> unat ptr \<and> unat ptr + unat len \<le> unat USER_STACK_TOP"
proof -
  have "unat (ptr + len) = unat ptr + unat len" if "unat ptr + unat len < 2 ^ 64"
    using that by (simp add: unat_word_ariths)
  then show ?thesis
    by (auto simp: user_bytes_def u64_checked_add_def MAX_USER_IO_def USER_CODE_BASE_def
        USER_STACK_TOP_def word_less_nat_alt not_less)
qed

lemma user_bytes_None:
  "user_bytes ptr len = None \<longleftrightarrow> \<not> (unat len \<le> 4096 \<and>
    unat USER_CODE_BASE \<le> unat ptr \<and> unat ptr + unat len \<le> unat USER_STACK_TOP)"
  using user_bytes_eq [of ptr len "(ptr, unat len)"] user_bytes_eq [of ptr len] by (cases "user_bytes ptr len") auto

lemma errno_high: "2 ^ 64 - 6 \<le> unat (errno e)"
  by (cases e) (simp_all add: errno_def unsigned_minus_1_eq_mask mask_eq_exp_minus_1)

definition buffer_present :: "(u64 \<Rightarrow> bool) \<Rightarrow> SyscallFrame \<Rightarrow> bool" where
  "buffer_present present fr \<longleftrightarrow>
    (\<forall>i < unat (f_rdx fr). user_bytes (f_rsi fr) (f_rdx fr) \<noteq> None \<longrightarrow> present (f_rsi fr + of_nat i))"

lemma sys_write_ok:
  assumes "vga_wf (k_console k)" and "f_rdi fr = STDOUT"
    and "user_bytes (f_rsi fr) (f_rdx fr) \<noteq> None" and "buffer_present present fr"
  obtains w where
    "console_write (read_bytes (k_memory k) (f_rsi fr) (unat (f_rdx fr))) (k_console k) =
      Inr (w, unat (f_rdx fr))"
    and "vga_wf w" and "sys_write Q present caller fr k = Inr (k\<lparr>k_console := w\<rparr>, Rax (f_rdx fr))"
proof -
  let ?bytes = "read_bytes (k_memory k) (f_rsi fr) (unat (f_rdx fr))"
  have u: "user_bytes (f_rsi fr) (f_rdx fr) = Some (f_rsi fr, unat (f_rdx fr))"
    using assms(3) user_bytes_eq by (cases "user_bytes (f_rsi fr) (f_rdx fr)") auto
  have l: "load_slice present (k_memory k) (f_rsi fr, unat (f_rdx fr)) = Inr ?bytes"
    using assms(3,4) by (auto simp: load_slice_def buffer_present_def)
  obtain w where "console_write ?bytes (k_console k) = Inr (w, length ?bytes)" "vga_wf w"
    using console_write_ok [OF assms(1)] by metis
  then show ?thesis using that u l assms(2) by (simp add: sys_write_def)
qed

lemma sys_exit_ok:
  assumes "kernel_inv contents k" and "current (THREADS (k_thread k)) \<noteq> BOOTSTRAP_ID"
  obtains k' ctx where "sys_exit Q (User i) code k = Inr (k', Gone ctx)" and "kernel_inv contents k'"
    and "fmlookup (processes (k_process k')) i = None"
    and "\<And>j. j \<noteq> i \<Longrightarrow> fmlookup (processes (k_process k')) j = fmlookup (processes (k_process k)) j"
    and "threads (THREADS (k_thread k')) = fmdrop (current (THREADS (k_thread k))) (threads (THREADS (k_thread k)))"
    and "k_memory k' = k_memory k" and "k_console k' = k_console k" and "k_input k' = k_input k"
    and "THREADS (k_thread k') = THREADS (exited (drain_reaper (k_thread k)))"
    and "released (k_thread k') = released (drain_reaper (k_thread k))"
proof -
  let ?st = "fst (process_exit i code (process_side k))" and ?s = "k_thread k"
  let ?k = "with_processes k ?st"
  have p: "process_inv (process_side k)" using assms(1) by (simp add: kernel_inv_def)
  have kinv: "kernel_inv contents ?k"
    using with_processes_inv [OF assms(1) process_exit_inv [OF p, of i code]]
    by (simp add: process_ops_threads)
  then have tinv: "thread_inv (k_thread ?k)" by (simp add: kernel_inv_def)
  have same: "THREADS (k_thread ?k) = THREADS ?s" "k_memory ?k = k_memory k" "k_console ?k = k_console k"
    "k_input ?k = k_input k"
    by (simp_all add: with_processes_def split: prod.split)
  have cur: "current (THREADS (k_thread ?k)) \<noteq> BOOTSTRAP_ID" using assms(2) same by simp
  note e = exit_thread_eq [OF tinv cur]
  let ?s' = "exited (drain_reaper (k_thread ?k))"
  have "kernel_inv contents (?k\<lparr>k_thread := ?s'\<rparr>)"
    using with_threads_inv [OF kinv exit_thread_inv [OF tinv cur e]]
    by (simp add: thread_calls_processes drain_reaper_processes)
  moreover have "sys_exit Q (User i) code k = Inr (?k\<lparr>k_thread := ?s'\<rparr>, Gone (ctx_addr (k_thread ?k) (hd (ready (THREADS (k_thread ?k))))))"
    using e by (cases "process_exit i code (process_side k)") (simp add: sys_exit_def)
  moreover have "k_process ?k = fst ?st" by (simp add: with_processes_def split: prod.split)
  moreover have "fmlookup (processes (fst ?st)) i = None"
    "j \<noteq> i \<Longrightarrow> fmlookup (processes (fst ?st)) j = fmlookup (processes (k_process k)) j" for j
    by (auto simp: process_exit_def split: option.split)
  moreover have "THREADS ?s' = THREADS (exited (drain_reaper ?s))" "released ?s' = released (drain_reaper ?s)"
    by (auto simp: exited_def drain_reaper_def with_processes_def split: prod.split option.split)
  moreover have "threads (THREADS (exited (drain_reaper ?s))) = fmdrop (current (THREADS ?s)) (threads (THREADS ?s))"
    by (simp add: exited_def drain_reaper_facts)
  ultimately show ?thesis using same by (intro that [of "?k\<lparr>k_thread := ?s'\<rparr>"]) simp_all
qed

lemma sys_yield_ok:
  assumes "kernel_inv contents k"
  obtains k' out where "sys_yield Q caller k = Inr (k', out)" and "kernel_inv contents k'"
    and "out = Rax 0 \<or> (\<exists>sw. out = RaxAfter sw 0)" and "k' = k\<lparr>k_thread := turned (drain_reaper (k_thread k))\<rparr>"
proof -
  have t: "thread_inv (k_thread k)" using assms by (simp add: kernel_inv_def)
  let ?k = "k\<lparr>k_thread := turned (drain_reaper (k_thread k))\<rparr>"
  have "thread_inv (turned (drain_reaper (k_thread k)))" by (intro turned_inv drain_reaper_inv t)
  then have "kernel_inv contents ?k"
    using with_threads_inv [OF assms] by (simp add: thread_calls_processes drain_reaper_processes)
  then show ?thesis
    using that [of ?k] by (cases "ready (THREADS (k_thread k))") (simp_all add: sys_yield_def yield_now_eq [OF t])
qed

lemma sys_read_ok:
  assumes "array_queue Q capacity contents" and "kernel_inv contents k"
  obtains i b where "read_byte Q (k_input k) = (i, b)"
    and "sys_read Q caller k = Inr (k\<lparr>k_input := i\<rparr>, Rax (case b of None \<Rightarrow> errno WouldBlock | Some c \<Rightarrow> ucast c))"
    and "kernel_inv contents (k\<lparr>k_input := i\<rparr>)" and "\<And>c. b = Some c \<Longrightarrow> c \<le> 0x7f"
proof -
  obtain i b where r: "read_byte Q (k_input k) = (i, b)" by (cases "read_byte Q (k_input k)")
  have "key_queue_ascii contents (k_input k)" using assms(2) by (simp add: kernel_inv_def)
  then show ?thesis
    using that r read_byte_ascii [OF assms(1) _ r] assms(2)
    by (auto simp: sys_read_def kernel_inv_def split: option.split)
qed

text \<open>The dispatch, branch by branch.\<close>

lemmas syscall_numbers = SYS_EXIT_def SYS_WRITE_def SYS_READ_def SYS_YIELD_def

definition in_user_window :: "SyscallFrame \<Rightarrow> bool" where
  "in_user_window fr \<longleftrightarrow> unat (f_rdx fr) \<le> 4096 \<and> unat USER_CODE_BASE \<le> unat (f_rsi fr) \<and>
    unat (f_rsi fr) + unat (f_rdx fr) \<le> unat USER_STACK_TOP"

lemma dispatch_refused:
  "f_rax fr \<notin> {SYS_EXIT, SYS_WRITE, SYS_READ, SYS_YIELD} \<Longrightarrow>
    syscall_dispatch Q present fr k = Inr (k, Rax (errno Unsupported))"
  "f_rax fr = SYS_WRITE \<Longrightarrow> f_rdi fr \<noteq> STDOUT \<Longrightarrow>
    syscall_dispatch Q present fr k = Inr (k, Rax (errno BadHandle))"
  "f_rax fr = SYS_WRITE \<Longrightarrow> f_rdi fr = STDOUT \<Longrightarrow> \<not> in_user_window fr \<Longrightarrow>
    syscall_dispatch Q present fr k = Inr (k, Rax (errno BadPointer))"
  using user_bytes_None [of "f_rsi fr" "f_rdx fr"]
  by (auto simp: syscall_dispatch_def sys_write_def syscall_numbers in_user_window_def)

lemma dispatch_write_ok:
  assumes "kernel_inv contents k" and "buffer_present present fr"
    and "f_rax fr = SYS_WRITE" and "f_rdi fr = STDOUT" and "in_user_window fr"
  shows "\<exists>w. console_write (read_bytes (k_memory k) (f_rsi fr) (unat (f_rdx fr))) (k_console k) =
      Inr (w, unat (f_rdx fr)) \<and> kernel_inv contents (k\<lparr>k_console := w\<rparr>) \<and>
    syscall_dispatch Q present fr k = Inr (k\<lparr>k_console := w\<rparr>, Rax (f_rdx fr))"
proof -
  let ?u = "User (current_process (k_thread k))"
  have wf: "vga_wf (k_console k)" using assms(1) by (simp add: kernel_inv_def)
  have "user_bytes (f_rsi fr) (f_rdx fr) \<noteq> None"
    using assms(5) user_bytes_None by (auto simp: in_user_window_def)
  from sys_write_ok [OF wf assms(4) this assms(2), of Q ?u]
  obtain w where "console_write (read_bytes (k_memory k) (f_rsi fr) (unat (f_rdx fr))) (k_console k) =
      Inr (w, unat (f_rdx fr))" "vga_wf w"
    "sys_write Q present ?u fr k = Inr (k\<lparr>k_console := w\<rparr>, Rax (f_rdx fr))" .
  then show ?thesis
    using assms(1,3) by (simp add: syscall_dispatch_def syscall_numbers kernel_inv_def)
qed

lemma dispatch_read_ok:
  assumes "array_queue Q capacity contents" and "kernel_inv contents k" and "f_rax fr = SYS_READ"
  shows "\<exists>i b. read_byte Q (k_input k) = (i, b) \<and> (\<forall>c. b = Some c \<longrightarrow> c \<le> 0x7f) \<and>
    kernel_inv contents (k\<lparr>k_input := i\<rparr>) \<and>
    syscall_dispatch Q present fr k =
      Inr (k\<lparr>k_input := i\<rparr>, Rax (case b of None \<Rightarrow> errno WouldBlock | Some c \<Rightarrow> ucast c))"
proof (rule sys_read_ok [OF assms(1,2), of "User (current_process (k_thread k))"])
qed (use assms(3) in \<open>auto simp: syscall_dispatch_def syscall_numbers\<close>)

lemma dispatch_yield_ok:
  assumes "kernel_inv contents k" and "f_rax fr = SYS_YIELD"
  shows "\<exists>out. syscall_dispatch Q present fr k =
      Inr (k\<lparr>k_thread := turned (drain_reaper (k_thread k))\<rparr>, out) \<and>
    kernel_inv contents (k\<lparr>k_thread := turned (drain_reaper (k_thread k))\<rparr>) \<and>
    (out = Rax 0 \<or> (\<exists>sw. out = RaxAfter sw 0))"
  by (rule sys_yield_ok [OF assms(1), of Q "User (current_process (k_thread k))"])
    (use assms(2) in \<open>auto simp: syscall_dispatch_def syscall_numbers\<close>)

lemma dispatch_exit_unchanged:
  assumes "syscall_dispatch Q present fr k = Inr (k', out)" and "f_rax fr = SYS_EXIT"
  shows "k_input k' = k_input k \<and> k_heap k' = k_heap k"
proof -
  have "k_input k1 = k_input k \<and> k_heap k1 = k_heap k"
    if "call Q boxes caller (ProcessExit i c) k = Inr (k1, x)" for k1 x boxes caller i c
    using call_processes_unchanged(3,5) [OF that] by simp
  with assms show ?thesis
    by (auto simp: syscall_dispatch_def sys_exit_def Let_def bind_res_eq_Inr simp del: call.simps
        split: if_splits prod.splits)
qed

lemma dispatch_exit_ok:
  assumes "kernel_inv contents k" and "current (THREADS (k_thread k)) \<noteq> BOOTSTRAP_ID"
    and "f_rax fr = SYS_EXIT"
  shows "\<exists>k' ctx. syscall_dispatch Q present fr k = Inr (k', Gone ctx) \<and> kernel_inv contents k' \<and>
    fmlookup (processes (k_process k')) (current_process (k_thread k)) = None \<and>
    (\<forall>j. j \<noteq> current_process (k_thread k) \<longrightarrow>
      fmlookup (processes (k_process k')) j = fmlookup (processes (k_process k)) j) \<and>
    threads (THREADS (k_thread k')) =
      fmdrop (current (THREADS (k_thread k))) (threads (THREADS (k_thread k))) \<and>
    k_memory k' = k_memory k \<and> k_console k' = k_console k \<and>
    THREADS (k_thread k') = THREADS (exited (drain_reaper (k_thread k))) \<and>
    released (k_thread k') = released (drain_reaper (k_thread k))"
  by (rule sys_exit_ok [OF assms(1,2), of Q "current_process (k_thread k)" "ucast (f_rdi fr)"])
    (use assms(3) in \<open>auto simp: syscall_dispatch_def syscall_numbers\<close>)

text \<open>\<open>-Unsupported\<close> is not a result of a known call.\<close>

lemma errno_inj: "errno e = errno f \<longleftrightarrow> e = f"
  by (cases e; cases f) (simp_all add: errno_def)

lemma small_not_errno: "unat (x :: u64) \<le> 4096 \<Longrightarrow> x \<noteq> errno e"
  using errno_high [of e] by auto

lemma sys_write_value:
  assumes "sys_write Q present caller fr k = Inr (k', sys)"
  shows "\<exists>x. sys = Rax x \<and> x \<noteq> errno Unsupported"
proof (cases "f_rdi fr = STDOUT \<and> user_bytes (f_rsi fr) (f_rdx fr) \<noteq> None")
  case True
  then obtain b where b: "user_bytes (f_rsi fr) (f_rdx fr) = Some b" by blast
  then have len: "b = (f_rsi fr, unat (f_rdx fr))" "unat (f_rdx fr) \<le> 4096" by (simp_all add: user_bytes_eq)
  obtain bytes out where bytes: "load_slice present (k_memory k) b = Inr bytes"
    and c: "call Q (0, 0) caller (ConsoleWrite bytes) k = Inr (k', out)"
    and sys: "sys = Rax (case out of Reply (Written written) \<Rightarrow> of_nat written
      | Reply (Err error) \<Rightarrow> errno error | _ \<Rightarrow> errno Unsupported)"
    using assms True b by (auto simp: sys_write_def bind_res_eq_Inr simp del: call.simps)
  have "length bytes = unat (f_rdx fr)"
    using bytes len(1) by (auto simp: load_slice_def read_bytes_def split: if_splits)
  then have "sys = Rax (f_rdx fr)"
    using call_reply_typed [OF c] sys by (simp add: reply_type_write del: reply_type.simps)
  then show ?thesis using small_not_errno [OF len(2)] by simp
next
  case False
  then consider "f_rdi fr \<noteq> STDOUT" | "f_rdi fr = STDOUT" "user_bytes (f_rsi fr) (f_rdx fr) = None" by blast
  then have "sys = Rax (errno BadHandle) \<or> sys = Rax (errno BadPointer)"
    using assms by cases (simp_all add: sys_write_def)
  then show ?thesis by (auto simp: errno_inj)
qed

lemma sys_read_value:
  assumes "sys_read Q caller k = Inr (k', sys)"
  shows "\<exists>x. sys = Rax x \<and> x \<noteq> errno Unsupported"
proof -
  have "unat (ucast b :: u64) \<le> 4096" for b :: u8
  proof -
    have "unat b < 256" using unsigned_less [of b] by simp
    moreover have "unat (ucast b :: u64) \<le> unat b" by (simp add: unsigned_ucast_eq)
    ultimately show ?thesis by linarith
  qed
  then have "(ucast b :: u64) \<noteq> errno Unsupported" for b :: u8 by (rule small_not_errno)
  then show ?thesis
    using assms by (cases "read_byte Q (k_input k)") (auto simp: sys_read_def errno_inj split: option.splits)
qed

lemma sys_yield_value:
  "sys_yield Q caller k = Inr (k', sys) \<Longrightarrow> sys = Rax 0 \<or> (\<exists>sw. sys = RaxAfter sw 0)"
  by (auto simp: sys_yield_def bind_res_eq_Inr Let_def split: option.splits)

lemma sys_exit_value: "sys_exit Q caller code k = Inr (k', sys) \<Longrightarrow> \<exists>ctx. sys = Gone ctx"
  by (auto simp: sys_exit_def bind_res_eq_Inr split: Caller.splits)

lemma dispatch_unsupported:
  assumes "syscall_dispatch Q present fr k = Inr (k', sys)"
  shows "sys = Rax (errno Unsupported) \<longleftrightarrow> f_rax fr \<notin> {SYS_EXIT, SYS_WRITE, SYS_READ, SYS_YIELD}"
    and "sys \<noteq> RaxAfter sw (errno Unsupported)"
proof -
  let ?u = "User (current_process (k_thread k))"
  have zero: "(0 :: u64) \<noteq> errno Unsupported" by (rule small_not_errno) simp
  consider (exit) "f_rax fr = SYS_EXIT" "sys_exit Q ?u (ucast (f_rdi fr)) k = Inr (k', sys)"
    | (wr) "f_rax fr = SYS_WRITE" "sys_write Q present ?u fr k = Inr (k', sys)"
    | (rd) "f_rax fr = SYS_READ" "sys_read Q ?u k = Inr (k', sys)"
    | (yield) "f_rax fr = SYS_YIELD" "sys_yield Q ?u k = Inr (k', sys)"
    | (none) "f_rax fr \<notin> {SYS_EXIT, SYS_WRITE, SYS_READ, SYS_YIELD}" "sys = Rax (errno Unsupported)"
    using assms by (auto simp: syscall_dispatch_def Let_def split: if_splits)
  then have "(sys = Rax (errno Unsupported) \<longleftrightarrow> f_rax fr \<notin> {SYS_EXIT, SYS_WRITE, SYS_READ, SYS_YIELD}) \<and>
      sys \<noteq> RaxAfter sw (errno Unsupported)"
  proof cases
    case exit
    then show ?thesis using sys_exit_value by fastforce
  next
    case wr
    then show ?thesis using sys_write_value [OF wr(2)] by auto
  next
    case rd
    then show ?thesis using sys_read_value [OF rd(2)] by auto
  next
    case yield
    then show ?thesis using sys_yield_value [OF yield(2)] zero by auto
  qed simp
  then show "sys = Rax (errno Unsupported) \<longleftrightarrow> f_rax fr \<notin> {SYS_EXIT, SYS_WRITE, SYS_READ, SYS_YIELD}"
    and "sys \<noteq> RaxAfter sw (errno Unsupported)"
    by blast+
qed

section \<open>Properties\<close>

text \<open>
  C6: A system call is transparent except for \<open>rax\<close>. Trapping from any user state onto the
  privilege stack, the routine hands the dispatch a frame that holds exactly the user's
  registers and the processor's return state, field by field, at a stack pointer that is a
  multiple of 16, and has written nothing outside the 160 bytes of the frame. When the dispatch
  stores a value in the \<open>rax\<close> slot and keeps the rest of the frame, the user resumes behind the
  \<open>int\<close> with that value in \<open>rax\<close> and every other register, the flags, the selectors and the
  stack pointer as they were.
\<close>

theorem syscall_isr_transparent:
  assumes "dispatch_returns dispatch v (trapped rsp0 kernel_cs handler c)"
  shows "16 dvd unat (regs (trapped rsp0 kernel_cs handler c) RSP) \<and>
    read_frame (mem (trapped rsp0 kernel_cs handler c)) (regs (trapped rsp0 kernel_cs handler c) RDI) =
      \<lparr>f_r15 = regs c R15, f_r14 = regs c R14, f_r13 = regs c R13, f_r12 = regs c R12,
       f_r11 = regs c R11, f_r10 = regs c R10, f_r9 = regs c R9, f_r8 = regs c R8,
       f_rdi = regs c RDI, f_rsi = regs c RSI, f_rbp = regs c RBP, f_rbx = regs c RBX,
       f_rdx = regs c RDX, f_rcx = regs c RCX, f_rax = regs c RAX, f_rip = rip c, f_cs = cs c,
       f_rflags = rflags c, f_user_rsp = regs c RSP, f_user_ss = ss c\<rparr> \<and>
    (\<forall>x. 160 \<le> unat (x - regs (trapped rsp0 kernel_cs handler c) RSP) \<longrightarrow>
      mem (trapped rsp0 kernel_cs handler c) x = mem c x) \<and>
    syscall_isr dispatch (interrupt_enter rsp0 kernel_cs handler c) =
      c\<lparr>regs := (regs c)(RAX := v), mem := mem (dispatch (trapped rsp0 kernel_cs handler c))\<rparr>"
  using syscall_isr_eq [OF assms] read_frame_user_words [OF trapped_frame] aligned_16
    trapped_mem_outside
  by (simp add: trapped_regs)

text \<open>A dispatch that clobbers caller-saved registers and stores 19 in the \<open>rax\<close> slot.\<close>

definition returning_19 :: "cpu \<Rightarrow> cpu" where
  "returning_19 c = c\<lparr>regs := (regs c)(RAX := 7, RCX := 8, R11 := 9), mem := write64 (mem c) (regs c RSP + 112) 19\<rparr>"

lemma frame_update:
  assumes "frame m a ws" and "8 * length ws < 2 ^ 64" and "i < length ws"
  shows "frame (write64 m (a + 8 * of_nat i) v) a (ws[i := v])"
  unfolding frame_nth
proof (intro allI impI)
  fix j assume "j < length (ws[i := v])"
  then have j: "j < length ws" by simp
  have u: "unat (8 * of_nat l :: u64) = 8 * l" if "l < length ws" for l
    using that assms(2) unat_of_nat [where ?'a = 64, of "8 * l"] by (simp add: take_bit_nat_eq_self)
  have "read64 (write64 m (a + 8 * of_nat i) v) (a + 8 * of_nat j) = read64 m (a + 8 * of_nat j)" if "i \<noteq> j"
    using that u [OF j] u [OF assms(3)] j assms(2,3)
    by (intro read_write64_separate) (auto simp: separate_def unat_sub_if')
  then show "read64 (write64 m (a + 8 * of_nat i) v) (a + 8 * of_nat j) = ws[i := v] ! j"
    using assms(1) j by (cases "i = j") (simp_all add: frame_nth)
qed

lemma returning_19_ok: "dispatch_returns returning_19 19 c"
  using frame_update [where i = 14 and v = 19, of "mem c" "regs c RSP"]
  by (auto simp: dispatch_returns_def returning_19_def)

theorem syscall_isr_transparent_witness:
  "syscall_isr returning_19 (interrupt_enter 0x9008 8 0xABC \<lparr>regs = (\<lambda>_. 5), rip = 0x40, rflags = 0x202,
      cs = 0x33, ss = 0x2b, mem = (\<lambda>_. 0)\<rparr>) =
    \<lparr>regs = (\<lambda>_. 5)(RAX := 19), rip = 0x40, rflags = 0x202, cs = 0x33, ss = 0x2b,
     mem = mem (returning_19 (trapped 0x9008 8 0xABC \<lparr>regs = (\<lambda>_. 5), rip = 0x40, rflags = 0x202,
      cs = 0x33, ss = 0x2b, mem = (\<lambda>_. 0)\<rparr>))\<rparr>"
  using syscall_isr_transparent [OF returning_19_ok, of "0x9008" 8 "0xABC" "\<lparr>regs = (\<lambda>_. 5), rip = 0x40,
      rflags = 0x202, cs = 0x33, ss = 0x2b, mem = (\<lambda>_. 0)\<rparr>"]
  by simp

text \<open>
  C19: The bounds of a user buffer. \<open>user_bytes\<close> accepts a pointer and a length exactly when the
  length is at most one page and the buffer, computed without wrap-around, lies inside the user
  window; the slice it returns is that buffer, and no byte of it wraps around the address space.
\<close>

theorem user_bytes_bounds:
  "user_bytes ptr len =
      (if unat len \<le> 4096 \<and> unat USER_CODE_BASE \<le> unat ptr \<and> unat ptr + unat len \<le> unat USER_STACK_TOP
       then Some (ptr, unat len) else None) \<and>
    (\<forall>i. user_bytes ptr len \<noteq> None \<and> i < unat len \<longrightarrow>
      unat (ptr + of_nat i) = unat ptr + i \<and> USER_CODE_BASE \<le> ptr + of_nat i \<and> ptr + of_nat i < USER_STACK_TOP)"
proof (intro conjI allI impI)
  show "user_bytes ptr len =
      (if unat len \<le> 4096 \<and> unat USER_CODE_BASE \<le> unat ptr \<and> unat ptr + unat len \<le> unat USER_STACK_TOP
       then Some (ptr, unat len) else None)"
    using user_bytes_eq [of ptr len] user_bytes_None [of ptr len] by auto
next
  fix i
  assume i: "user_bytes ptr len \<noteq> None \<and> i < unat len"
  then have b: "unat USER_CODE_BASE \<le> unat ptr" "unat ptr + unat len \<le> unat USER_STACK_TOP"
    using user_bytes_None by auto
  have "unat USER_STACK_TOP < 2 ^ 64" by (simp add: USER_STACK_TOP_def)
  with b(2) i have "unat ptr + i < 2 ^ 64" by linarith
  then show sum: "unat (ptr + of_nat i) = unat ptr + i"
    by (simp add: unat_word_ariths unat_of_nat)
  show "USER_CODE_BASE \<le> ptr + of_nat i" "ptr + of_nat i < USER_STACK_TOP"
    using b i by (simp_all add: word_le_nat_alt word_less_nat_alt sum del: of_nat_add)
qed

theorem user_bytes_bounds_witness:
  "user_bytes 0xfffffffffffffffc 8 = None \<and> user_bytes 0x400000002ff8 8 = Some (0x400000002ff8, 8) \<and>
    (0x400000002ff8 :: u64) + of_nat 7 < USER_STACK_TOP"
proof -
  have "user_bytes 0xfffffffffffffffc 8 = None"
    using user_bytes_bounds [of "0xfffffffffffffffc" 8, THEN conjunct1]
    by (simp add: USER_STACK_TOP_def)
  moreover have s: "user_bytes 0x400000002ff8 8 = Some (0x400000002ff8, 8)"
    using user_bytes_bounds [of "0x400000002ff8" 8, THEN conjunct1]
    by (simp add: USER_CODE_BASE_def USER_STACK_TOP_def)
  moreover have "(0x400000002ff8 :: u64) + of_nat 7 < USER_STACK_TOP"
    using user_bytes_bounds [of "0x400000002ff8" 8, THEN conjunct2, THEN spec, of 7] s by simp
  ultimately show ?thesis by blast
qed

text \<open>
  C3: What every system call returns. An unknown number gives \<open>-Unsupported\<close>; a write to another
  descriptor than standard output gives \<open>-BadHandle\<close>, and one whose buffer is longer than a page
  or leaves the user window gives \<open>-BadPointer\<close>; all three change nothing. A write of a mapped
  buffer prints exactly its bytes and returns their number; a read returns the oldest byte of
  the key queue, or \<open>-WouldBlock\<close>; a yield returns 0; an exit does not return, and removes the
  process and its thread. An error is one of the six topmost 64-bit values, a success is at
  most 4096, so the caller can tell them apart.
\<close>

theorem syscall_results:
  assumes "array_queue Q capacity contents" and "kernel_inv contents k"
    and "current (THREADS (k_thread k)) \<noteq> BOOTSTRAP_ID" and "buffer_present present fr"
  shows "(f_rax fr \<notin> {SYS_EXIT, SYS_WRITE, SYS_READ, SYS_YIELD} \<longrightarrow>
      syscall_dispatch Q present fr k = Inr (k, Rax (errno Unsupported))) \<and>
    (f_rax fr = SYS_WRITE \<and> f_rdi fr \<noteq> STDOUT \<longrightarrow>
      syscall_dispatch Q present fr k = Inr (k, Rax (errno BadHandle))) \<and>
    (f_rax fr = SYS_WRITE \<and> f_rdi fr = STDOUT \<and> \<not> in_user_window fr \<longrightarrow>
      syscall_dispatch Q present fr k = Inr (k, Rax (errno BadPointer))) \<and>
    (f_rax fr = SYS_WRITE \<and> f_rdi fr = STDOUT \<and> in_user_window fr \<longrightarrow>
      (\<exists>w. console_write (read_bytes (k_memory k) (f_rsi fr) (unat (f_rdx fr))) (k_console k) =
          Inr (w, unat (f_rdx fr)) \<and>
        syscall_dispatch Q present fr k = Inr (k\<lparr>k_console := w\<rparr>, Rax (f_rdx fr)))) \<and>
    (f_rax fr = SYS_READ \<longrightarrow>
      (\<exists>i b. read_byte Q (k_input k) = (i, b) \<and> (\<forall>c. b = Some c \<longrightarrow> c \<le> 0x7f) \<and>
        syscall_dispatch Q present fr k =
          Inr (k\<lparr>k_input := i\<rparr>, Rax (case b of None \<Rightarrow> errno WouldBlock | Some c \<Rightarrow> ucast c)))) \<and>
    (f_rax fr = SYS_YIELD \<longrightarrow>
      (\<exists>k' out. syscall_dispatch Q present fr k = Inr (k', out) \<and>
        (out = Rax 0 \<or> (\<exists>sw. out = RaxAfter sw 0)))) \<and>
    (f_rax fr = SYS_EXIT \<longrightarrow>
      (\<exists>k' ctx. syscall_dispatch Q present fr k = Inr (k', Gone ctx) \<and>
        fmlookup (processes (k_process k')) (current_process (k_thread k)) = None \<and>
        threads (THREADS (k_thread k')) =
          fmdrop (current (THREADS (k_thread k))) (threads (THREADS (k_thread k))))) \<and>
    (\<forall>e. 2 ^ 64 - 6 \<le> unat (errno e))"
proof -
  note refused = dispatch_refused [of fr Q present k]
  have wr: "\<exists>w. console_write (read_bytes (k_memory k) (f_rsi fr) (unat (f_rdx fr))) (k_console k) =
          Inr (w, unat (f_rdx fr)) \<and>
        syscall_dispatch Q present fr k = Inr (k\<lparr>k_console := w\<rparr>, Rax (f_rdx fr))"
    if "f_rax fr = SYS_WRITE \<and> f_rdi fr = STDOUT \<and> in_user_window fr"
    using dispatch_write_ok [OF assms(2,4), of Q] that by blast
  have rd: "\<exists>i b. read_byte Q (k_input k) = (i, b) \<and> (\<forall>c. b = Some c \<longrightarrow> c \<le> 0x7f) \<and>
        syscall_dispatch Q present fr k =
          Inr (k\<lparr>k_input := i\<rparr>, Rax (case b of None \<Rightarrow> errno WouldBlock | Some c \<Rightarrow> ucast c))"
    if "f_rax fr = SYS_READ"
    using dispatch_read_ok [OF assms(1,2) that, of present] by blast
  have yi: "\<exists>k' out. syscall_dispatch Q present fr k = Inr (k', out) \<and>
        (out = Rax 0 \<or> (\<exists>sw. out = RaxAfter sw 0))" if "f_rax fr = SYS_YIELD"
    using dispatch_yield_ok [OF assms(2) that, of Q present] by blast
  have ex: "\<exists>k' ctx. syscall_dispatch Q present fr k = Inr (k', Gone ctx) \<and>
        fmlookup (processes (k_process k')) (current_process (k_thread k)) = None \<and>
        threads (THREADS (k_thread k')) =
          fmdrop (current (THREADS (k_thread k))) (threads (THREADS (k_thread k)))"
    if "f_rax fr = SYS_EXIT"
    using dispatch_exit_ok [OF assms(2,3) that, of Q present] by blast
  show ?thesis
    using refused wr rd yi ex errno_high by simp
qed

text \<open>A concrete kernel in which the one thread of process 1 is running.\<close>

definition user_kernel :: "memory \<Rightarrow> (nat \<times> u8 list, nat option) kernel" where
  "user_kernel m = booted_kernel
    \<lparr>k_process := \<lparr>processes = fmupd 1 \<lparr>pid = 1, page_table_root = None, user_entry = USER_CODE_BASE,
         user_stack_top = USER_STACK_TOP, state = Ready\<rparr> fmempty, NEXT_PID = 2\<rparr>,
     k_thread := \<lparr>THREADS = \<lparr>threads = fmupd 1 \<lparr>kt_id = 1, kt_process = 1, kt_context = 0x100,
         kt_stack = 0x8000\<rparr> fmempty, ready = [BOOTSTRAP_ID], current = 1, bootstrap_context = 0x9000,
         reaper = None\<rparr>, NEXT_TID = 2,
       SCHEDULER = Scheduler_new\<lparr>threads_alive := 1, threads_spawned := 1, processes_alive := 1,
         processes_spawned := 1\<rparr>, released = []\<rparr>,
     k_memory := m\<rparr>"

lemma user_kernel_inv: "kernel_inv snd (user_kernel m)"
proof -
  have "process_inv (process_side (user_kernel m))"
    by (simp add: user_kernel_def process_inv_def process_count_def KERNEL_PID_def)
  moreover have "thread_inv (k_thread (user_kernel m))"
    by (auto simp: user_kernel_def thread_inv_def run_queue_def parked_def thread_count_def BOOTSTRAP_ID_def)
  ultimately show ?thesis using booted_kernel_inv by (simp add: kernel_inv_def user_kernel_def)
qed

lemma user_kernel_facts [simp]:
  "current (THREADS (k_thread (user_kernel m))) = 1" "current_process (k_thread (user_kernel m)) = 1"
  "k_memory (user_kernel m) = m" "k_input (user_kernel m) = keyboard_init option_waker"
  by (simp_all add: user_kernel_def current_process_def BOOTSTRAP_ID_def booted_kernel_def Kernel_new_def)

definition zero_frame :: SyscallFrame where
  "zero_frame =
    \<lparr>f_r15 = 0, f_r14 = 0, f_r13 = 0, f_r12 = 0, f_r11 = 0, f_r10 = 0, f_r9 = 0, f_r8 = 0, f_rdi = 0,
     f_rsi = 0, f_rbp = 0, f_rbx = 0, f_rdx = 0, f_rcx = 0, f_rax = 0, f_rip = 0, f_cs = 0,
     f_rflags = 0, f_user_rsp = 0, f_user_ss = 0\<rparr>"

lemma zero_frame_simps [simp]: "f_rax zero_frame = 0" "f_rdi zero_frame = 0" "f_rsi zero_frame = 0" "f_rdx zero_frame = 0"
  by (simp_all add: zero_frame_def)

theorem syscall_results_witness:
  "\<exists>w k' ctx. syscall_dispatch list_queue (\<lambda>_. True)
      (zero_frame\<lparr>f_rax := 1, f_rdi := 1, f_rsi := USER_CODE_BASE, f_rdx := 4\<rparr>) (user_kernel (\<lambda>_. 0x41)) =
        Inr ((user_kernel (\<lambda>_. 0x41))\<lparr>k_console := w\<rparr>, Rax 4) \<and>
    syscall_dispatch list_queue (\<lambda>_. True) zero_frame (user_kernel (\<lambda>_. 0x41)) = Inr (k', Gone ctx)"
proof -
  let ?k = "user_kernel (\<lambda>_. 0x41)"
  let ?w = "zero_frame\<lparr>f_rax := 1, f_rdi := 1, f_rsi := USER_CODE_BASE, f_rdx := 4\<rparr>"
  have cur: "current (THREADS (k_thread ?k)) \<noteq> BOOTSTRAP_ID" by (simp add: BOOTSTRAP_ID_def)
  have pr: "buffer_present (\<lambda>_. True) fr" for fr by (simp add: buffer_present_def)
  note res = syscall_results [OF lq.array_queue_axioms user_kernel_inv cur pr]
  have "f_rax ?w = SYS_WRITE \<and> f_rdi ?w = STDOUT \<and> in_user_window ?w"
    by (simp add: syscall_numbers STDOUT_def in_user_window_def USER_CODE_BASE_def USER_STACK_TOP_def)
  then obtain w where "syscall_dispatch list_queue (\<lambda>_. True) ?w ?k = Inr (?k\<lparr>k_console := w\<rparr>, Rax (f_rdx ?w))"
    using res [of ?w] by blast
  moreover have "f_rax zero_frame = SYS_EXIT" by (simp add: syscall_numbers)
  then obtain k' ctx where "syscall_dispatch list_queue (\<lambda>_. True) zero_frame ?k = Inr (k', Gone ctx)"
    using res [of zero_frame] by blast
  ultimately show ?thesis by (intro exI [of _ w] exI [of _ k'] exI [of _ ctx]) simp
qed



definition process_pages :: "u64 \<Rightarrow> bool" where
  "process_pages a \<longleftrightarrow> USER_CODE_BASE \<le> a \<and> a < USER_CODE_BASE + 0x1000 \<or>
    USER_STACK_BASE \<le> a \<and> a < USER_STACK_TOP"

text \<open>
  C38: Replies have the type of their request. Whoever calls, in whatever state, a request that
  returns is answered with a response of its own kind, a console write with the length of its
  buffer, or with an error of its permission or handle check. So the fallback arms of the
  system calls are dead: \<open>-Unsupported\<close> is returned exactly for an unknown call number.
\<close>

theorem replies_well_typed:
  "(call Q boxes caller r k = Inr (k', out) \<longrightarrow> reply_type r out) \<and>
    (syscall_dispatch Q present fr k\<^sub>0 = Inr (k'', sys) \<longrightarrow>
      (sys = Rax (errno Unsupported) \<longleftrightarrow> f_rax fr \<notin> {SYS_EXIT, SYS_WRITE, SYS_READ, SYS_YIELD}) \<and>
      (\<forall>sw. sys \<noteq> RaxAfter sw (errno Unsupported)))"
  using call_reply_typed [of Q boxes caller r k k' out] dispatch_unsupported [of Q present fr k\<^sub>0 k'' sys] by blast

theorem replies_well_typed_witness:
  "reply_type TimerTicks (Reply (Ticks 0)) \<and>
    syscall_dispatch list_queue process_pages (zero_frame\<lparr>f_rax := 77\<rparr>) (user_kernel (\<lambda>_. 0)) =
      Inr (user_kernel (\<lambda>_. 0), Rax (errno Unsupported))"
proof -
  have c: "call list_queue (0, 0) Irq TimerTicks booted_kernel = Inr (booted_kernel, Reply (Ticks 0))"
    by (simp add: booted_kernel_def Kernel_new_def thread_init_def Scheduler_new_def ticks_def)
  obtain k'' sys where d: "syscall_dispatch list_queue process_pages (zero_frame\<lparr>f_rax := 77\<rparr>) (user_kernel (\<lambda>_. 0)) =
      Inr (k'', sys)" "k'' = user_kernel (\<lambda>_. 0)"
    by (simp add: syscall_dispatch_def syscall_numbers)
  note t = replies_well_typed [of list_queue "(0, 0)" Irq TimerTicks booted_kernel booted_kernel "Reply (Ticks 0)"
      process_pages "zero_frame\<lparr>f_rax := 77\<rparr>" "user_kernel (\<lambda>_. 0)" k'' sys]
  have "reply_type TimerTicks (Reply (Ticks 0))" using t [THEN conjunct1, THEN mp, OF c] .
  moreover have "sys = Rax (errno Unsupported)"
    using t [THEN conjunct2, THEN mp, OF d(1)] by (simp add: syscall_numbers)
  ultimately show ?thesis using d by simp
qed

text \<open>
  C36: The window of \<open>user_bytes\<close> is wider than what a process has. When only the code page and the
  stack page are mapped, a write whose buffer lies in the page between them, or runs past the
  end of the code page, passes the validation, and the kernel's own read of the buffer faults
  in ring 0 and panics. With any other accepted buffer it does not.
\<close>

theorem write_from_unmapped_hole_panics:
  assumes "f_rax fr = SYS_WRITE" and "f_rdi fr = STDOUT" and "in_user_window fr"
    and "kernel_inv contents k"
  shows "syscall_dispatch Q process_pages fr k = Inl (Panicked ''Page fault'') \<longleftrightarrow>
    (\<exists>i < unat (f_rdx fr). \<not> process_pages (f_rsi fr + of_nat i))"
proof (cases "\<exists>i < unat (f_rdx fr). \<not> process_pages (f_rsi fr + of_nat i)")
  case True
  have "user_bytes (f_rsi fr) (f_rdx fr) = Some (f_rsi fr, unat (f_rdx fr))"
    using assms(3) by (simp add: user_bytes_eq in_user_window_def)
  then have "syscall_dispatch Q process_pages fr k = Inl (Panicked ''Page fault'')"
    using True assms(1,2) by (auto simp: syscall_dispatch_def sys_write_def syscall_numbers load_slice_def)
  then show ?thesis using True by blast
next
  case False
  then have "buffer_present process_pages fr" by (simp add: buffer_present_def)
  from dispatch_write_ok [OF assms(4) this assms(1,2,3), of Q] False show ?thesis by auto
qed

theorem write_from_unmapped_hole_panics_witness:
  "syscall_dispatch list_queue process_pages
      (zero_frame\<lparr>f_rax := 1, f_rdi := 1, f_rsi := USER_CODE_BASE + 0x1000, f_rdx := 1\<rparr>) (user_kernel (\<lambda>_. 0)) =
    Inl (Panicked ''Page fault'')"
proof -
  let ?f = "zero_frame\<lparr>f_rax := 1, f_rdi := 1, f_rsi := USER_CODE_BASE + 0x1000, f_rdx := 1\<rparr>"
  have "f_rax ?f = SYS_WRITE" "f_rdi ?f = STDOUT" "in_user_window ?f"
    by (simp_all add: syscall_numbers STDOUT_def in_user_window_def USER_CODE_BASE_def USER_STACK_TOP_def)
  moreover have "\<exists>i < unat (f_rdx ?f). \<not> process_pages (f_rsi ?f + of_nat i)"
    by (simp add: process_pages_def USER_CODE_BASE_def USER_STACK_BASE_def USER_STACK_TOP_def)
  ultimately show ?thesis
    using write_from_unmapped_hole_panics [OF _ _ _ user_kernel_inv, of ?f list_queue "\<lambda>_. 0"] by blast
qed

end
