(* ===== verification/Interrupts.thy ===== *)
theory Interrupts
  imports Syscall
begin

text \<open>
  Exceptions and hardware interrupts (\<open>src/src/interrupts.rs\<close>): the handlers, the interrupt
  descriptor table, and what the processor does with an exception or an \<open>int\<close> instruction that
  meets this table.

  The text that a fault handler prints comes from the standard formatter and is an argument.
  A handler that sends an end-of-interrupt returns the vector it acknowledged.
\<close>

section \<open>The handlers\<close>

definition PIC_1_OFFSET :: u8 where "PIC_1_OFFSET = 32"

definition PIC_2_OFFSET :: u8 where "PIC_2_OFFSET = PIC_1_OFFSET + 8"

definition SYSCALL_VECTOR :: u8 where "SYSCALL_VECTOR = 0x80"

datatype InterruptIndex = Timer | Keyboard

fun as_u8 :: "InterruptIndex \<Rightarrow> u8" where
  "as_u8 InterruptIndex.Timer = PIC_1_OFFSET"
| "as_u8 Keyboard = PIC_1_OFFSET + 1"

definition faulted_in_ring3 :: "u64 \<Rightarrow> bool" where
  "faulted_in_ring3 code_segment \<longleftrightarrow> code_segment AND 0b11 = 0b11"

definition kill_faulting_process ::
  "(u8, 'q) queue_ops \<Rightarrow> ('q, 's) kernel \<Rightarrow> (('q, 's) kernel \<times> u64) res" where
  "kill_faulting_process Q k =
    (let i = current_process (k_thread k) in
     if i = KERNEL_PID then Inl (Panicked ''ring-3 fault without a process context'')
     else bind_res (call Q (0, 0) (User i) (ProcessExit i (- 1)) k) (\<lambda>(k, _).
          bind_res (exit_thread (k_thread k)) (\<lambda>(s, ctx). Inr (k\<lparr>k_thread := s\<rparr>, ctx))))"

definition gpf_handler ::
  "(u8, 'q) queue_ops \<Rightarrow> u8 list \<Rightarrow> u64 \<Rightarrow> ('q, 's) kernel \<Rightarrow> (('q, 's) kernel \<times> u64) res" where
  "gpf_handler Q report code_segment k =
    bind_res (vga_println report (k_console k)) (\<lambda>w.
    let k = k\<lparr>k_console := w\<rparr> in
    if faulted_in_ring3 code_segment then kill_faulting_process Q k
    else Inl (Panicked ''General protection fault''))"

definition page_fault_handler ::
  "(u8, 'q) queue_ops \<Rightarrow> u8 list \<Rightarrow> u64 \<Rightarrow> ('q, 's) kernel \<Rightarrow> (('q, 's) kernel \<times> u64) res" where
  "page_fault_handler Q report code_segment k =
    bind_res (vga_println report (k_console k)) (\<lambda>w.
    let k = k\<lparr>k_console := w\<rparr> in
    if faulted_in_ring3 code_segment then kill_faulting_process Q k
    else Inl (Panicked ''Page fault''))"

definition breakpoint_handler :: "u8 list \<Rightarrow> ('q, 's) kernel \<Rightarrow> ('q, 's) kernel res" where
  "breakpoint_handler report k =
    bind_res (vga_println report (k_console k)) (\<lambda>w. Inr (k\<lparr>k_console := w\<rparr>))"

definition double_fault_handler :: "('q, 's) kernel \<Rightarrow> (('q, 's) kernel \<times> u64) res" where
  "double_fault_handler k = Inl (Panicked ''EXCEPTION: DOUBLE FAULT'')"

definition timer_interrupt_handler :: "('q, 's) kernel \<Rightarrow> (('q, 's) kernel \<times> u8) res" where
  "timer_interrupt_handler k = bind_res (kernel_tick k) (\<lambda>k. Inr (k, as_u8 InterruptIndex.Timer))"

definition keyboard_interrupt_handler ::
  "(u8, 'q) queue_ops \<Rightarrow> ('w, 's) waker_ops \<Rightarrow> u8 \<Rightarrow> ('q, 's) kernel \<Rightarrow>
    ('q, 's) kernel \<times> 'w scancode_result \<times> u8" where
  "keyboard_interrupt_handler Q W scancode k =
    (let (k, r) = on_scancode Q W scancode k in (k, r, as_u8 Keyboard))"

section \<open>The descriptor table\<close>

datatype handler =
    BreakpointHandler | DoubleFaultHandler | GpfHandler | PageFaultHandler
  | TimerHandler | KeyboardHandler | SyscallIsr

record idt_entry =
  idt_handler :: handler
  idt_dpl :: nat
  idt_stack_index :: "nat option"

definition IDT :: "nat \<Rightarrow> idt_entry option" where
  "IDT n =
    (if n = 3 then Some \<lparr>idt_handler = BreakpointHandler, idt_dpl = 0, idt_stack_index = None\<rparr>
     else if n = 8 then Some \<lparr>idt_handler = DoubleFaultHandler, idt_dpl = 0, idt_stack_index = Some 0\<rparr>
     else if n = unat (as_u8 InterruptIndex.Timer) then
       Some \<lparr>idt_handler = TimerHandler, idt_dpl = 0, idt_stack_index = None\<rparr>
     else if n = unat (as_u8 Keyboard) then
       Some \<lparr>idt_handler = KeyboardHandler, idt_dpl = 0, idt_stack_index = None\<rparr>
     else if n = 14 then Some \<lparr>idt_handler = PageFaultHandler, idt_dpl = 0, idt_stack_index = None\<rparr>
     else if n = 13 then Some \<lparr>idt_handler = GpfHandler, idt_dpl = 0, idt_stack_index = None\<rparr>
     else if n = unat SYSCALL_VECTOR then
       Some \<lparr>idt_handler = SyscallIsr, idt_dpl = 3, idt_stack_index = None\<rparr>
     else None)"

text \<open>
  The processor's delivery rules. An \<open>int n\<close> from privilege level \<open>cpl\<close> is checked against the
  privilege of the gate before its presence, so a gate that ring 3 may not use raises a general
  protection fault. An exception has no privilege check; if its gate is missing the processor
  raises a segment-not-present fault, and if that gate is missing too, a double fault.
\<close>

definition int_target :: "nat \<Rightarrow> nat \<Rightarrow> handler option" where
  "int_target cpl n =
    (case IDT n of
       Some e \<Rightarrow> if cpl \<le> idt_dpl e then Some (idt_handler e) else map_option idt_handler (IDT 13)
     | None \<Rightarrow> if cpl = 0 then map_option idt_handler (IDT 11) else map_option idt_handler (IDT 13))"

definition exception_target :: "nat \<Rightarrow> handler option" where
  "exception_target n =
    (case IDT n of Some e \<Rightarrow> Some (idt_handler e)
     | None \<Rightarrow> (case IDT 11 of Some e \<Rightarrow> Some (idt_handler e) | None \<Rightarrow> map_option idt_handler (IDT 8)))"

text \<open>The outcome of a processor exception taken in ring 3: the selected fault handler runs.\<close>

definition take_exception ::
  "(u8, 'q) queue_ops \<Rightarrow> u8 list \<Rightarrow> u64 \<Rightarrow> nat \<Rightarrow> ('q, 's) kernel \<Rightarrow> (('q, 's) kernel \<times> u64 option) res" where
  "take_exception Q report code_segment n k =
    (case exception_target n of
       Some GpfHandler \<Rightarrow> bind_res (gpf_handler Q report code_segment k) (\<lambda>(k, ctx). Inr (k, Some ctx))
     | Some PageFaultHandler \<Rightarrow>
         bind_res (page_fault_handler Q report code_segment k) (\<lambda>(k, ctx). Inr (k, Some ctx))
     | Some BreakpointHandler \<Rightarrow> bind_res (breakpoint_handler report k) (\<lambda>k. Inr (k, None))
     | _ \<Rightarrow> bind_res (double_fault_handler k) (\<lambda>(k, ctx). Inr (k, Some ctx)))"

section \<open>Faults kill their process\<close>

lemma vga_println_ok:
  assumes "vga_wf w"
  obtains w' where "vga_println s w = Inr w'" and "vga_wf w'"
  using write_string_shows [OF shows_terminal_start [OF assms], of "s @ [0x0a]"]
  by (auto simp: vga_println_def vga_print_def shows_terminal_def)

lemma kill_faulting_process_eq:
  assumes "current_process (k_thread k) \<noteq> KERNEL_PID"
  shows "sys_exit Q (User (current_process (k_thread k))) (- 1) k =
    bind_res (kill_faulting_process Q k) (\<lambda>(k, ctx). Inr (k, Gone ctx))"
  using assms
  by (simp add: kill_faulting_process_def sys_exit_def Let_def bind_res_assoc case_prod_unfold)

text \<open>What is left of the kernel when the running process has been killed.\<close>

definition killed :: "('q, 's) kernel \<Rightarrow> ('q, 's) kernel \<Rightarrow> bool" where
  "killed k k' \<longleftrightarrow>
    fmlookup (processes (k_process k')) (current_process (k_thread k)) = None \<and>
    (\<forall>j. j \<noteq> current_process (k_thread k) \<longrightarrow>
      fmlookup (processes (k_process k')) j = fmlookup (processes (k_process k)) j) \<and>
    threads (THREADS (k_thread k')) =
      fmdrop (current (THREADS (k_thread k))) (threads (THREADS (k_thread k))) \<and>
    k_memory k' = k_memory k \<and> k_input k' = k_input k"

lemma kill_faulting_process_ok:
  assumes "kernel_inv contents k" and "current (THREADS (k_thread k)) \<noteq> BOOTSTRAP_ID"
    and "current_process (k_thread k) \<noteq> KERNEL_PID"
  obtains k' ctx where "kill_faulting_process Q k = Inr (k', ctx)" and "kernel_inv contents k'" and "killed k k'"
proof -
  let ?i = "current_process (k_thread k)"
  obtain k' ctx where k': "sys_exit Q (User ?i) (- 1) k = Inr (k', Gone ctx)" "kernel_inv contents k'"
    "fmlookup (processes (k_process k')) ?i = None"
    "\<And>j. j \<noteq> ?i \<Longrightarrow> fmlookup (processes (k_process k')) j = fmlookup (processes (k_process k)) j"
    "threads (THREADS (k_thread k')) = fmdrop (current (THREADS (k_thread k))) (threads (THREADS (k_thread k)))"
    "k_memory k' = k_memory k" "k_input k' = k_input k"
    using sys_exit_ok [OF assms(1,2), of Q ?i "- 1"] by metis
  then have "kill_faulting_process Q k = Inr (k', ctx)"
    by (auto simp: kill_faulting_process_eq [OF assms(3)] bind_res_eq_Inr)
  moreover have "killed k k'" using k' by (simp add: killed_def)
  ultimately show ?thesis using that k'(2) by blast
qed

lemma console_update_inv:
  "kernel_inv contents k \<Longrightarrow> vga_wf w \<Longrightarrow> kernel_inv contents (k\<lparr>k_console := w\<rparr>)"
  by (simp add: kernel_inv_def)

lemma fault_handlers_ok:
  assumes "kernel_inv contents k" and "current (THREADS (k_thread k)) \<noteq> BOOTSTRAP_ID"
    and "current_process (k_thread k) \<noteq> KERNEL_PID" and "faulted_in_ring3 code_segment"
  shows "\<exists>k' ctx. gpf_handler Q report code_segment k = Inr (k', ctx) \<and>
      page_fault_handler Q report code_segment k = Inr (k', ctx) \<and> kernel_inv contents k' \<and> killed k k'"
proof -
  have "vga_wf (k_console k)" using assms(1) by (simp add: kernel_inv_def)
  then obtain w where w: "vga_println report (k_console k) = Inr w" "vga_wf w"
    using vga_println_ok by blast
  let ?k = "k\<lparr>k_console := w\<rparr>"
  obtain k' ctx where k': "kill_faulting_process Q ?k = Inr (k', ctx)" "kernel_inv contents k'" "killed ?k k'"
    using kill_faulting_process_ok [OF console_update_inv [OF assms(1) w(2)], of Q] assms(2,3) by auto
  then have "killed k k'" by (simp add: killed_def)
  then show ?thesis
    using k' w(1) assms(4) by (simp add: gpf_handler_def page_fault_handler_def Let_def)
qed

lemma exception_target_cases:
  "n < 32 \<Longrightarrow> exception_target n =
    Some (if n = 13 then GpfHandler else if n = 14 then PageFaultHandler
      else if n = 3 then BreakpointHandler else DoubleFaultHandler)"
  by (auto simp: exception_target_def IDT_def PIC_1_OFFSET_def SYSCALL_VECTOR_def)

section \<open>Properties\<close>

text \<open>
  C20: A page fault or general protection fault taken in ring 3 kills the offending process and
  nothing else: the handler prints its report, removes the descriptor of the process that the
  running thread is tagged with, retires that thread and switches to another one, with the
  kernel's invariant intact and every other process, thread, the memory and the key queue
  untouched. The same fault taken in ring 0 panics.
\<close>

theorem ring3_fault_kills_offender:
  assumes "kernel_inv contents k" and "current (THREADS (k_thread k)) \<noteq> BOOTSTRAP_ID"
    and "current_process (k_thread k) \<noteq> KERNEL_PID"
  shows "(code_segment AND 3 = 3 \<longrightarrow>
      (\<exists>k' ctx. page_fault_handler Q report code_segment k = Inr (k', ctx) \<and>
        gpf_handler Q report code_segment k = Inr (k', ctx) \<and> kernel_inv contents k' \<and> killed k k')) \<and>
    (code_segment AND 3 \<noteq> 3 \<longrightarrow>
      page_fault_handler Q report code_segment k = Inl (Panicked ''Page fault'') \<and>
      gpf_handler Q report code_segment k = Inl (Panicked ''General protection fault''))"
proof (intro conjI impI)
  assume "code_segment AND 3 = 3"
  then have "faulted_in_ring3 code_segment" by (simp add: faulted_in_ring3_def)
  then show "\<exists>k' ctx. page_fault_handler Q report code_segment k = Inr (k', ctx) \<and>
      gpf_handler Q report code_segment k = Inr (k', ctx) \<and> kernel_inv contents k' \<and> killed k k'"
    using fault_handlers_ok [OF assms, of code_segment Q report] by blast
next
  assume ring0: "code_segment AND 3 \<noteq> 3"
  have "vga_wf (k_console k)" using assms(1) by (simp add: kernel_inv_def)
  then obtain w where "vga_println report (k_console k) = Inr w" using vga_println_ok by blast
  then show "page_fault_handler Q report code_segment k = Inl (Panicked ''Page fault'')"
    "gpf_handler Q report code_segment k = Inl (Panicked ''General protection fault'')"
    using ring0 by (simp_all add: page_fault_handler_def gpf_handler_def faulted_in_ring3_def)
qed

lemma user_kernel_running:
  "current (THREADS (k_thread (user_kernel m))) \<noteq> BOOTSTRAP_ID"
  "current_process (k_thread (user_kernel m)) \<noteq> KERNEL_PID"
  by (simp_all add: BOOTSTRAP_ID_def KERNEL_PID_def)

theorem ring3_fault_kills_offender_witness:
  "\<exists>k' ctx. page_fault_handler list_queue [0x21] 0x33 (user_kernel (\<lambda>_. 0)) = Inr (k', ctx) \<and>
    killed (user_kernel (\<lambda>_. 0)) k'"
  using ring3_fault_kills_offender [OF user_kernel_inv user_kernel_running, of "0x33" list_queue "[0x21]"
      "\<lambda>_. 0", THEN conjunct1]
  by auto



text \<open>
  Ring 3 enters the kernel through the system-call gate only: an \<open>int n\<close> executed in ring 3
  reaches the system-call routine for \<open>n = 0x80\<close> and the general-protection handler for every
  other vector, so a user can fake neither a timer tick nor a key press nor a double fault. Ring
  0 reaches every installed gate, and only the double fault runs on its own stack.
\<close>

theorem ring3_enters_by_syscall_only:
  "int_target 3 n = Some (if n = 0x80 then SyscallIsr else GpfHandler) \<and>
    (\<forall>e. IDT n = Some e \<longrightarrow> int_target 0 n = Some (idt_handler e) \<and>
      (idt_stack_index e \<noteq> None \<longleftrightarrow> idt_handler e = DoubleFaultHandler))"
  by (auto simp: int_target_def IDT_def PIC_1_OFFSET_def SYSCALL_VECTOR_def split: if_splits)

theorem ring3_enters_by_syscall_only_witness:
  "int_target 3 32 = Some GpfHandler \<and> int_target 0 8 = Some DoubleFaultHandler"
  using ring3_enters_by_syscall_only [of 32, THEN conjunct1] ring3_enters_by_syscall_only [of 8, THEN conjunct2]
  by (simp add: IDT_def)

lemma hardware_interrupts_inv:
  assumes "kernel_inv contents k"
  shows "unat (tick_count (SCHEDULER (k_thread k))) + 1 < 2 ^ 64 \<Longrightarrow>
      \<exists>k'. timer_interrupt_handler k = Inr (k', 32) \<and> kernel_inv contents k'"
    and "\<exists>k' r. keyboard_interrupt_handler Q W scancode k = (k', r, 33) \<and> kernel_inv contents k'"
  using interrupts_inv(1) [OF assms] interrupts_inv(2) [OF assms, of Q W scancode]
  by (auto simp: timer_interrupt_handler_def keyboard_interrupt_handler_def PIC_1_OFFSET_def Let_def
      split: prod.split)

end
