(* ===== verification/Frame_Allocator.thy ===== *)
theory Frame_Allocator
  imports Apogee_Prelude
begin

text \<open>
  The physical frame allocator (\<open>MonotonicFrameAllocator\<close> of \<open>src/src/memory.rs\<close>) and the
  contract of the \<open>FrameAllocator\<close> trait through which the paging code uses it.

  The bootloader's memory map is a list of regions. Addresses are natural numbers with the
  64-bit bound in every checked operation. \<open>PhysFrame::containing_address (PhysAddr::new a)\<close>
  belongs to the \<open>x86_64\<close> crate and is the parameter \<open>phys_frame\<close>.
\<close>

section \<open>The model\<close>

datatype MemoryRegionType = Usable | OtherRegion nat

record MemoryRegion =
  range_start :: usize
  range_end :: usize
  region_type :: MemoryRegionType

record FrameCursor =
  cursor_region :: usize
  cursor_offset :: usize

definition FrameCursor_new :: FrameCursor where
  "FrameCursor_new = \<lparr>cursor_region = 0, cursor_offset = 0\<rparr>"

record MonotonicFrameAllocator =
  memory_map :: "MemoryRegion list"
  cursor :: FrameCursor

definition frame_allocator_init :: "MemoryRegion list \<Rightarrow> MonotonicFrameAllocator" where
  "frame_allocator_init mm = \<lparr>memory_map = mm, cursor = FrameCursor_new\<rparr>"

text \<open>The scan for the usable region with a given ordinal.\<close>

fun select_region :: "MemoryRegion list \<Rightarrow> usize \<Rightarrow> usize \<Rightarrow> MemoryRegion option" where
  "select_region [] region usable_ordinal = None"
| "select_region (candidate # cs) region usable_ordinal =
    (if region_type candidate \<noteq> Usable then select_region cs region usable_ordinal
     else if usable_ordinal = region then Some candidate
     else select_region cs region (usable_ordinal + 1))"

lemma select_region_bound:
  "select_region cs region k = Some c \<Longrightarrow> k \<le> region \<Longrightarrow> region < k + length cs"
  by (induction cs region k rule: select_region.induct) (auto split: if_splits)

function next_frame_from ::
  "(usize \<Rightarrow> usize res) \<Rightarrow> MemoryRegion list \<Rightarrow> usize \<Rightarrow> usize \<Rightarrow> (usize \<times> FrameCursor) option res" where
  "next_frame_from phys_frame regions region offset =
    (case select_region regions region 0 of
       None \<Rightarrow> Inr None
     | Some current \<Rightarrow>
         bind_res (usize_sub (range_end current) (range_start current)) (\<lambda>size.
         if offset < size div 4096 then
           bind_res (usize_mul offset 4096) (\<lambda>d.
           bind_res (usize_add (range_start current) d) (\<lambda>a.
           bind_res (phys_frame a) (\<lambda>phys.
           bind_res (usize_add offset 1) (\<lambda>offset'.
           Inr (Some (phys, \<lparr>cursor_region = region, cursor_offset = offset'\<rparr>))))))
         else next_frame_from phys_frame regions (region + 1) 0))"
  by pat_completeness auto
termination
  by (relation "measure (\<lambda>(_, regions, region, _). length regions - region)")
    (auto dest: select_region_bound)

declare next_frame_from.simps [simp del]

definition allocate_frame ::
  "(usize \<Rightarrow> usize res) \<Rightarrow> MonotonicFrameAllocator \<Rightarrow> (MonotonicFrameAllocator \<times> usize option) res" where
  "allocate_frame phys_frame a =
    bind_res (next_frame_from phys_frame (memory_map a) (cursor_region (cursor a)) (cursor_offset (cursor a)))
      (\<lambda>r. case r of None \<Rightarrow> Inr (a, None) | Some (f, c) \<Rightarrow> Inr (a\<lparr>cursor := c\<rparr>, Some f))"

section \<open>The contract of a frame allocator\<close>

text \<open>
  A frame allocator hands out a list of frames one by one and then reports exhaustion.
  \<open>remaining\<close> is the abstraction; the client's lemmas need nothing else.
\<close>

locale frame_source =
  fixes allocate :: "'s \<Rightarrow> ('s \<times> usize option) res" and inv :: "'s \<Rightarrow> bool"
    and remaining :: "'s \<Rightarrow> usize list"
  assumes allocate_next: "inv s \<Longrightarrow> \<exists>s'. inv s' \<and>
      (case remaining s of
         [] \<Rightarrow> allocate s = Inr (s', None) \<and> remaining s' = []
       | f # fs \<Rightarrow> allocate s = Inr (s', Some f) \<and> remaining s' = fs)"
begin

lemma allocate_Some:
  assumes "inv s" and "remaining s = f # fs"
  obtains s' where "allocate s = Inr (s', Some f)" and "inv s'" and "remaining s' = fs"
  using allocate_next [OF assms(1)] assms(2) by auto

lemma allocate_None:
  assumes "inv s" and "remaining s = []"
  obtains s' where "allocate s = Inr (s', None)" and "inv s'" and "remaining s' = []"
  using allocate_next [OF assms(1)] assms(2) by auto

lemma allocate_cases:
  assumes "inv s" and "allocate s = Inr (s', r)"
  shows "inv s' \<and> (case r of None \<Rightarrow> remaining s = [] \<and> remaining s' = []
    | Some f \<Rightarrow> remaining s = f # remaining s')"
  using allocate_next [OF assms(1)] assms(2) by (cases "remaining s") auto

end

primrec allocate_many ::
  "('s \<Rightarrow> ('s \<times> usize option) res) \<Rightarrow> nat \<Rightarrow> 's \<Rightarrow> ('s \<times> usize option list) res" where
  "allocate_many allocate 0 s = Inr (s, [])"
| "allocate_many allocate (Suc n) s =
    bind_res (allocate s) (\<lambda>(s, r). bind_res (allocate_many allocate n s) (\<lambda>(s, rs). Inr (s, r # rs)))"

context frame_source
begin

lemma allocate_many_eq:
  "inv s \<Longrightarrow> \<exists>s'. allocate_many allocate n s =
      Inr (s', map Some (take n (remaining s)) @ replicate (n - length (remaining s)) None)"
proof (induction n arbitrary: s)
  case (Suc n)
  show ?case
  proof (cases "remaining s")
    case Nil
    obtain s1 where "allocate s = Inr (s1, None)" "inv s1" "remaining s1 = []"
      using allocate_None [OF Suc.prems Nil] .
    then show ?thesis using Suc.IH [of s1] Nil by auto
  next
    case (Cons f fs)
    obtain s1 where "allocate s = Inr (s1, Some f)" "inv s1" "remaining s1 = fs"
      using allocate_Some [OF Suc.prems Cons] .
    then show ?thesis using Suc.IH [of s1] Cons by auto
  qed
qed simp

end

section \<open>The monotonic allocator meets the contract\<close>

definition region_frames :: "MemoryRegion \<Rightarrow> usize list" where
  "region_frames r = map (\<lambda>k. range_start r + k * 4096) [0..<(range_end r - range_start r) div 4096]"

definition usable_regions :: "MemoryRegion list \<Rightarrow> MemoryRegion list" where
  "usable_regions mm = filter (\<lambda>r. region_type r = Usable) mm"

definition usable_frames :: "MemoryRegion list \<Rightarrow> usize list" where
  "usable_frames mm = concat (map region_frames (usable_regions mm))"

definition remaining_frames :: "MonotonicFrameAllocator \<Rightarrow> usize list" where
  "remaining_frames a =
    (case drop (cursor_region (cursor a)) (usable_regions (memory_map a)) of
       [] \<Rightarrow> []
     | r # rs \<Rightarrow> drop (cursor_offset (cursor a)) (region_frames r) @ concat (map region_frames rs))"

text \<open>
  What the bootloader and the \<open>x86_64\<close> crate promise: regions are ranges of whole frames below
  the physical address limit of 52 bits, and a frame-aligned address below the limit is the
  address of its own frame.
\<close>

definition map_ok :: "MemoryRegion list \<Rightarrow> bool" where
  "map_ok mm \<longleftrightarrow> (\<forall>r \<in> set mm. range_start r \<le> range_end r \<and> range_end r \<le> 2 ^ 52 \<and> 4096 dvd range_start r)"

definition phys_frame_ok :: "(usize \<Rightarrow> usize res) \<Rightarrow> bool" where
  "phys_frame_ok phys_frame \<longleftrightarrow> (\<forall>a. a < 2 ^ 52 \<and> 4096 dvd a \<longrightarrow> phys_frame a = Inr a)"

lemma select_region_eq:
  "k \<le> region \<Longrightarrow> select_region cs region k =
    (case drop (region - k) (usable_regions cs) of [] \<Rightarrow> None | r # _ \<Rightarrow> Some r)"
proof (induction cs region k rule: select_region.induct)
  case (2 c cs region k)
  show ?case
  proof (cases "region_type c = Usable \<and> k \<noteq> region")
    case True
    then have "region - k = Suc (region - (k + 1))" using "2.prems" by linarith
    then show ?thesis using 2 True by (simp add: usable_regions_def)
  next
    case False
    then show ?thesis using 2 by (auto simp: usable_regions_def)
  qed
qed (simp add: usable_regions_def)

lemma region_frames_length [simp]:
  "length (region_frames r) = (range_end r - range_start r) div 4096"
  by (simp add: region_frames_def)

lemma region_frames_nth:
  assumes "k < length (region_frames r)" and "range_start r \<le> range_end r" and "range_end r \<le> 2 ^ 52"
    and "4096 dvd range_start r"
  shows "region_frames r ! k = range_start r + k * 4096" and "range_start r + k * 4096 < 2 ^ 52"
    and "4096 dvd range_start r + k * 4096"
proof -
  show "region_frames r ! k = range_start r + k * 4096"
    using assms(1) by (simp add: region_frames_def)
  have "Suc k \<le> (range_end r - range_start r) div 4096" using assms(1) by simp
  then have "Suc k * 4096 \<le> range_end r - range_start r"
    using less_eq_div_iff_mult_less_eq [of 4096 "Suc k" "range_end r - range_start r"] by simp
  then have "range_start r + k * 4096 + 4096 \<le> range_end r" using assms(2) by simp
  then show "range_start r + k * 4096 < 2 ^ 52" using assms(3) by simp
  show "4096 dvd range_start r + k * 4096" using assms(4) by simp
qed

lemma drop_eq_ConsD: "drop n xs = y # ys \<Longrightarrow> n < length xs \<and> y = xs ! n \<and> ys = drop (Suc n) xs"
  by (metis Cons_nth_drop_Suc drop_eq_Nil linorder_not_le list.distinct(1) list.inject)

text \<open>One call finds the next frame of the flattened sequence, skipping exhausted regions.\<close>

lemma next_frame_from_eq:
  assumes "map_ok mm" and "phys_frame_ok phys_frame"
  shows "\<exists>r. next_frame_from phys_frame mm region offset = Inr r \<and>
    (case r of
       None \<Rightarrow> remaining_frames \<lparr>memory_map = mm, cursor = \<lparr>cursor_region = region, cursor_offset = offset\<rparr>\<rparr> = []
     | Some (f, c) \<Rightarrow>
         remaining_frames \<lparr>memory_map = mm, cursor = \<lparr>cursor_region = region, cursor_offset = offset\<rparr>\<rparr> =
           f # remaining_frames \<lparr>memory_map = mm, cursor = c\<rparr>)"
proof (induction "length mm - region" arbitrary: region offset rule: less_induct)
  case less
  show ?case
  proof (cases "drop region (usable_regions mm)")
    case Nil
    then have "select_region mm region 0 = None" by (simp add: select_region_eq)
    then show ?thesis using Nil
      by (subst next_frame_from.simps) (simp add: remaining_frames_def)
  next
    case (Cons cur rs)
    then have sel: "select_region mm region 0 = Some cur" by (simp add: select_region_eq)
    have "cur \<in> set mm" using Cons in_set_dropD [of cur region "usable_regions mm"]
      by (simp add: usable_regions_def)
    then have ok: "range_start cur \<le> range_end cur" "range_end cur \<le> 2 ^ 52" "4096 dvd range_start cur"
      using assms(1) by (auto simp: map_ok_def)
    have tail: "rs = drop (region + 1) (usable_regions mm)" using drop_eq_ConsD [OF Cons] by simp
    show ?thesis
    proof (cases "offset < length (region_frames cur)")
      case True
      note nth = region_frames_nth [OF True ok]
      have "phys_frame (range_start cur + offset * 4096) = Inr (range_start cur + offset * 4096)"
        using assms(2) nth by (simp add: phys_frame_ok_def)
      moreover have "range_start cur + offset * 4096 \<le> USIZE_MAX" "offset * 4096 \<le> USIZE_MAX"
        "offset + 1 \<le> USIZE_MAX"
        using nth(2) by (simp_all add: USIZE_MAX_def)
      ultimately have "next_frame_from phys_frame mm region offset =
          Inr (Some (range_start cur + offset * 4096, \<lparr>cursor_region = region, cursor_offset = offset + 1\<rparr>))"
        using sel True ok by (subst next_frame_from.simps) simp
      then show ?thesis using Cons nth(1) Cons_nth_drop_Suc [OF True]
        by (simp add: remaining_frames_def flip: append_Cons)
    next
      case False
      have "region < length mm" using select_region_bound [OF sel] by simp
      then have IH: "length mm - (region + 1) < length mm - region" by simp
      have step: "next_frame_from phys_frame mm region offset = next_frame_from phys_frame mm (region + 1) 0"
        using sel False ok by (subst next_frame_from.simps) simp
      have "remaining_frames \<lparr>memory_map = mm, cursor = \<lparr>cursor_region = region, cursor_offset = offset\<rparr>\<rparr> =
          remaining_frames \<lparr>memory_map = mm, cursor = \<lparr>cursor_region = region + 1, cursor_offset = 0\<rparr>\<rparr>"
        using Cons False tail by (auto simp: remaining_frames_def split: list.splits)
      then show ?thesis unfolding step by (simp only: less [OF IH, of 0])
    qed
  qed
qed

lemma allocate_frame_next:
  assumes "map_ok (memory_map a)" and "phys_frame_ok phys_frame"
  shows "\<exists>a'. memory_map a' = memory_map a \<and>
    (case remaining_frames a of
       [] \<Rightarrow> allocate_frame phys_frame a = Inr (a', None) \<and> remaining_frames a' = []
     | f # fs \<Rightarrow> allocate_frame phys_frame a = Inr (a', Some f) \<and> remaining_frames a' = fs)"
proof -
  have a: "a = \<lparr>memory_map = memory_map a, cursor = \<lparr>cursor_region = cursor_region (cursor a),
      cursor_offset = cursor_offset (cursor a)\<rparr>\<rparr>" by simp
  obtain r where "next_frame_from phys_frame (memory_map a) (cursor_region (cursor a)) (cursor_offset (cursor a)) = Inr r"
    and "case r of None \<Rightarrow> remaining_frames a = []
      | Some (f, c) \<Rightarrow> remaining_frames a = f # remaining_frames \<lparr>memory_map = memory_map a, cursor = c\<rparr>"
    using next_frame_from_eq [OF assms, of "cursor_region (cursor a)" "cursor_offset (cursor a)"] a by metis
  then show ?thesis
    by (cases r; cases a) (auto simp: allocate_frame_def)
qed

text \<open>The contract for a fixed address conversion of the paging crate.\<close>

definition exact_phys_frame :: "usize \<Rightarrow> usize res" where
  "exact_phys_frame a = (if a < 2 ^ 52 then Inr (a - a mod 4096) else Inl (Panicked ''PhysAddr::new''))"

lemma exact_phys_frame_ok: "phys_frame_ok exact_phys_frame"
  by (auto simp: phys_frame_ok_def exact_phys_frame_def)

lemma monotonic_frame_source:
  assumes "phys_frame_ok phys_frame"
  shows "frame_source (allocate_frame phys_frame) (\<lambda>a. map_ok (memory_map a)) remaining_frames"
  using allocate_frame_next [OF _ assms] by unfold_locales metis

interpretation mfa: frame_source "allocate_frame exact_phys_frame" "\<lambda>a. map_ok (memory_map a)" remaining_frames
  by (rule monotonic_frame_source [OF exact_phys_frame_ok])

section \<open>Properties\<close>

definition map_ascending :: "MemoryRegion list \<Rightarrow> bool" where
  "map_ascending mm \<longleftrightarrow> sorted_wrt (\<lambda>r r'. range_end r \<le> range_start r') (usable_regions mm)"

lemma region_frames_range:
  assumes "f \<in> set (region_frames r)"
  shows "range_start r \<le> f \<and> f + 4096 \<le> range_end r"
proof -
  obtain k where k: "k < (range_end r - range_start r) div 4096" "f = range_start r + k * 4096"
    using assms by (auto simp: region_frames_def)
  then have "Suc k * 4096 \<le> range_end r - range_start r"
    using less_eq_div_iff_mult_less_eq [of 4096 "Suc k" "range_end r - range_start r"] by simp
  then show ?thesis using k(2) by simp
qed

lemma sorted_wrt_concat:
  assumes "\<And>xs. xs \<in> set xss \<Longrightarrow> sorted_wrt P xs"
    and "sorted_wrt (\<lambda>xs ys. \<forall>x \<in> set xs. \<forall>y \<in> set ys. P x y) xss"
  shows "sorted_wrt P (concat xss)"
  using assms by (induction xss) (auto simp: sorted_wrt_append)

lemma usable_frames_ascending:
  assumes "map_ascending mm"
  shows "sorted_wrt (\<lambda>f g. f + 4096 \<le> g) (usable_frames mm)"
  unfolding usable_frames_def
proof (rule sorted_wrt_concat)
  show "sorted_wrt (\<lambda>f g. f + 4096 \<le> g) xs" if "xs \<in> set (map region_frames (usable_regions mm))" for xs
    using that by (auto simp: region_frames_def sorted_wrt_iff_nth_less)
  have "sorted_wrt (\<lambda>r r'. \<forall>x \<in> set (region_frames r). \<forall>y \<in> set (region_frames r'). x + 4096 \<le> y)
      (usable_regions mm)"
  proof (rule sorted_wrt_mono_rel [OF _ assms [unfolded map_ascending_def]])
    show "\<forall>x \<in> set (region_frames r). \<forall>y \<in> set (region_frames r'). x + 4096 \<le> y"
      if "range_end r \<le> range_start r'" for r r'
      using that by (meson le_trans region_frames_range)
  qed
  then show "sorted_wrt (\<lambda>xs ys. \<forall>x \<in> set xs. \<forall>y \<in> set ys. x + 4096 \<le> y)
      (map region_frames (usable_regions mm))"
    by (simp add: sorted_wrt_map)
qed

lemma remaining_frames_init: "remaining_frames (frame_allocator_init mm) = usable_frames mm"
  by (simp add: remaining_frames_def frame_allocator_init_def FrameCursor_new_def usable_frames_def
      split: list.splits)

text \<open>
  C22: The frame allocator hands out every usable frame exactly once. For a memory map of
  frame-aligned ranges, any number of calls returns without a panic. The calls give the frames
  of the usable regions in the order of the map, and then report exhaustion for ever. When the
  usable regions of the map are ascending and disjoint, each frame lies wholly above the one
  before it, so no two frames overlap.
\<close>
theorem frames_handed_out_once:
  assumes "map_ok mm" and "phys_frame_ok phys_frame"
  shows "(\<exists>a. allocate_many (allocate_frame phys_frame) n (frame_allocator_init mm) =
      Inr (a, map Some (take n (usable_frames mm)) @ replicate (n - length (usable_frames mm)) None)) \<and>
    (map_ascending mm \<longrightarrow> sorted_wrt (\<lambda>f g. f + 4096 \<le> g) (usable_frames mm))"
proof -
  have "map_ok (memory_map (frame_allocator_init mm))" using assms(1) by (simp add: frame_allocator_init_def)
  from frame_source.allocate_many_eq [OF monotonic_frame_source [OF assms(2)] this, of n]
  show ?thesis using usable_frames_ascending by (simp add: remaining_frames_init)
qed

definition example_map :: "MemoryRegion list" where
  "example_map =
    [\<lparr>range_start = 0, range_end = 0x1000, region_type = OtherRegion 0\<rparr>,
     \<lparr>range_start = 0x1000, range_end = 0x3000, region_type = Usable\<rparr>,
     \<lparr>range_start = 0x3000, range_end = 0x3000, region_type = Usable\<rparr>,
     \<lparr>range_start = 0x8000, range_end = 0x9800, region_type = Usable\<rparr>]"

lemma example_map_ok: "map_ok example_map" "map_ascending example_map"
  by (simp_all add: example_map_def map_ok_def map_ascending_def usable_regions_def)

lemma example_frames: "usable_frames example_map = [0x1000, 0x2000, 0x8000]"
  by (simp add: usable_frames_def usable_regions_def example_map_def region_frames_def upt_rec)

lemma frames_handed_out_once_witness:
  "(\<exists>a. allocate_many (allocate_frame exact_phys_frame) 4 (frame_allocator_init example_map) =
      Inr (a, [Some 0x1000, Some 0x2000, Some 0x8000, None])) \<and>
    sorted_wrt (\<lambda>f g. f + 4096 \<le> g) (usable_frames example_map)"
  using frames_handed_out_once [OF example_map_ok(1) exact_phys_frame_ok, of 4] example_map_ok(2)
  by (simp add: example_frames)

end
