(* ===== verification/Paging.thy ===== *)
theory Paging
  imports Frame_Allocator Fixed_Size_Block "HOL-Library.Sublist"
begin

text \<open>
  Mapping pages: the heap's initialisation (\<open>init_heap\<close> of \<open>src/src/allocator/mod.rs\<close>) and the
  example mapping of \<open>src/src/memory.rs\<close>.

  The mapper of the \<open>x86_64\<close> crate is a parameter \<open>map_to\<close>, and so is \<open>page_range\<close>, which lists
  the pages from the one containing an address to the one containing another; the locale \<open>page_mapper\<close> states what
  its documentation promises, relative to the frame allocator it is given. A concrete mapper
  over the four levels of page tables, drawing its table frames from the monotonic
  allocator, shows that the contract can be met.
\<close>

section \<open>The model\<close>

datatype MapToError = FrameAllocationFailed | ParentEntryHugePage | PageAlreadyMapped usize

datatype PageTableFlag = PRESENT | WRITABLE | USER_ACCESSIBLE

type_synonym PageTableFlags = "PageTableFlag set"

text \<open>Page, frame, flags of the entry, flags of the tables above it, page table, allocator.\<close>

type_synonym ('m, 's) map_to =
  "usize \<Rightarrow> usize \<Rightarrow> PageTableFlags \<Rightarrow> PageTableFlags \<Rightarrow> 'm \<Rightarrow> 's \<Rightarrow> ('m \<times> 's \<times> (MapToError + unit)) res"

fun map_pages ::
  "('s \<Rightarrow> ('s \<times> usize option) res) \<Rightarrow> ('m, 's) map_to \<Rightarrow> usize list \<Rightarrow> 'm \<Rightarrow> 's \<Rightarrow>
    ('m \<times> 's \<times> (MapToError + unit)) res" where
  "map_pages allocate map_to [] m s = Inr (m, s, Inr ())"
| "map_pages allocate map_to (page # pages) m s =
    bind_res (allocate s) (\<lambda>(s, r).
    case r of
      None \<Rightarrow> Inr (m, s, Inl FrameAllocationFailed)
    | Some frame \<Rightarrow>
        bind_res (map_to page frame {PRESENT, WRITABLE} {PRESENT, WRITABLE} m s) (\<lambda>(m, s, r).
        case r of
          Inl e \<Rightarrow> Inr (m, s, Inl e)
        | Inr _ \<Rightarrow> map_pages allocate map_to pages m s))"

definition init_heap ::
  "(usize \<Rightarrow> usize \<Rightarrow> usize list) \<Rightarrow> ('s \<Rightarrow> ('s \<times> usize option) res) \<Rightarrow> ('m, 's) map_to \<Rightarrow>
    'm \<Rightarrow> 's \<Rightarrow> FixedSizeBlockAllocator \<Rightarrow>
    ('m \<times> 's \<times> FixedSizeBlockAllocator \<times> (MapToError + unit)) res" where
  "init_heap page_range allocate map_to m s heap =
    bind_res (usize_add HEAP_START HEAP_SIZE) (\<lambda>e.
    bind_res (usize_sub e 1) (\<lambda>heap_end.
    bind_res (map_pages allocate map_to (page_range HEAP_START heap_end) m s) (\<lambda>(m, s, r).
    case r of
      Inl e \<Rightarrow> Inr (m, s, heap, Inl e)
    | Inr _ \<Rightarrow>
        bind_res (fsb_init heap HEAP_START HEAP_SIZE) (\<lambda>heap. Inr (m, s, heap, Inr ())))))"

definition create_example_mapping ::
  "('m, 's) map_to \<Rightarrow> usize \<Rightarrow> 'm \<Rightarrow> 's \<Rightarrow> ('m \<times> 's) res" where
  "create_example_mapping map_to page m s =
    bind_res (map_to page 0xb8000 {PRESENT, WRITABLE} {PRESENT, WRITABLE} m s) (\<lambda>(m, s, r).
    case r of Inl e \<Rightarrow> Inl (ExpectFailed ''map_to failed'') | Inr _ \<Rightarrow> Inr (m, s))"

section \<open>The contract of the mapper\<close>

text \<open>
  \<open>translate\<close> gives the frame and flags behind a page, \<open>small\<close> says that no huge page covers it.
  A call never panics and takes at most three frames, one for each missing table. It maps the
  page to the frame with the flags, and only that page; or it reports why not and leaves every
  translation as it was: the page was mapped already, a huge page is in the way, or the frames
  ran out.
\<close>

locale page_mapper = frame_source allocate inv remaining
  for allocate :: "'s \<Rightarrow> ('s \<times> usize option) res" and inv :: "'s \<Rightarrow> bool" and remaining :: "'s \<Rightarrow> usize list" +
  fixes map_to :: "('m, 's) map_to" and translate :: "'m \<Rightarrow> usize \<Rightarrow> (usize \<times> PageTableFlags) option"
    and small :: "'m \<Rightarrow> usize \<Rightarrow> bool"
  assumes map_to_contract: "inv s \<Longrightarrow> \<exists>m' s' r n. map_to page frame flags parents m s = Inr (m', s', r) \<and>
      inv s' \<and> n \<le> 3 \<and> remaining s' = drop n (remaining s) \<and> small m' = small m \<and>
      (case r of
         Inr _ \<Rightarrow> translate m page = None \<and> translate m' = (translate m)(page \<mapsto> (frame, flags))
       | Inl e \<Rightarrow> translate m' = translate m \<and>
           (case e of
              FrameAllocationFailed \<Rightarrow> length (remaining s) < 3
            | ParentEntryHugePage \<Rightarrow> \<not> small m page
            | PageAlreadyMapped f \<Rightarrow> map_option fst (translate m page) = Some f))"
begin

lemma map_to_fresh:
  assumes "inv s" and "translate m page = None" and "small m page" and "3 \<le> length (remaining s)"
  obtains m' s' n where "map_to page frame flags parents m s = Inr (m', s', Inr ())" and "inv s'" and "n \<le> 3"
    and "remaining s' = drop n (remaining s)" and "small m' = small m"
    and "translate m' = (translate m)(page \<mapsto> (frame, flags))"
  using map_to_contract [OF assms(1), of page frame flags parents m] assms(2-4) that
  by (fastforce split: sum.splits MapToError.splits)

lemma map_pages_fresh:
  assumes "inv s" and "distinct pages" and "\<And>p. p \<in> set pages \<Longrightarrow> translate m p = None \<and> small m p"
    and "4 * length pages \<le> length (remaining s)"
  shows "\<exists>m' s' frames n. map_pages allocate map_to pages m s = Inr (m', s', Inr ()) \<and> inv s' \<and>
    length frames = length pages \<and> subseq frames (take n (remaining s)) \<and> remaining s' = drop n (remaining s) \<and>
    n \<le> 4 * length pages \<and> small m' = small m \<and>
    translate m' = translate m ++ map_of (zip pages (map (\<lambda>f. (f, {PRESENT, WRITABLE})) frames))"
  using assms
proof (induction pages arbitrary: m s)
  case Nil
  then show ?case by (intro exI [of _ m] exI [of _ s] exI [of _ "[]"] exI [of _ 0]) simp
next
  case (Cons p ps)
  obtain f fs where r: "remaining s = f # fs" using Cons.prems(4) by (cases "remaining s") auto
  obtain s1 where s1: "allocate s = Inr (s1, Some f)" "inv s1" "remaining s1 = fs"
    using allocate_Some [OF Cons.prems(1) r] .
  have new: "translate m p = None" "small m p" "3 \<le> length (remaining s1)"
    using Cons.prems(3,4) r s1(3) by simp_all
  obtain m2 s2 n where s2: "map_to p f {PRESENT, WRITABLE} {PRESENT, WRITABLE} m s1 = Inr (m2, s2, Inr ())"
    "inv s2" "n \<le> 3" "remaining s2 = drop n fs" "small m2 = small m"
    "translate m2 = (translate m)(p \<mapsto> (f, {PRESENT, WRITABLE}))"
    using map_to_fresh [OF s1(2) new, of f "{PRESENT, WRITABLE}" "{PRESENT, WRITABLE}"] s1(3) by metis
  have "4 * length ps \<le> length (remaining s2)" using Cons.prems(4) r s2(3,4) by simp
  moreover have "translate m2 q = None \<and> small m2 q" if "q \<in> set ps" for q
    using that Cons.prems(2,3) s2(5,6) by auto
  moreover have "distinct ps" using Cons.prems(2) by simp
  ultimately obtain m' s' gs k where IH: "map_pages allocate map_to ps m2 s2 = Inr (m', s', Inr ())" "inv s'"
    "length gs = length ps" "subseq gs (take k (remaining s2))" "remaining s' = drop k (remaining s2)"
    "k \<le> 4 * length ps" "small m' = small m2"
    "translate m' = translate m2 ++ map_of (zip ps (map (\<lambda>f. (f, {PRESENT, WRITABLE})) gs))"
    using Cons.IH [OF s2(2)] by metis
  show ?case
  proof (intro exI conjI)
    show "map_pages allocate map_to (p # ps) m s = Inr (m', s', Inr ())" using s1(1) s2(1) IH(1) by simp
    show "length (f # gs) = length (p # ps)" using IH(3) by simp
    show "subseq (f # gs) (take (Suc (n + k)) (remaining s))"
      using IH(4) r s2(4) by (simp add: take_add list_emb_append2)
    show "remaining s' = drop (Suc (n + k)) (remaining s)" using IH(5) s2(4) r by (simp add: add.commute)
    show "Suc (n + k) \<le> 4 * length (p # ps)" using s2(3) IH(6) by simp
    show "small m' = small m" using IH(7) s2(5) by simp
    show "translate m' = translate m ++ map_of (zip (p # ps) (map (\<lambda>f. (f, {PRESENT, WRITABLE})) (f # gs)))"
      using IH(3,8) s2(6) Cons.prems(2) by (simp add: map_add_upd_left)
  qed (rule IH(2))
qed

end

section \<open>Four levels of page tables\<close>

text \<open>A table is named by its level, as the number of address bits below it, and its index.\<close>

record page_tables =
  pt_tables :: "(nat \<times> nat) list"
  pt_entries :: "usize \<Rightarrow> (usize \<times> PageTableFlags) option"

fun ensure_tables ::
  "('s \<Rightarrow> ('s \<times> usize option) res) \<Rightarrow> nat list \<Rightarrow> usize \<Rightarrow> page_tables \<Rightarrow> 's \<Rightarrow>
    (page_tables \<times> 's \<times> (MapToError + unit)) res" where
  "ensure_tables allocate [] page pt s = Inr (pt, s, Inr ())"
| "ensure_tables allocate (l # ls) page pt s =
    (if (l, page div 2 ^ l) \<in> set (pt_tables pt) then ensure_tables allocate ls page pt s
     else bind_res (allocate s) (\<lambda>(s, r).
       case r of
         None \<Rightarrow> Inr (pt, s, Inl FrameAllocationFailed)
       | Some _ \<Rightarrow>
           ensure_tables allocate ls page (pt\<lparr>pt_tables := (l, page div 2 ^ l) # pt_tables pt\<rparr>) s))"

definition four_level_map_to ::
  "('s \<Rightarrow> ('s \<times> usize option) res) \<Rightarrow> (page_tables, 's) map_to" where
  "four_level_map_to allocate page frame flags parents pt s =
    bind_res (ensure_tables allocate [39, 30, 21] page pt s) (\<lambda>(pt, s, r).
    case r of
      Inl e \<Rightarrow> Inr (pt, s, Inl e)
    | Inr _ \<Rightarrow>
        (case pt_entries pt page of
           Some (f, _) \<Rightarrow> Inr (pt, s, Inl (PageAlreadyMapped f))
         | None \<Rightarrow> Inr (pt\<lparr>pt_entries := (pt_entries pt)(page \<mapsto> (frame, flags))\<rparr>, s, Inr ())))"

context frame_source
begin

lemma ensure_tables_ok:
  "inv s \<Longrightarrow> \<exists>pt' s' r n. ensure_tables allocate ls page pt s = Inr (pt', s', r) \<and> inv s' \<and>
    n \<le> length ls \<and> remaining s' = drop n (remaining s) \<and> pt_entries pt' = pt_entries pt \<and>
    (r = Inr () \<or> r = Inl FrameAllocationFailed \<and> length (remaining s) < length ls)"
proof (induction ls arbitrary: pt s)
  case (Cons l ls)
  show ?case
  proof (cases "(l, page div 2 ^ l) \<in> set (pt_tables pt)")
    case True
    from Cons.IH [OF Cons.prems, of pt] obtain pt' s' r n where
      "ensure_tables allocate ls page pt s = Inr (pt', s', r)" "inv s'" "n \<le> length ls"
      "remaining s' = drop n (remaining s)" "pt_entries pt' = pt_entries pt"
      "r = Inr () \<or> r = Inl FrameAllocationFailed \<and> length (remaining s) < length ls"
      by blast
    then show ?thesis
      using True by (intro exI [of _ pt'] exI [of _ s'] exI [of _ r] exI [of _ n]) auto
  next
    case new: False
    let ?pt = "pt\<lparr>pt_tables := (l, page div 2 ^ l) # pt_tables pt\<rparr>"
    show ?thesis
    proof (cases "remaining s")
      case Nil
      obtain s1 where "allocate s = Inr (s1, None)" "inv s1" "remaining s1 = []"
        using allocate_None [OF Cons.prems Nil] .
      then show ?thesis
        using new Nil by (intro exI [of _ pt] exI [of _ s1] exI [of _ "Inl FrameAllocationFailed"] exI [of _ 0]) simp
    next
      case (Cons f fs)
      obtain s1 where s1: "allocate s = Inr (s1, Some f)" "inv s1" "remaining s1 = fs"
        using allocate_Some [OF \<open>inv s\<close> Cons] .
      obtain pt' s' r n where "ensure_tables allocate ls page ?pt s1 = Inr (pt', s', r)" "inv s'"
        "n \<le> length ls" "remaining s' = drop n (remaining s1)" "pt_entries pt' = pt_entries ?pt"
        "r = Inr () \<or> r = Inl FrameAllocationFailed \<and> length (remaining s1) < length ls"
        using Cons.IH [OF s1(2), of ?pt] by blast
      then show ?thesis
        using new Cons s1 by (intro exI [of _ pt'] exI [of _ s'] exI [of _ r] exI [of _ "Suc n"]) auto
    qed
  qed
qed simp

end

lemma four_level_mapper:
  assumes "frame_source allocate I remaining"
  shows "page_mapper allocate I remaining (four_level_map_to allocate) pt_entries (\<lambda>_ _. True)"
proof -
  have "\<exists>m' s' r n. four_level_map_to allocate page frame flags parents m s = Inr (m', s', r) \<and>
      I s' \<and> n \<le> 3 \<and> remaining s' = drop n (remaining s) \<and>
      (case r of
         Inr _ \<Rightarrow> pt_entries m page = None \<and> pt_entries m' = (pt_entries m)(page \<mapsto> (frame, flags))
       | Inl e \<Rightarrow> pt_entries m' = pt_entries m \<and>
           (case e of
              FrameAllocationFailed \<Rightarrow> length (remaining s) < 3
            | ParentEntryHugePage \<Rightarrow> \<not> True
            | PageAlreadyMapped f \<Rightarrow> map_option fst (pt_entries m page) = Some f))"
    if inv: "I s" for s page frame flags parents m
  proof -
    have three: "length [39, 30, 21 :: nat] = 3" by simp
    obtain pt s' r n where e: "ensure_tables allocate [39, 30, 21] page m s = Inr (pt, s', r)" "I s'"
      "n \<le> 3" "remaining s' = drop n (remaining s)" "pt_entries pt = pt_entries m"
      "r = Inr () \<or> r = Inl FrameAllocationFailed \<and> length (remaining s) < 3"
      using frame_source.ensure_tables_ok [OF assms inv, of "[39, 30, 21]" page m, unfolded three] by blast
    have four: "four_level_map_to allocate page frame flags parents m s = (case r of
        Inl e \<Rightarrow> Inr (pt, s', Inl e)
      | Inr _ \<Rightarrow> (case pt_entries m page of
          Some (f, _) \<Rightarrow> Inr (pt, s', Inl (PageAlreadyMapped f))
        | None \<Rightarrow> Inr (pt\<lparr>pt_entries := (pt_entries pt)(page \<mapsto> (frame, flags))\<rparr>, s', Inr ())))"
      using e(1,5) by (simp add: four_level_map_to_def del: ensure_tables.simps)
    show ?thesis
      using e(2-6) unfolding four by (cases "pt_entries m page") auto
  qed
  then show ?thesis by (intro page_mapper.intro page_mapper_axioms.intro assms) simp
qed

interpretation flm: page_mapper "allocate_frame exact_phys_frame" "\<lambda>a. map_ok (memory_map a)" remaining_frames
  "four_level_map_to (allocate_frame exact_phys_frame)" pt_entries "\<lambda>_ _. True"
  by (rule four_level_mapper [OF mfa.frame_source_axioms])

section \<open>Initialising the heap\<close>

definition page_range_ok :: "(usize \<Rightarrow> usize \<Rightarrow> usize list) \<Rightarrow> bool" where
  "page_range_ok page_range \<longleftrightarrow> (\<forall>a b. a \<le> b \<longrightarrow>
    page_range a b = map (\<lambda>k. (a div 4096 + k) * 4096) [0..<b div 4096 - a div 4096 + 1])"

definition heap_pages :: "usize list" where
  "heap_pages = map (\<lambda>k. HEAP_START + k * 4096) [0..<25]"

lemma heap_page_range:
  assumes "page_range_ok page_range"
  shows "page_range HEAP_START (HEAP_START + HEAP_SIZE - 1) = heap_pages"
proof -
  have "HEAP_START \<le> HEAP_START + HEAP_SIZE - 1" by (simp add: HEAP_SIZE_def)
  then have "page_range HEAP_START (HEAP_START + HEAP_SIZE - 1) =
      map (\<lambda>k. (HEAP_START div 4096 + k) * 4096)
        [0..<(HEAP_START + HEAP_SIZE - 1) div 4096 - HEAP_START div 4096 + 1]"
    using assms by (simp add: page_range_ok_def)
  moreover have "(HEAP_START + HEAP_SIZE - 1) div 4096 - HEAP_START div 4096 + 1 = 25"
    by (simp add: HEAP_START_def HEAP_SIZE_def)
  moreover have "HEAP_START div 4096 * 4096 = HEAP_START" by (simp add: HEAP_START_def)
  ultimately show ?thesis by (simp only: heap_pages_def add_mult_distrib)
qed

lemma heap_pages_facts:
  "distinct heap_pages" "length heap_pages = 25"
  "HEAP_START \<le> a \<Longrightarrow> a < HEAP_START + HEAP_SIZE \<Longrightarrow> a - a mod 4096 \<in> set heap_pages"
proof -
  show "distinct heap_pages" "length heap_pages = 25"
    by (simp_all add: heap_pages_def distinct_map inj_on_def)
  assume a: "HEAP_START \<le> a" "a < HEAP_START + HEAP_SIZE"
  define d where "d = a - HEAP_START"
  have ad: "a = HEAP_START + d" "d < 25 * 4096" using a by (simp_all add: d_def HEAP_SIZE_def)
  have "HEAP_START mod 4096 = 0" by (simp add: HEAP_START_def)
  then have "a mod 4096 = d mod 4096" unfolding ad(1) by (metis add_0 mod_add_left_eq)
  moreover have "d - d mod 4096 = d div 4096 * 4096" by (simp add: minus_mod_eq_div_mult)
  ultimately have "a - a mod 4096 = HEAP_START + d div 4096 * 4096"
    using ad(1) by (metis Nat.add_diff_assoc mod_less_eq_dividend)
  moreover have "d div 4096 < 25" using ad(2) by (rule less_mult_imp_div_less)
  ultimately show "a - a mod 4096 \<in> set heap_pages" by (auto simp: heap_pages_def)
qed

lemma init_heap_eq:
  assumes "page_range_ok page_range"
  shows "init_heap page_range allocate map_to m s heap =
    bind_res (map_pages allocate map_to heap_pages m s) (\<lambda>(m, s, r).
    case r of Inl e \<Rightarrow> Inr (m, s, heap, Inl e)
    | Inr _ \<Rightarrow> bind_res (fsb_init heap HEAP_START HEAP_SIZE) (\<lambda>heap. Inr (m, s, heap, Inr ())))"
proof -
  have "usize_add HEAP_START HEAP_SIZE = Inr (HEAP_START + HEAP_SIZE)"
    "usize_sub (HEAP_START + HEAP_SIZE) 1 = Inr (HEAP_START + HEAP_SIZE - 1)"
    by (simp_all add: HEAP_START_def HEAP_SIZE_def USIZE_MAX_def)
  then show ?thesis by (simp add: init_heap_def heap_page_range [OF assms] del: One_nat_def)
qed

lemma init_heap_ok:
  assumes "page_mapper allocate I remaining map_to translate small" and "page_range_ok page_range"
    and "I s" and "\<And>p. p \<in> set heap_pages \<Longrightarrow> translate m p = None \<and> small m p" and "100 \<le> length (remaining s)"
  shows "\<exists>m' s' heap frames n.
    init_heap page_range allocate map_to m s fsb_empty = Inr (m', s', heap, Inr ()) \<and> I s' \<and>
    length frames = 25 \<and> subseq frames (take n (remaining s)) \<and> remaining s' = drop n (remaining s) \<and> n \<le> 100 \<and>
    small m' = small m \<and>
    translate m' = translate m ++ map_of (zip heap_pages (map (\<lambda>f. (f, {PRESENT, WRITABLE})) frames)) \<and>
    fsb_init fsb_empty HEAP_START HEAP_SIZE = Inr heap"
proof -
  let ?entries = "\<lambda>frames. map_of (zip heap_pages (map (\<lambda>f. (f, {PRESENT, WRITABLE})) frames))"
  have "\<exists>m' s' frames n. map_pages allocate map_to heap_pages m s = Inr (m', s', Inr ()) \<and> I s' \<and>
      length frames = length heap_pages \<and> subseq frames (take n (remaining s)) \<and>
      remaining s' = drop n (remaining s) \<and> n \<le> 4 * length heap_pages \<and> small m' = small m \<and>
      translate m' = translate m ++ ?entries frames"
    by (rule page_mapper.map_pages_fresh [OF assms(1)])
      (use assms(3-5) heap_pages_facts(1,2) in auto)
  then obtain m' s' frames n where mp: "map_pages allocate map_to heap_pages m s = Inr (m', s', Inr ())" "I s'"
    "length frames = 25" "subseq frames (take n (remaining s))" "remaining s' = drop n (remaining s)" "n \<le> 100"
    "small m' = small m" "translate m' = translate m ++ ?entries frames"
    using heap_pages_facts(2) by auto
  obtain heap where "fsb_init fsb_empty HEAP_START HEAP_SIZE = Inr heap"
    using fsb_inv_init [of HEAP_START HEAP_SIZE] by (auto simp: HEAP_START_def HEAP_SIZE_def)
  then show ?thesis
    using mp by (intro exI [of _ m'] exI [of _ s'] exI [of _ heap] exI [of _ frames] exI [of _ n])
      (simp add: init_heap_eq [OF assms(2)])
qed

lemma heap_fresh:
  "fsb_init fsb_empty HEAP_START HEAP_SIZE = Inr heap \<Longrightarrow>
    fsb_inv heap Map.empty \<and> fsb_lo heap = HEAP_START \<and> fsb_hi heap = HEAP_START + HEAP_SIZE"
  using fsb_inv_init [of HEAP_START HEAP_SIZE] by (auto simp: HEAP_START_def HEAP_SIZE_def)

section \<open>Properties\<close>


definition exact_page_range :: "usize \<Rightarrow> usize \<Rightarrow> usize list" where
  "exact_page_range a b = map (\<lambda>k. (a div 4096 + k) * 4096) [0..<b div 4096 - a div 4096 + 1]"

definition small_machine :: MonotonicFrameAllocator where
  "small_machine = frame_allocator_init [\<lparr>range_start = 0x100000, range_end = 0x200000, region_type = Usable\<rparr>]"

definition empty_tables :: page_tables where
  "empty_tables = \<lparr>pt_tables = [], pt_entries = Map.empty\<rparr>"


end
