(* ===== verification/Demos.thy ===== *)
theory Demos
  imports Thread_Scheduler
begin

text \<open>
  The threading demo (\<open>src/src/demos.rs\<close>): kernel threads that yield a number of times and
  then exit, driven by the bootstrap thread's loop \<open>while ready_count() > 0 { yield_now() }\<close>.
  \<open>drive_step\<close> performs the next action of whichever thread is running. The number of yields
  that each thread still has to perform is a function of its id, so the liveness theorem
  covers any number of threads with any finite scripts and not only the two workers.
\<close>

section \<open>The model\<close>

type_synonym scripts = "u64 \<Rightarrow> nat"

definition worker_step :: "scripts \<times> thread_state \<Rightarrow> (scripts \<times> thread_state) res" where
  "worker_step = (\<lambda>(w, s).
    let i = current_id s in
    if w i = 0 then bind_res (exit_thread s) (\<lambda>(s, _). Inr (w, s))
    else bind_res (yield_now s) (\<lambda>(s, _). Inr (w(i := w i - 1), s)))"

definition drive_step :: "scripts \<times> thread_state \<Rightarrow> (scripts \<times> thread_state) option res" where
  "drive_step = (\<lambda>(w, s).
    if current_id s = BOOTSTRAP_ID then
      (if 0 < ready_count s then bind_res (yield_now s) (\<lambda>(s, _). Inr (Some (w, s))) else Inr None)
    else bind_res (worker_step (w, s)) (\<lambda>st. Inr (Some st)))"

primrec drive :: "nat \<Rightarrow> scripts \<times> thread_state \<Rightarrow> (scripts \<times> thread_state) option res" where
  "drive 0 st = Inr None"
| "drive (Suc n) st =
    bind_res (drive_step st) (\<lambda>r. case r of None \<Rightarrow> Inr (Some st) | Some st' \<Rightarrow> drive n st')"

definition threading_demo ::
  "nat \<Rightarrow> memory \<Rightarrow> u64 \<times> u64 \<Rightarrow> u64 \<times> u64 \<Rightarrow> u64 \<Rightarrow> u64 \<Rightarrow> thread_state \<Rightarrow>
    (memory \<times> thread_state) option res" where
  "threading_demo fuel m box_a box_b worker_a worker_b s =
    bind_res (spawn_kernel m (fst box_a) (snd box_a) worker_a s) (\<lambda>(m, s, a).
    bind_res (spawn_kernel m (fst box_b) (snd box_b) worker_b s) (\<lambda>(m, s, b).
    bind_res (drive fuel (\<lambda>_. 1, s)) (\<lambda>r.
    Inr (map_option (\<lambda>(_, s). (m, s)) r))))"

section \<open>The loop ends\<close>

definition work :: "scripts \<times> thread_state \<Rightarrow> nat" where
  "work st = (\<Sum>i \<in> fmdom' (threads (THREADS (snd st))). Suc (fst st i))"

definition drive_measure :: "scripts \<times> thread_state \<Rightarrow> nat" where
  "drive_measure st = 2 * work st + (if current_id (snd st) = BOOTSTRAP_ID then 1 else 0)"

definition same_processes :: "thread_state \<Rightarrow> thread_state \<Rightarrow> bool" where
  "same_processes s s' \<longleftrightarrow> processes_alive (SCHEDULER s') = processes_alive (SCHEDULER s) \<and>
    processes_spawned (SCHEDULER s') = processes_spawned (SCHEDULER s)"

lemma worker_step_progress:
  assumes "thread_inv s" and "current_id s \<noteq> BOOTSTRAP_ID"
  obtains w' s' where "worker_step (w, s) = Inr (w', s')" and "thread_inv s'"
    and "work (w, s) = Suc (work (w', s'))" and "NEXT_TID s' = NEXT_TID s" and "same_processes s s'"
proof -
  let ?i = "current (THREADS s)" and ?D = "fmdom' (threads (THREADS s))"
  have c: "?i \<noteq> BOOTSTRAP_ID" using assms(2) by (simp add: current_id_def)
  obtain t where t: "fmlookup (threads (THREADS s)) ?i = Some t"
    using running_thread [OF assms(1) c] by metis
  then have i: "?i \<in> ?D" by (simp add: fmlookup_dom'_iff)
  have rest: "(\<Sum>j\<in>?D. f j) = f ?i + (\<Sum>j\<in>?D - {?i}. f j)" for f :: "u64 \<Rightarrow> nat"
    using i by (simp add: sum.remove)
  show ?thesis
  proof (cases "w ?i = 0")
    case True
    have e: "exit_thread s = Inr (exited (drain_reaper s), ctx_addr s (hd (ready (THREADS s))))"
      by (rule exit_thread_eq [OF assms(1) c])
    then have "thread_inv (exited (drain_reaper s))" by (rule exit_thread_inv [OF assms(1) c])
    moreover have "fmdom' (threads (THREADS (exited (drain_reaper s)))) = ?D - {?i}"
      by (simp add: exited_def drain_reaper_facts)
    then have "work (w, s) = Suc (work (w, exited (drain_reaper s)))"
      using rest [of "\<lambda>j. Suc (w j)"] True by (simp add: work_def)
    ultimately show ?thesis
      using that True e
      by (simp add: worker_step_def current_id_def Let_def exited_def drain_reaper_facts same_processes_def
          drain_reaper_processes)
  next
    case False
    let ?w = "w(?i := w ?i - 1)"
    have "(\<Sum>j\<in>?D - {?i}. Suc (?w j)) = (\<Sum>j\<in>?D - {?i}. Suc (w j))" by (intro sum.cong) auto
    then have "work (w, s) = Suc (work (?w, turned (drain_reaper s)))"
      using rest [of "\<lambda>j. Suc (w j)"] rest [of "\<lambda>j. Suc (?w j)"] False
      by (simp add: work_def turned_def drain_reaper_facts)
    moreover have "thread_inv (turned (drain_reaper s))"
      using assms(1) by (simp add: turned_inv drain_reaper_inv)
    ultimately show ?thesis
      using that False yield_now_eq [OF assms(1)]
      by (simp add: worker_step_def current_id_def Let_def turned_def drain_reaper_facts same_processes_def
          drain_reaper_processes)
  qed
qed

lemma boot_yield:
  assumes "thread_inv s" and "current_id s = BOOTSTRAP_ID" and "0 < ready_count s"
  shows "current_id (turned (drain_reaper s)) \<noteq> BOOTSTRAP_ID"
    and "work (w, turned (drain_reaper s)) = work (w, s)"
proof -
  obtain n rest where "ready (THREADS s) = n # rest"
    using assms(3) by (cases "ready (THREADS s)") (auto simp: ready_count_def)
  with thread_invD(1) [OF assms(1)] assms(2)
  show "current_id (turned (drain_reaper s)) \<noteq> BOOTSTRAP_ID"
    by (auto simp: run_queue_def current_id_def turned_def drain_reaper_facts)
  show "work (w, turned (drain_reaper s)) = work (w, s)"
    by (simp add: work_def turned_def drain_reaper_facts)
qed

lemma drive_finishes:
  assumes "thread_inv s" and "drive_measure (w, s) < n"
  shows "\<exists>w' s'. drive n (w, s) = Inr (Some (w', s')) \<and> thread_inv s' \<and>
    current_id s' = BOOTSTRAP_ID \<and> ready_count s' = 0 \<and> NEXT_TID s' = NEXT_TID s \<and> same_processes s s'"
  using assms
proof (induction n arbitrary: w s)
  case (Suc n)
  show ?case
  proof (cases "current_id s = BOOTSTRAP_ID")
    case boot: True
    show ?thesis
    proof (cases "0 < ready_count s")
      case True
      let ?s = "turned (drain_reaper s)"
      have "drive_measure (w, ?s) < n"
        using Suc.prems(2) boot_yield [OF Suc.prems(1) boot True] boot by (simp add: drive_measure_def)
      moreover have "thread_inv ?s" using Suc.prems(1) by (simp add: turned_inv drain_reaper_inv)
      moreover have "NEXT_TID ?s = NEXT_TID s" "same_processes s' ?s = same_processes s' s"
        "same_processes ?s s' = same_processes s s'" for s'
        by (simp_all add: turned_def drain_reaper_facts same_processes_def drain_reaper_processes)
      ultimately show ?thesis
        using Suc.IH [of ?s w] boot True yield_now_eq [OF Suc.prems(1)] by (simp add: drive_step_def)
    next
      case False
      then show ?thesis using boot Suc.prems(1) by (simp add: drive_step_def same_processes_def)
    qed
  next
    case False
    obtain w' s' where "worker_step (w, s) = Inr (w', s')" "thread_inv s'"
      "work (w, s) = Suc (work (w', s'))" "NEXT_TID s' = NEXT_TID s" "same_processes s s'"
      using worker_step_progress [OF Suc.prems(1) False] by metis
    moreover from this have "drive_measure (w', s') < n"
      using Suc.prems(2) False by (auto simp: drive_measure_def)
    ultimately show ?thesis using Suc.IH [of s' w'] False by (simp add: drive_step_def same_processes_def)
  qed
qed simp

lemma idle_no_threads:
  assumes "thread_inv s" and "current_id s = BOOTSTRAP_ID" and "ready_count s = 0"
  shows "fmdom' (threads (THREADS s)) = {}"
proof -
  have "set (run_queue s) = {BOOTSTRAP_ID}"
    using assms(2,3) by (simp add: run_queue_def current_id_def ready_count_def)
  then show ?thesis using thread_invD(2,3) [OF assms(1)] by auto
qed

lemma spawn_kernel_ok:
  assumes "thread_inv s" and "NEXT_TID s \<noteq> - 1"
    and "unat stack + STACK_SIZE < 2 ^ 64" and "separate ctx 8 stack STACK_SIZE"
  shows "\<exists>m' s'. spawn_kernel m ctx stack entry s = Inr (m', s', NEXT_TID s) \<and> thread_inv s' \<and>
    NEXT_TID s' = NEXT_TID s + 1 \<and> same_processes s s' \<and>
    fmdom' (threads (THREADS s')) = insert (NEXT_TID s) (fmdom' (threads (THREADS s)))"
proof -
  let ?t = "\<lparr>kt_id = NEXT_TID s, kt_process = KERNEL_PID, kt_context = ctx, kt_stack = stack\<rparr>"
  obtain m' where "KernelThread_new m (NEXT_TID s) ctx stack entry KERNEL_PID = Inr (m', ?t)"
    using KernelThread_new_suspended [OF assms(3,4)] by metis
  then have "spawn_kernel m ctx stack entry s = Inr (m', spawned ?t s, NEXT_TID s)"
    using spawn_eq [OF assms(1)] by (simp add: spawn_kernel_def)
  moreover have "thread_inv (spawned ?t s)" using spawned_inv [OF assms(1) _ assms(2)] by simp
  ultimately show ?thesis by (auto simp: spawned_def same_processes_def counter_defs)
qed

lemma threading_demo_ok:
  assumes inv: "thread_inv s" and "current_id s = BOOTSTRAP_ID" and "ready_count s = 0"
    and "unat (NEXT_TID s) + 2 < 2 ^ 64" and "10 \<le> fuel"
    and "unat stack_a + STACK_SIZE < 2 ^ 64" and "separate ctx_a 8 stack_a STACK_SIZE"
    and "unat stack_b + STACK_SIZE < 2 ^ 64" and "separate ctx_b 8 stack_b STACK_SIZE"
  shows "\<exists>m' s'. threading_demo fuel m (ctx_a, stack_a) (ctx_b, stack_b) worker_a worker_b s =
      Inr (Some (m', s')) \<and> thread_inv s' \<and> same_processes s s' \<and> NEXT_TID s' = NEXT_TID s + 2 \<and>
    current_id s' = BOOTSTRAP_ID \<and> ready_count s' = 0 \<and> thread_count s' = 0"
proof -
  have n: "NEXT_TID s \<noteq> - 1" "NEXT_TID s + 1 \<noteq> - 1"
    using assms(4) not_max_word [of "NEXT_TID s"] not_max_word [of "NEXT_TID s + 1"]
      unat_add_le [of "NEXT_TID s" 1] by simp_all
  obtain m1 s1 where s1: "spawn_kernel m ctx_a stack_a worker_a s = Inr (m1, s1, NEXT_TID s)"
    "thread_inv s1" "NEXT_TID s1 = NEXT_TID s + 1" "same_processes s s1"
    "fmdom' (threads (THREADS s1)) = insert (NEXT_TID s) (fmdom' (threads (THREADS s)))"
    using spawn_kernel_ok [OF inv n(1) assms(6,7)] by metis
  obtain m2 s2 where s2: "spawn_kernel m1 ctx_b stack_b worker_b s1 = Inr (m2, s2, NEXT_TID s1)"
    "thread_inv s2" "NEXT_TID s2 = NEXT_TID s1 + 1" "same_processes s1 s2"
    "fmdom' (threads (THREADS s2)) = insert (NEXT_TID s1) (fmdom' (threads (THREADS s1)))"
    using spawn_kernel_ok [OF s1(2) _ assms(8,9)] n(2) s1(3) by metis
  have "fmdom' (threads (THREADS s)) = {}" using idle_no_threads [OF inv assms(2,3)] .
  then have "work (\<lambda>_. 1, s2) = 4" using s1(3,5) s2(5) by (simp add: work_def)
  then have "drive_measure (\<lambda>_. 1, s2) < fuel" using assms(5) by (simp add: drive_measure_def)
  from drive_finishes [OF s2(2) this] obtain w' s' where
    "drive fuel (\<lambda>_. 1, s2) = Inr (Some (w', s'))" "thread_inv s'" "current_id s' = BOOTSTRAP_ID"
    "ready_count s' = 0" "NEXT_TID s' = NEXT_TID s2" "same_processes s2 s'" by blast
  moreover from this have "thread_count s' = 0" by (simp add: thread_count_def idle_no_threads)
  ultimately show ?thesis
    using s1(1,3,4) s2(1,3,4) by (simp add: threading_demo_def same_processes_def add.assoc)
qed

section \<open>Properties\<close>

text \<open>
  C32: The bootstrap thread's scheduling loop terminates without a panic for every reachable
  state and every assignment of finite scripts: once each thread has performed its yields and
  exited, the loop observes an empty ready queue, control is back on the bootstrap thread and
  no thread is tracked any more. Twice the work left plus two steps suffice.
\<close>

theorem drive_terminates:
  assumes "thread_reachable boot_ctx s" and "2 * work (w, s) + 2 \<le> fuel"
  shows "\<exists>w' s'. drive fuel (w, s) = Inr (Some (w', s')) \<and> current_id s' = BOOTSTRAP_ID \<and>
    ready_count s' = 0 \<and> thread_count s' = 0"
proof -
  note inv = reachable_inv [OF assms(1)]
  have "drive_measure (w, s) < fuel" using assms(2) by (simp add: drive_measure_def)
  from drive_finishes [OF inv this] show ?thesis
    using idle_no_threads by (metis card.empty thread_count_def)
qed

theorem drive_terminates_witness:
  "\<exists>w' s'. drive 8 (\<lambda>_. 2, one_running) = Inr (Some (w', s')) \<and> current_id s' = BOOTSTRAP_ID \<and>
    thread_count s' = 0"
proof -
  have "2 * work (\<lambda>_. 2, one_running) + 2 \<le> 8" by (simp add: work_def one_running_def)
  from drive_terminates [OF one_running_reachable this] show ?thesis by blast
qed

text \<open>
  The threading demo completes: from an idle reachable state, spawning the two workers and
  driving the scheduler ends within ten steps on the bootstrap thread, with both workers gone
  and exactly two more threads counted as spawned.
\<close>

theorem threading_demo_completes:
  assumes "thread_reachable boot_ctx s" and "current_id s = BOOTSTRAP_ID" and "ready_count s = 0"
    and "unat (NEXT_TID s) + 2 < 2 ^ 64" and "10 \<le> fuel"
    and "unat stack_a + STACK_SIZE < 2 ^ 64" and "separate ctx_a 8 stack_a STACK_SIZE"
    and "unat stack_b + STACK_SIZE < 2 ^ 64" and "separate ctx_b 8 stack_b STACK_SIZE"
  shows "\<exists>m' s'. threading_demo fuel m (ctx_a, stack_a) (ctx_b, stack_b) worker_a worker_b s =
      Inr (Some (m', s')) \<and>
    current_id s' = BOOTSTRAP_ID \<and> thread_count s' = 0 \<and>
    threads_spawned (SCHEDULER s') = threads_spawned (SCHEDULER s) + 2"
proof -
  note inv = reachable_inv [OF assms(1)]
  obtain m' s' where s': "threading_demo fuel m (ctx_a, stack_a) (ctx_b, stack_b) worker_a worker_b s = Inr (Some (m', s'))"
    "thread_inv s'" "NEXT_TID s' = NEXT_TID s + 2" "current_id s' = BOOTSTRAP_ID" "thread_count s' = 0"
    using threading_demo_ok [OF inv assms(2-9)] by blast
  then have "threads_spawned (SCHEDULER s') = threads_spawned (SCHEDULER s) + 2"
    using thread_invD(8) [OF inv] thread_invD(8) [OF s'(2)] by simp
  with s' show ?thesis by blast
qed

theorem threading_demo_completes_witness:
  "\<exists>m' s'. threading_demo 10 (\<lambda>_. 0) (0x100, 0x8000) (0x200, 0x10000) 0xCAFE 0xBEEF
      (thread_init 0x9000) = Inr (Some (m', s')) \<and>
    current_id s' = BOOTSTRAP_ID \<and> thread_count s' = 0 \<and> threads_spawned (SCHEDULER s') = 2"
proof -
  let ?s = "thread_init 0x9000"
  have "current_id ?s = BOOTSTRAP_ID" "ready_count ?s = 0" "unat (NEXT_TID ?s) + 2 < 2 ^ 64"
    and spawned: "threads_spawned (SCHEDULER ?s) = 0"
    by (simp_all add: current_id_def ready_count_def thread_init_def ThreadScheduler_new_def
        Scheduler_new_def)
  from threading_demo_completes [OF thread_reachable.init this(1-3), of 10 "0x8000" "0x100" "0x10000"
      "0x200" "\<lambda>_. 0" "0xCAFE" "0xBEEF"]
  show ?thesis by (simp add: STACK_SIZE_def separate_def spawned)
qed

end
