(* ===== verification/Userland.thy ===== *)
theory Userland
  imports Interrupts Paging Demos
begin

text \<open>
  Ring-3 processes (\<open>src/src/userland.rs\<close>, and \<open>userland_demo\<close> of \<open>src/src/demos.rs\<close>): the three
  embedded programs byte by byte, the loader, the transition into ring 3, and an interpreter
  for the instructions that the programs use, so that a process can be run to its end.

  The mapper, the frame allocator and the computation of the page that contains an address are
  parameters, as are the selectors that the descriptor table of the \<open>x86_64\<close> crate hands out.
  A user state is a \<open>cpu\<close> whose memory is the kernel's; a trap or fault is delivered at the level
  of registers and frames, which is what the interrupt routine has been shown to provide.
\<close>

section \<open>The embedded programs\<close>

definition USER_DEMO :: "u8 list" where
  "USER_DEMO =
    [0x48, 0xc7, 0xc0, 0x01, 0x00, 0x00, 0x00,
     0x48, 0xc7, 0xc7, 0x01, 0x00, 0x00, 0x00,
     0x48, 0x8d, 0x35, 0x18, 0x00, 0x00, 0x00,
     0x48, 0xc7, 0xc2, 0x13, 0x00, 0x00, 0x00,
     0xcd, 0x80,
     0x48, 0xc7, 0xc0, 0x00, 0x00, 0x00, 0x00,
     0x48, 0x31, 0xff,
     0xcd, 0x80,
     0xf4,
     0xeb, 0xfe,
     0x68, 0x65, 0x6c, 0x6c, 0x6f, 0x20, 0x66, 0x72, 0x6f, 0x6d,
     0x20, 0x72, 0x69, 0x6e, 0x67, 0x20, 0x33, 0x21, 0x0a]"

definition CRASH_PF_DEMO :: "u8 list" where
  "CRASH_PF_DEMO =
    [0x48, 0xb8, 0x00, 0x00, 0x00, 0x00, 0x00, 0x50, 0x00, 0x00,
     0x48, 0xc7, 0x00, 0x00, 0x00, 0x00, 0x00,
     0xf4,
     0xeb, 0xfe]"

definition CRASH_GPF_DEMO :: "u8 list" where
  "CRASH_GPF_DEMO = [0xf4, 0xeb, 0xfe]"

section \<open>The loader\<close>

record ('m, 's, 'q, 't) loader =
  ld_mapper :: 'm
  ld_frames :: 's
  ld_kernel :: "('q, 't) kernel"

definition USER_FLAGS :: PageTableFlags where
  "USER_FLAGS = {PRESENT, WRITABLE, USER_ACCESSIBLE}"

text \<open>One frame, one page: the step that the code page and the stack page share.\<close>

definition map_user_page ::
  "('s \<Rightarrow> ('s \<times> usize option) res) \<Rightarrow> ('m, 's) map_to \<Rightarrow> usize \<Rightarrow> string \<Rightarrow> string \<Rightarrow>
    ('m, 's, 'q, 't) loader \<Rightarrow> (('m, 's, 'q, 't) loader \<times> string option) res" where
  "map_user_page allocate map_to page no_frame failed l =
    bind_res (allocate (ld_frames l)) (\<lambda>(s, r).
    let l = l\<lparr>ld_frames := s\<rparr> in
    case r of
      None \<Rightarrow> Inr (l, Some no_frame)
    | Some fr \<Rightarrow>
        bind_res (map_to page fr USER_FLAGS USER_FLAGS (ld_mapper l) (ld_frames l)) (\<lambda>(m, s, r).
        let l = l\<lparr>ld_mapper := m, ld_frames := s\<rparr> in
        Inr (l, case r of Inl _ \<Rightarrow> Some failed | Inr _ \<Rightarrow> None)))"

definition create_process_from_program ::
  "(usize \<Rightarrow> usize) \<Rightarrow> ('s \<Rightarrow> ('s \<times> usize option) res) \<Rightarrow> ('m, 's) map_to \<Rightarrow> (u8, 'q) queue_ops \<Rightarrow>
    u8 list \<Rightarrow> ('m, 's, 'q, 't) loader \<Rightarrow> (('m, 's, 'q, 't) loader \<times> (string + ProcessId)) res" where
  "create_process_from_program page_of allocate map_to Q program l =
    (if 4096 < length program then Inr (l, Inl ''program doesn't fit in one page'')
     else
       bind_res (map_user_page allocate map_to (page_of (unat USER_CODE_BASE))
           ''no frame for user code'' ''map_to_user_code failed'' l) (\<lambda>(l, e).
       case e of
         Some e \<Rightarrow> Inr (l, Inl e)
       | None \<Rightarrow>
           let k = ld_kernel l;
               l = l\<lparr>ld_kernel := k\<lparr>k_memory := write_bytes (k_memory k) USER_CODE_BASE program\<rparr>\<rparr> in
           bind_res (map_user_page allocate map_to (page_of (unat USER_STACK_BASE))
               ''no frame for user stack'' ''map_to_user stack failed'' l) (\<lambda>(l, e).
           case e of
             Some e \<Rightarrow> Inr (l, Inl e)
           | None \<Rightarrow>
               bind_res (call Q (0, 0) Kernel (ProcessCreate USER_CODE_BASE USER_STACK_TOP) (ld_kernel l)) (\<lambda>(k, out).
               let l = l\<lparr>ld_kernel := k\<rparr> in
               Inr (l, case out of
                   Reply (Response.Process i) \<Rightarrow> Inr i
                 | Reply (Err _) \<Rightarrow> Inl ''process registration denied''
                 | _ \<Rightarrow> Inl ''process registration returned an unexpected response'')))))"

definition create_demo_process ::
  "(usize \<Rightarrow> usize) \<Rightarrow> ('s \<Rightarrow> ('s \<times> usize option) res) \<Rightarrow> ('m, 's) map_to \<Rightarrow> (u8, 'q) queue_ops \<Rightarrow>
    ('m, 's, 'q, 't) loader \<Rightarrow> (('m, 's, 'q, 't) loader \<times> (string + ProcessId)) res" where
  "create_demo_process page_of allocate map_to Q l =
    create_process_from_program page_of allocate map_to Q USER_DEMO l"

definition spawn_user_thread ::
  "u64 \<times> u64 \<Rightarrow> u64 \<Rightarrow> ProcessId \<Rightarrow> ('q, 't) kernel \<Rightarrow> ('q, 't) kernel res" where
  "spawn_user_thread boxes user_thread_entry i k =
    bind_res (spawn (k_memory k) (fst boxes) (snd boxes) user_thread_entry i (k_thread k)) (\<lambda>(m, s, _).
    Inr (k\<lparr>k_memory := m, k_thread := s\<rparr>))"

section \<open>Entering ring 3\<close>

record Selectors =
  sel_user_code :: u64
  sel_user_data :: u64

definition enter_userland :: "Selectors \<Rightarrow> u64 \<Rightarrow> u64 \<Rightarrow> cpu \<Rightarrow> cpu" where
  "enter_userland sels ip sp c =
    exec_instr Iretq
      (c\<lparr>regs := (regs c)(RSP := regs c RSP - 40),
         mem := push_words (mem c) (regs c RSP)
           [sel_user_data sels, sp, 0x202, sel_user_code sels, ip]\<rparr>)"

definition user_thread_entry ::
  "(u8, 'q) queue_ops \<Rightarrow> Selectors \<Rightarrow> cpu \<Rightarrow> ('q, 't) kernel \<Rightarrow> (cpu \<times> ('q, 't) kernel) res" where
  "user_thread_entry Q sels c k =
    (let i = current_process (k_thread k) in
     bind_res (call Q (0, 0) (User i) (ProcessSnapshot i) k) (\<lambda>(k, out).
     case out of
       Reply (Snapshot (Some snap)) \<Rightarrow>
         let c = enter_userland sels (snap_user_entry snap) (snap_user_stack_top snap) (c\<lparr>mem := k_memory k\<rparr>) in
         Inr (c, k\<lparr>k_memory := mem c\<rparr>)
     | _ \<Rightarrow> Inl (Panicked ''user_thread_entry: pid missing from registry'')))"

section \<open>Running a user program\<close>

datatype user_instr =
    MovImm reg u64            \<comment> \<open>\<open>mov r64, imm\<close>\<close>
  | StoreImm reg u64          \<comment> \<open>\<open>mov qword [r64], imm\<close>\<close>
  | LeaRip reg u64            \<comment> \<open>\<open>lea r64, [rip + disp]\<close>\<close>
  | XorSelf reg
  | IntN nat
  | Hlt
  | Jmp u64

text \<open>Little-endian immediates, sign-extended to 64 bits.\<close>

definition imm32 :: "u8 list \<Rightarrow> u64" where
  "imm32 bs = signed_take_bit 31 (of_bytes (take 4 bs))"

definition imm8 :: "u8 \<Rightarrow> u64" where
  "imm8 b = signed_take_bit 7 (ucast b)"

definition reg_of :: "u8 \<Rightarrow> reg" where
  "reg_of b = [RAX, RCX, RDX, RBX, RSP, RBP, RSI, RDI] ! unat (b AND 7)"

text \<open>The encodings that occur in the programs; \<open>None\<close> for any other opcode.\<close>

definition decode :: "u8 list \<Rightarrow> (user_instr \<times> nat) option" where
  "decode bs =
    (if bs ! 0 = 0x48 then
       if bs ! 1 = 0xc7 \<and> bs ! 2 AND 0xf8 = 0xc0 then Some (MovImm (reg_of (bs ! 2)) (imm32 (drop 3 bs)), 7)
       else if bs ! 1 = 0xc7 \<and> bs ! 2 = 0x00 then Some (StoreImm RAX (imm32 (drop 3 bs)), 7)
       else if bs ! 1 = 0x8d \<and> bs ! 2 = 0x35 then Some (LeaRip RSI (imm32 (drop 3 bs)), 7)
       else if bs ! 1 = 0x31 \<and> bs ! 2 = 0xff then Some (XorSelf RDI, 3)
       else if bs ! 1 AND 0xf8 = 0xb8 then Some (MovImm (reg_of (bs ! 1)) (of_bytes (take 8 (drop 2 bs))), 10)
       else None
     else if bs ! 0 = 0xcd then Some (IntN (unat (bs ! 1)), 2)
     else if bs ! 0 = 0xf4 then Some (Hlt, 1)
     else if bs ! 0 = 0xeb then Some (Jmp (imm8 (bs ! 1)), 2)
     else None)"

datatype user_event = Continue cpu | Trap nat cpu | Fault nat

definition present_range :: "(u64 \<Rightarrow> bool) \<Rightarrow> u64 \<Rightarrow> nat \<Rightarrow> bool" where
  "present_range present a n = list_all (\<lambda>i. present (a + of_nat i)) [0..<n]"

text \<open>
  One instruction in ring 3: a fetch or store outside the mapped pages is a page fault (vector
  14), \<open>hlt\<close> a general protection fault (13), an unknown opcode counts as invalid (6).
\<close>

definition user_step :: "(u64 \<Rightarrow> bool) \<Rightarrow> cpu \<Rightarrow> user_event" where
  "user_step present c =
    (case decode (read_bytes (mem c) (rip c) 10) of
       None \<Rightarrow> if present (rip c) then Fault 6 else Fault 14
     | Some (i, n) \<Rightarrow>
         if \<not> present_range present (rip c) n then Fault 14
         else let c' = c\<lparr>rip := rip c + of_nat n\<rparr> in
           case i of
             MovImm r v \<Rightarrow> Continue (set_reg r v c')
           | StoreImm r v \<Rightarrow>
               if present_range present (regs c r) 8 then Continue (c'\<lparr>mem := write64 (mem c) (regs c r) v\<rparr>)
               else Fault 14
           | LeaRip r d \<Rightarrow> Continue (set_reg r (rip c' + d) c')
           | XorSelf r \<Rightarrow> Continue (set_reg r 0 (c'\<lparr>rflags := (rflags c AND NOT 0x8d5) OR 0x44\<rparr>))
           | IntN v \<Rightarrow> Trap v c'
           | Hlt \<Rightarrow> Fault 13
           | Jmp d \<Rightarrow> Continue (c'\<lparr>rip := rip c' + d\<rparr>))"

definition trap_frame :: "cpu \<Rightarrow> SyscallFrame" where
  "trap_frame c =
    \<lparr>f_r15 = regs c R15, f_r14 = regs c R14, f_r13 = regs c R13, f_r12 = regs c R12,
     f_r11 = regs c R11, f_r10 = regs c R10, f_r9 = regs c R9, f_r8 = regs c R8,
     f_rdi = regs c RDI, f_rsi = regs c RSI, f_rbp = regs c RBP, f_rbx = regs c RBX,
     f_rdx = regs c RDX, f_rcx = regs c RCX, f_rax = regs c RAX, f_rip = rip c, f_cs = cs c,
     f_rflags = rflags c, f_user_rsp = regs c RSP, f_user_ss = ss c\<rparr>"

datatype ('q, 't) user_result =
    Running cpu "('q, 't) kernel"
  | Switched "u64 \<times> u64" cpu "('q, 't) kernel"
  | Left u64 "('q, 't) kernel"

text \<open>One instruction with everything the kernel does in response to it.\<close>

definition user_kernel_step ::
  "(u8, 'q) queue_ops \<Rightarrow> (u64 \<Rightarrow> bool) \<Rightarrow> u8 list \<Rightarrow> cpu \<Rightarrow> ('q, 't) kernel \<Rightarrow> ('q, 't) user_result res" where
  "user_kernel_step Q present report c k =
    (case user_step present c of
       Continue c \<Rightarrow> Inr (Running c (k\<lparr>k_memory := mem c\<rparr>))
     | Trap v c \<Rightarrow>
         (case int_target 3 v of
            Some SyscallIsr \<Rightarrow>
              bind_res (syscall_dispatch Q present (trap_frame c) k) (\<lambda>(k, out).
              Inr (case out of
                  Rax r \<Rightarrow> Running (set_reg RAX r c) k
                | RaxAfter sw r \<Rightarrow> Switched sw (set_reg RAX r c) k
                | Gone ctx \<Rightarrow> Left ctx k))
          | _ \<Rightarrow> bind_res (gpf_handler Q report (cs c) k) (\<lambda>(k, ctx). Inr (Left ctx k)))
     | Fault v \<Rightarrow>
         bind_res (take_exception Q report (cs c) v k) (\<lambda>(k, ctx).
         Inr (case ctx of Some ctx \<Rightarrow> Left ctx k | None \<Rightarrow> Running c k)))"

primrec user_run ::
  "(u8, 'q) queue_ops \<Rightarrow> (u64 \<Rightarrow> bool) \<Rightarrow> u8 list \<Rightarrow> nat \<Rightarrow> cpu \<Rightarrow> ('q, 't) kernel \<Rightarrow> ('q, 't) user_result res" where
  "user_run Q present report 0 c k = Inr (Running c k)"
| "user_run Q present report (Suc n) c k =
    bind_res (user_kernel_step Q present report c k) (\<lambda>r.
    case r of Running c k \<Rightarrow> user_run Q present report n c k | _ \<Rightarrow> Inr r)"

section \<open>The boot-time demo\<close>

text \<open>
  \<open>start ctx m\<close> is the processor on its first instruction of a fresh thread with context \<open>ctx\<close>.
  The two numbers bound the turns of the bootstrap thread's loop and the instructions of one
  process; a process that has not left ring 3 for good by then counts as not returning.
\<close>

definition run_user_thread ::
  "(u8, 'q) queue_ops \<Rightarrow> (u64 \<Rightarrow> bool) \<Rightarrow> u8 list \<Rightarrow> Selectors \<Rightarrow> (u64 \<Rightarrow> memory \<Rightarrow> cpu) \<Rightarrow> nat \<Rightarrow>
    ('q, 't) kernel \<Rightarrow> ('q, 't) kernel option res" where
  "run_user_thread Q present report sels start steps k =
    bind_res (context_of (THREADS (k_thread k)) (current_id (k_thread k)) []) (\<lambda>ctx.
    bind_res (user_thread_entry Q sels (start ctx (k_memory k)) k) (\<lambda>(c, k).
    bind_res (user_run Q present report steps c k) (\<lambda>r.
    Inr (case r of Left _ k \<Rightarrow> Some k | _ \<Rightarrow> None))))"

primrec userland_drive ::
  "nat \<Rightarrow> (u8, 'q) queue_ops \<Rightarrow> (u64 \<Rightarrow> bool) \<Rightarrow> u8 list \<Rightarrow> Selectors \<Rightarrow> (u64 \<Rightarrow> memory \<Rightarrow> cpu) \<Rightarrow>
    nat \<Rightarrow> ('q, 't) kernel \<Rightarrow> ('q, 't) kernel option res" where
  "userland_drive 0 Q present report sels start steps k = Inr None"
| "userland_drive (Suc n) Q present report sels start steps k =
    (if current_id (k_thread k) = BOOTSTRAP_ID then
       if ready_count (k_thread k) > 0 then
         bind_res (yield_now (k_thread k)) (\<lambda>(s, _).
         userland_drive n Q present report sels start steps (k\<lparr>k_thread := s\<rparr>))
       else Inr (Some k)
     else
       bind_res (run_user_thread Q present report sels start steps k) (\<lambda>r.
       case r of None \<Rightarrow> Inr None
       | Some k \<Rightarrow> userland_drive n Q present report sels start steps k))"

definition userland_demo ::
  "(usize \<Rightarrow> usize) \<Rightarrow> ('s \<Rightarrow> ('s \<times> usize option) res) \<Rightarrow> ('m, 's) map_to \<Rightarrow> (u8, 'q) queue_ops \<Rightarrow>
    (u64 \<Rightarrow> bool) \<Rightarrow> u8 list \<Rightarrow> Selectors \<Rightarrow> (u64 \<Rightarrow> memory \<Rightarrow> cpu) \<Rightarrow> u64 \<times> u64 \<Rightarrow> u64 \<Rightarrow> nat \<Rightarrow> nat \<Rightarrow>
    ('m, 's, 'q, 't) loader \<Rightarrow> ('m, 's, 'q, 't) loader option res" where
  "userland_demo page_of allocate map_to Q present report sels start boxes entry turns steps l =
    bind_res (create_demo_process page_of allocate map_to Q l) (\<lambda>(l, r).
    case r of
      Inl _ \<Rightarrow> Inr (Some l)
    | Inr i \<Rightarrow>
        bind_res (spawn_user_thread boxes entry i (ld_kernel l)) (\<lambda>k.
        bind_res (userland_drive turns Q present report sels start steps k) (\<lambda>r.
        case r of
          None \<Rightarrow> Inr None
        | Some k \<Rightarrow>
            bind_res (yield_now (k_thread k)) (\<lambda>(s, _).
            Inr (Some (l\<lparr>ld_kernel := k\<lparr>k_thread := s\<rparr>\<rparr>))))))"

section \<open>Programs in memory\<close>

definition code_at :: "nat \<Rightarrow> u64" where
  "code_at off = USER_CODE_BASE + of_nat off"

definition loaded :: "u8 list \<Rightarrow> memory \<Rightarrow> bool" where
  "loaded program m \<longleftrightarrow> read_bytes m USER_CODE_BASE (length program) = program"

lemma loaded_nth: "loaded program m \<Longrightarrow> i < length program \<Longrightarrow> m (code_at i) = program ! i"
  unfolding loaded_def code_at_def by (metis read_bytes_nth)

lemma code_at_add: "code_at off + of_nat n = code_at (off + n)"
  by (simp add: code_at_def)

lemma loaded_read:
  assumes "loaded program m" and "off + n \<le> length program"
  shows "read_bytes m (code_at off) n = take n (drop off program)"
proof (rule nth_equalityI)
  show "length (read_bytes m (code_at off) n) = length (take n (drop off program))"
    using assms(2) by simp
  show "read_bytes m (code_at off) n ! i = take n (drop off program) ! i"
    if "i < length (read_bytes m (code_at off) n)" for i
    using that assms(2) loaded_nth [OF assms(1), of "off + i"] by (simp add: code_at_add)
qed

lemma code_page_present: "off < 4096 \<Longrightarrow> process_pages (code_at off)"
proof -
  assume "off < 4096"
  then have "unat (of_nat off :: u64) = off" by (simp add: unat_of_nat take_bit_nat_eq_self)
  with \<open>off < 4096\<close> show ?thesis
    by (simp add: process_pages_def code_at_def USER_CODE_BASE_def word_le_nat_alt word_less_nat_alt
        unat_word_ariths)
qed

lemma code_range_present: "off + n \<le> 4096 \<Longrightarrow> present_range process_pages (code_at off) n"
  by (simp add: present_range_def list_all_iff code_at_add code_page_present)

text \<open>An instruction of a loaded program.\<close>

lemma user_step_loaded:
  assumes "loaded program (mem c)" and "rip c = code_at off" and "off + 10 \<le> length program"
    and "decode (take 10 (drop off program)) = Some (i, n)" and "length program \<le> 4096" and "n \<le> 10"
  shows "user_step process_pages c =
    (let c' = c\<lparr>rip := code_at (off + n)\<rparr> in
     case i of
       MovImm r v \<Rightarrow> Continue (set_reg r v c')
     | StoreImm r v \<Rightarrow>
         if present_range process_pages (regs c r) 8 then Continue (c'\<lparr>mem := write64 (mem c) (regs c r) v\<rparr>)
         else Fault 14
     | LeaRip r d \<Rightarrow> Continue (set_reg r (rip c' + d) c')
     | XorSelf r \<Rightarrow> Continue (set_reg r 0 (c'\<lparr>rflags := (rflags c AND NOT 0x8d5) OR 0x44\<rparr>))
     | IntN v \<Rightarrow> Trap v c'
     | Hlt \<Rightarrow> Fault 13
     | Jmp d \<Rightarrow> Continue (c'\<lparr>rip := rip c' + d\<rparr>))"
  using assms loaded_read [OF assms(1,3)] code_range_present [of off n]
  by (simp add: user_step_def code_at_add)

lemma user_run_continue:
  assumes "user_step present c = Continue c'" and "mem c' = k_memory k"
  shows "user_run Q present report (Suc n) c k = user_run Q present report n c' k"
proof -
  have "k\<lparr>k_memory := mem c'\<rparr> = k" using assms(2) by (cases k) simp
  then show ?thesis using assms(1) by (simp add: user_kernel_step_def)
qed

lemma user_run_syscall:
  assumes "user_step present c = Trap 0x80 c'"
  shows "user_run Q present report (Suc n) c k =
    bind_res (syscall_dispatch Q present (trap_frame c') k) (\<lambda>(k, out).
    case out of
      Rax r \<Rightarrow> user_run Q present report n (set_reg RAX r c') k
    | RaxAfter sw r \<Rightarrow> Inr (Switched sw (set_reg RAX r c') k)
    | Gone ctx \<Rightarrow> Inr (Left ctx k))"
proof -
  have "int_target 3 0x80 = Some SyscallIsr"
    by (simp add: int_target_def IDT_def PIC_1_OFFSET_def SYSCALL_VECTOR_def)
  then have step: "user_kernel_step Q present report c k =
      bind_res (syscall_dispatch Q present (trap_frame c') k) (\<lambda>(k, out).
      Inr (case out of
          Rax r \<Rightarrow> Running (set_reg RAX r c') k
        | RaxAfter sw r \<Rightarrow> Switched sw (set_reg RAX r c') k
        | Gone ctx \<Rightarrow> Left ctx k))"
    using assms by (simp add: user_kernel_step_def)
  show ?thesis
  proof (cases "syscall_dispatch Q present (trap_frame c') k")
    case (Inr r)
    then show ?thesis by (cases r; cases "snd r") (simp_all add: step)
  qed (simp add: step)
qed

text \<open>The decoded programs.\<close>

lemma decode_USER_DEMO:
  "decode (take 10 (drop 0 USER_DEMO)) = Some (MovImm RAX 1, 7)"
  "decode (take 10 (drop 7 USER_DEMO)) = Some (MovImm RDI 1, 7)"
  "decode (take 10 (drop 14 USER_DEMO)) = Some (LeaRip RSI 0x18, 7)"
  "decode (take 10 (drop 21 USER_DEMO)) = Some (MovImm RDX 19, 7)"
  "decode (take 10 (drop 28 USER_DEMO)) = Some (IntN 0x80, 2)"
  "decode (take 10 (drop 30 USER_DEMO)) = Some (MovImm RAX 0, 7)"
  "decode (take 10 (drop 37 USER_DEMO)) = Some (XorSelf RDI, 3)"
  "decode (take 10 (drop 40 USER_DEMO)) = Some (IntN 0x80, 2)"
  "length USER_DEMO = 64"
  by (simp_all add: USER_DEMO_def decode_def reg_of_def imm32_def of_bytes_def)

lemma decode_CRASH_PF_DEMO:
  "decode (take 10 (drop 0 CRASH_PF_DEMO)) = Some (MovImm RAX 0x500000000000, 10)"
  "decode (take 10 (drop 10 CRASH_PF_DEMO)) = Some (StoreImm RAX 0, 7)"
  "length CRASH_PF_DEMO = 20"
  by (simp_all add: CRASH_PF_DEMO_def decode_def reg_of_def imm32_def of_bytes_def)

section \<open>The demo program\<close>

definition GREETING :: "u8 list" where
  "GREETING =
    [0x68, 0x65, 0x6c, 0x6c, 0x6f, 0x20, 0x66, 0x72, 0x6f, 0x6d, 0x20, 0x72, 0x69, 0x6e, 0x67,
     0x20, 0x33, 0x21, 0x0a]"

text \<open>The registers when the program reaches its first and its second \<open>int\<close>.\<close>

definition before_write :: "cpu \<Rightarrow> cpu" where
  "before_write c =
    c\<lparr>rip := code_at 30, regs := (regs c)(RAX := 1, RDI := 1, RSI := code_at 45, RDX := 19)\<rparr>"

definition before_exit :: "cpu \<Rightarrow> cpu" where
  "before_exit c =
    c\<lparr>rip := code_at 42, rflags := (rflags c AND NOT 0x8d5) OR 0x44, regs := (regs c)(RAX := 0, RDI := 0)\<rparr>"

lemma demo_to_write:
  assumes "loaded USER_DEMO (mem c)" and "rip c = code_at 0" and "mem c = k_memory k"
  shows "user_run Q process_pages report (n + 5) c k =
    bind_res (syscall_dispatch Q process_pages (trap_frame (before_write c)) k) (\<lambda>(k, out).
    case out of
      Rax r \<Rightarrow> user_run Q process_pages report n (set_reg RAX r (before_write c)) k
    | RaxAfter sw r \<Rightarrow> Inr (Switched sw (set_reg RAX r (before_write c)) k)
    | Gone ctx \<Rightarrow> Inr (Left ctx k))"
proof -
  let ?c1 = "set_reg RAX 1 (c\<lparr>rip := code_at 7\<rparr>)"
  let ?c2 = "set_reg RDI 1 (?c1\<lparr>rip := code_at 14\<rparr>)"
  let ?c3 = "set_reg RSI (code_at 45) (?c2\<lparr>rip := code_at 21\<rparr>)"
  let ?c4 = "set_reg RDX 19 (?c3\<lparr>rip := code_at 28\<rparr>)"
  note step = user_step_loaded [where program = USER_DEMO, unfolded decode_USER_DEMO(9)]
  have "user_step process_pages c = Continue ?c1"
    using step [OF _ _ _ decode_USER_DEMO(1)] assms by simp
  moreover have "user_step process_pages ?c1 = Continue ?c2"
    using step [OF _ _ _ decode_USER_DEMO(2), of ?c1] assms by simp
  moreover have "code_at 21 + 0x18 = code_at 45" by (simp add: code_at_def)
  then have "user_step process_pages ?c2 = Continue ?c3"
    using step [OF _ _ _ decode_USER_DEMO(3), of ?c2] assms by simp
  moreover have "user_step process_pages ?c3 = Continue ?c4"
    using step [OF _ _ _ decode_USER_DEMO(4), of ?c3] assms by simp
  moreover have "?c4\<lparr>rip := code_at 30\<rparr> = before_write c"
    by (cases c) (simp add: before_write_def set_reg_def)
  then have "user_step process_pages ?c4 = Trap 0x80 (before_write c)"
    using step [OF _ _ _ decode_USER_DEMO(5), of ?c4] assms by simp
  note trap = user_run_syscall [OF this]
  ultimately have "user_run Q process_pages report (Suc (Suc (Suc (Suc (Suc n))))) c k =
      user_run Q process_pages report (Suc n) ?c4 k"
    using assms(3) by (simp add: user_run_continue del: user_run.simps)
  then show ?thesis unfolding trap by (simp add: numeral_eq_Suc)
qed

lemma demo_to_exit:
  assumes "loaded USER_DEMO (mem c)" and "rip c = code_at 30" and "mem c = k_memory k"
  shows "user_run Q process_pages report (n + 3) c k =
    bind_res (syscall_dispatch Q process_pages (trap_frame (before_exit c)) k) (\<lambda>(k, out).
    case out of
      Rax r \<Rightarrow> user_run Q process_pages report n (set_reg RAX r (before_exit c)) k
    | RaxAfter sw r \<Rightarrow> Inr (Switched sw (set_reg RAX r (before_exit c)) k)
    | Gone ctx \<Rightarrow> Inr (Left ctx k))"
proof -
  let ?c1 = "set_reg RAX 0 (c\<lparr>rip := code_at 37\<rparr>)"
  let ?c2 = "set_reg RDI 0 (?c1\<lparr>rip := code_at 40, rflags := (rflags c AND NOT 0x8d5) OR 0x44\<rparr>)"
  note step = user_step_loaded [where program = USER_DEMO, unfolded decode_USER_DEMO(9)]
  have "user_step process_pages c = Continue ?c1"
    using step [OF _ _ _ decode_USER_DEMO(6)] assms by simp
  moreover have "user_step process_pages ?c1 = Continue ?c2"
    using step [OF _ _ _ decode_USER_DEMO(7), of ?c1] assms by simp
  moreover have "?c2\<lparr>rip := code_at 42\<rparr> = before_exit c"
    by (cases c) (simp add: before_exit_def set_reg_def)
  then have "user_step process_pages ?c2 = Trap 0x80 (before_exit c)"
    using step [OF _ _ _ decode_USER_DEMO(8), of ?c2] assms by simp
  note trap = user_run_syscall [OF this]
  ultimately have "user_run Q process_pages report (Suc (Suc (Suc n))) c k =
      user_run Q process_pages report (Suc n) ?c2 k"
    using assms(3) by (simp add: user_run_continue del: user_run.simps)
  then show ?thesis unfolding trap by (simp add: numeral_eq_Suc)
qed

lemma demo_write_frame:
  assumes "loaded USER_DEMO (k_memory k)"
  shows "f_rax (trap_frame (before_write c)) = SYS_WRITE" "f_rdi (trap_frame (before_write c)) = STDOUT"
    "in_user_window (trap_frame (before_write c))" "buffer_present process_pages (trap_frame (before_write c))"
    "read_bytes (k_memory k) (f_rsi (trap_frame (before_write c))) (unat (f_rdx (trap_frame (before_write c)))) = GREETING"
proof -
  have f: "f_rax (trap_frame (before_write c)) = 1" "f_rdi (trap_frame (before_write c)) = 1"
    "f_rsi (trap_frame (before_write c)) = code_at 45" "f_rdx (trap_frame (before_write c)) = 19"
    by (simp_all add: trap_frame_def before_write_def)
  show "f_rax (trap_frame (before_write c)) = SYS_WRITE" "f_rdi (trap_frame (before_write c)) = STDOUT"
    "in_user_window (trap_frame (before_write c))"
    using f by (simp_all add: SYS_WRITE_def STDOUT_def in_user_window_def code_at_def USER_CODE_BASE_def
        USER_STACK_TOP_def)
  show "buffer_present process_pages (trap_frame (before_write c))"
    using f by (simp add: buffer_present_def code_at_add code_page_present)
  have "read_bytes (k_memory k) (code_at 45) 19 = take 19 (drop 45 USER_DEMO)"
    using assms by (intro loaded_read) (simp_all add: decode_USER_DEMO)
  also have "\<dots> = GREETING" by (simp add: USER_DEMO_def GREETING_def)
  finally show "read_bytes (k_memory k) (f_rsi (trap_frame (before_write c)))
      (unat (f_rdx (trap_frame (before_write c)))) = GREETING"
    using f by simp
qed

lemma demo_runs:
  assumes "kernel_inv contents k" and "current (THREADS (k_thread k)) \<noteq> BOOTSTRAP_ID"
    and "loaded USER_DEMO (k_memory k)" and "mem c = k_memory k" and "rip c = USER_CODE_BASE"
  shows "\<exists>w k' ctx. user_run Q process_pages report (n + 8) c k = Inr (Left ctx k') \<and>
    console_write GREETING (k_console k) = Inr (w, 19) \<and> k_console k' = w \<and> kernel_inv contents k' \<and>
    fmlookup (processes (k_process k')) (current_process (k_thread k)) = None \<and>
    (\<forall>j. j \<noteq> current_process (k_thread k) \<longrightarrow>
      fmlookup (processes (k_process k')) j = fmlookup (processes (k_process k)) j) \<and>
    THREADS (k_thread k') = THREADS (exited (drain_reaper (k_thread k))) \<and>
    released (k_thread k') = released (drain_reaper (k_thread k)) \<and>
    k_input k' = k_input k \<and> k_heap k' = k_heap k"
proof -
  have rip: "rip c = code_at 0" using assms(5) by (simp add: code_at_def)
  note fr = demo_write_frame [OF assms(3), of c]
  obtain w where w: "console_write GREETING (k_console k) = Inr (w, 19)"
    "kernel_inv contents (k\<lparr>k_console := w\<rparr>)"
    "syscall_dispatch Q process_pages (trap_frame (before_write c)) k = Inr (k\<lparr>k_console := w\<rparr>, Rax 19)"
    using dispatch_write_ok [OF assms(1) fr(4,1-3), of Q] unfolding fr(5)
    by (auto simp: trap_frame_def before_write_def)
  let ?k = "k\<lparr>k_console := w\<rparr>" and ?c = "set_reg RAX 19 (before_write c)"
  have "user_run Q process_pages report (n + 3 + 5) c k = user_run Q process_pages report (n + 3) ?c ?k"
    using demo_to_write [of c k Q report "n + 3"] assms(3,4) rip w(3) by simp
  then have "user_run Q process_pages report (n + 8) c k = user_run Q process_pages report (n + 3) ?c ?k"
    by (simp add: add.assoc)
  moreover have "current (THREADS (k_thread ?k)) \<noteq> BOOTSTRAP_ID" using assms(2) by simp
  then obtain k' ctx where k': "syscall_dispatch Q process_pages (trap_frame (before_exit ?c)) ?k = Inr (k', Gone ctx)"
    "kernel_inv contents k'" "k_console k' = w"
    "fmlookup (processes (k_process k')) (current_process (k_thread k)) = None"
    "\<forall>j. j \<noteq> current_process (k_thread k) \<longrightarrow>
      fmlookup (processes (k_process k')) j = fmlookup (processes (k_process k)) j"
    "THREADS (k_thread k') = THREADS (exited (drain_reaper (k_thread k)))"
    "released (k_thread k') = released (drain_reaper (k_thread k))"
    using dispatch_exit_ok [OF w(2), of "trap_frame (before_exit ?c)" Q process_pages]
    by (auto simp: SYS_EXIT_def trap_frame_def before_exit_def)
  moreover have "k_input k' = k_input k \<and> k_heap k' = k_heap k"
    using dispatch_exit_unchanged [OF k'(1)] by (simp add: SYS_EXIT_def trap_frame_def before_exit_def)
  moreover have "user_run Q process_pages report (n + 3) ?c ?k = Inr (Left ctx k')"
    using demo_to_exit [of ?c ?k Q report n] assms(3,4) k'(1) by (simp add: before_write_def)
  ultimately show ?thesis using w(1) by simp
qed

section \<open>Loading a process\<close>

definition page_of_ok :: "(usize \<Rightarrow> usize) \<Rightarrow> bool" where
  "page_of_ok page_of \<longleftrightarrow> (\<forall>a. page_of a = a - a mod 4096)"

definition CODE_PAGE :: usize where "CODE_PAGE = unat USER_CODE_BASE"

definition STACK_PAGE :: usize where "STACK_PAGE = unat USER_STACK_BASE"

lemma user_pages:
  assumes "page_of_ok page_of"
  shows "page_of (unat USER_CODE_BASE) = CODE_PAGE" "page_of (unat USER_STACK_BASE) = STACK_PAGE"
    "CODE_PAGE \<noteq> STACK_PAGE"
  using assms by (simp_all add: page_of_ok_def CODE_PAGE_def STACK_PAGE_def USER_CODE_BASE_def USER_STACK_BASE_def)

context page_mapper
begin

lemma map_user_page_fresh:
  assumes "inv (ld_frames l)" and "translate (ld_mapper l) page = None" and "small (ld_mapper l) page"
    and "4 \<le> length (remaining (ld_frames l))"
  obtains l' f n where "map_user_page allocate map_to page e1 e2 l = Inr (l', None)"
    and "ld_kernel l' = ld_kernel l" and "inv (ld_frames l')" and "n \<le> 4"
    and "remaining (ld_frames l) = f # tl (remaining (ld_frames l))"
    and "remaining (ld_frames l') = drop n (remaining (ld_frames l))" and "0 < n"
    and "small (ld_mapper l') = small (ld_mapper l)"
    and "translate (ld_mapper l') = (translate (ld_mapper l))(page \<mapsto> (f, USER_FLAGS))"
proof -
  obtain f fs where r: "remaining (ld_frames l) = f # fs" using assms(4) by (cases "remaining (ld_frames l)") auto
  obtain s1 where s1: "allocate (ld_frames l) = Inr (s1, Some f)" "inv s1" "remaining s1 = fs"
    using allocate_Some [OF assms(1) r] .
  have "3 \<le> length (remaining s1)" using assms(4) r s1(3) by simp
  from map_to_fresh [OF s1(2) assms(2,3) this, of f USER_FLAGS USER_FLAGS]
  obtain m2 s2 n where m2: "map_to page f USER_FLAGS USER_FLAGS (ld_mapper l) s1 = Inr (m2, s2, Inr ())"
    "inv s2" "n \<le> 3" "remaining s2 = drop n fs" "small m2 = small (ld_mapper l)"
    "translate m2 = (translate (ld_mapper l))(page \<mapsto> (f, USER_FLAGS))"
    using s1(3) by metis
  show ?thesis
    by (rule that [of "l\<lparr>ld_frames := s2, ld_mapper := m2\<rparr>" "Suc n" f])
      (use s1 m2 r in \<open>simp_all add: map_user_page_def Let_def\<close>)
qed

lemma map_user_page_taken:
  assumes "inv (ld_frames l)" and "translate (ld_mapper l) page \<noteq> None"
    and "4 \<le> length (remaining (ld_frames l))"
  obtains l' where "map_user_page allocate map_to page e1 e2 l = Inr (l', Some e2)"
    and "ld_kernel l' = ld_kernel l" and "translate (ld_mapper l') = translate (ld_mapper l)"
proof -
  obtain f fs where r: "remaining (ld_frames l) = f # fs" using assms(3) by (cases "remaining (ld_frames l)") auto
  obtain s1 where s1: "allocate (ld_frames l) = Inr (s1, Some f)" "inv s1"
    using allocate_Some [OF assms(1) r] by metis
  obtain m2 s2 r where mr: "map_to page f USER_FLAGS USER_FLAGS (ld_mapper l) s1 = Inr (m2, s2, r)"
    "case r of Inr _ \<Rightarrow> translate (ld_mapper l) page = None | Inl _ \<Rightarrow> translate m2 = translate (ld_mapper l)"
    using map_to_contract [OF s1(2), of page f USER_FLAGS USER_FLAGS "ld_mapper l"]
    by (fastforce split: sum.splits)
  then obtain e where m2: "map_to page f USER_FLAGS USER_FLAGS (ld_mapper l) s1 = Inr (m2, s2, Inl e)"
    "translate m2 = translate (ld_mapper l)"
    using assms(2) by (cases r) auto
  show ?thesis
    by (rule that [of "l\<lparr>ld_frames := s2, ld_mapper := m2\<rparr>"])
      (use s1 m2 in \<open>simp_all add: map_user_page_def Let_def\<close>)
qed

end

lemma subseq_pair:
  assumes "xs = f # tl xs" and "drop n xs = g # ys" and "0 < n"
  shows "subseq [f, g] xs"
proof -
  obtain n' where "n = Suc n'" using assms(3) by (cases n) auto
  then have "g \<in> set (tl xs)"
    using assms(1,2) in_set_dropD [of g n' "tl xs"] by (metis drop_Suc list.set_intros(1))
  then have "subseq (f # [g]) (f # tl xs)" by (simp add: subseq_singleton_left)
  then show ?thesis using assms(1) by simp
qed

lemma loaded_write_bytes:
  "length program \<le> 4096 \<Longrightarrow> loaded program (write_bytes m USER_CODE_BASE program)"
  by (simp add: loaded_def read_write_bytes_same)

text \<open>The kernel after a successful load.\<close>

definition after_load :: "u8 list \<Rightarrow> ('q, 't) kernel \<Rightarrow> ('q, 't) kernel" where
  "after_load program k =
    with_processes (k\<lparr>k_memory := write_bytes (k_memory k) USER_CODE_BASE program\<rparr>)
      (fst (process_create USER_CODE_BASE USER_STACK_TOP (process_side k)))"

lemma create_process_ok:
  assumes pm: "page_mapper allocate I remaining map_to translate small" and po: "page_of_ok page_of"
    and "I (ld_frames l)" and "8 \<le> length (remaining (ld_frames l))" and "length program \<le> 4096"
    and new: "\<And>p. p \<in> {CODE_PAGE, STACK_PAGE} \<Longrightarrow>
      translate (ld_mapper l) p = None \<and> small (ld_mapper l) p"
  obtains l' f g n where "create_process_from_program page_of allocate map_to Q program l =
      Inr (l', Inr (NEXT_PID (k_process (ld_kernel l))))"
    and "ld_kernel l' = after_load program (ld_kernel l)" and "I (ld_frames l')"
    and "subseq [f, g] (remaining (ld_frames l))"
    and "remaining (ld_frames l') = drop n (remaining (ld_frames l))" and "n \<le> 8"
    and "translate (ld_mapper l') =
      (translate (ld_mapper l))(CODE_PAGE \<mapsto> (f, USER_FLAGS), STACK_PAGE \<mapsto> (g, USER_FLAGS))"
proof -
  note pages = user_pages [OF po]
  have pre: "translate (ld_mapper l) CODE_PAGE = None" "small (ld_mapper l) CODE_PAGE"
    "4 \<le> length (remaining (ld_frames l))"
    using assms(4) new by simp_all
  obtain l1 f n where l1: "map_user_page allocate map_to CODE_PAGE ''no frame for user code''
      ''map_to_user_code failed'' l = Inr (l1, None)" "ld_kernel l1 = ld_kernel l" "I (ld_frames l1)" "n \<le> 4"
    "remaining (ld_frames l) = f # tl (remaining (ld_frames l))"
    "remaining (ld_frames l1) = drop n (remaining (ld_frames l))" "0 < n"
    "small (ld_mapper l1) = small (ld_mapper l)"
    "translate (ld_mapper l1) = (translate (ld_mapper l))(CODE_PAGE \<mapsto> (f, USER_FLAGS))"
    by (rule page_mapper.map_user_page_fresh [OF pm assms(3) pre])
  let ?k = "ld_kernel l"
  let ?k1 = "?k\<lparr>k_memory := write_bytes (k_memory ?k) USER_CODE_BASE program\<rparr>"
  let ?l1 = "l1\<lparr>ld_kernel := ?k1\<rparr>"
  have pre1: "I (ld_frames ?l1)" "translate (ld_mapper ?l1) STACK_PAGE = None" "small (ld_mapper ?l1) STACK_PAGE"
    "4 \<le> length (remaining (ld_frames ?l1))"
    using new l1(3,4,6,8,9) pages(3) assms(4) by simp_all
  obtain l2 g k where l2: "map_user_page allocate map_to STACK_PAGE ''no frame for user stack''
      ''map_to_user stack failed'' ?l1 = Inr (l2, None)" "ld_kernel l2 = ld_kernel ?l1" "I (ld_frames l2)" "k \<le> 4"
    "remaining (ld_frames ?l1) = g # tl (remaining (ld_frames ?l1))"
    "remaining (ld_frames l2) = drop k (remaining (ld_frames ?l1))" "0 < k"
    "small (ld_mapper l2) = small (ld_mapper ?l1)"
    "translate (ld_mapper l2) = (translate (ld_mapper ?l1))(STACK_PAGE \<mapsto> (g, USER_FLAGS))"
    by (rule page_mapper.map_user_page_fresh [OF pm pre1])
  let ?l2 = "l2\<lparr>ld_kernel := after_load program ?k\<rparr>"
  show ?thesis
  proof (rule that [of ?l2 f g "n + k"])
    have "call Q (0, 0) Kernel (ProcessCreate USER_CODE_BASE USER_STACK_TOP) ?k1 =
        Inr (after_load program ?k, Reply (Response.Process (NEXT_PID (k_process ?k))))"
      by (simp add: after_load_def process_create_eq)
    then show "create_process_from_program page_of allocate map_to Q program l =
        Inr (?l2, Inr (NEXT_PID (k_process ?k)))"
      using l1(1,2) l2(1,2) assms(5)
      by (simp add: create_process_from_program_def pages Let_def del: call.simps)
    show "subseq [f, g] (remaining (ld_frames l))"
      using l1(5-7) l2(5) by (intro subseq_pair) simp_all
  qed (use l1 l2 in \<open>simp_all add: add.commute\<close>)
qed

section \<open>From the kernel to ring 3\<close>

lemma enter_userland_eq:
  "enter_userland sels ip sp c =
    c\<lparr>regs := (regs c)(RSP := sp), rip := ip, cs := sel_user_code sels, rflags := 0x202,
      ss := sel_user_data sels,
      mem := push_words (mem c) (regs c RSP) [sel_user_data sels, sp, 0x202, sel_user_code sels, ip]\<rparr>"
proof -
  let ?ws = "[sel_user_data sels, sp, 0x202, sel_user_code sels, ip]"
  have "frame (push_words (mem c) (regs c RSP) ?ws) (regs c RSP - 40) (rev ?ws)"
    using frame_push_words [of "mem c" "regs c RSP" "[]" ?ws] by simp
  then show ?thesis
    by (cases c) (simp add: enter_userland_def set_reg_def Let_def add.commute add.assoc)
qed

lemma loaded_cong:
  assumes "loaded program m" and "\<And>x. unat (x - USER_CODE_BASE) < length program \<Longrightarrow> m' x = m x"
    and "length program \<le> 4096"
  shows "loaded program m'"
proof -
  have "read_bytes m' USER_CODE_BASE (length program) = read_bytes m USER_CODE_BASE (length program)"
    using assms(2,3) by (intro nth_equalityI) (simp_all add: unat_of_nat take_bit_nat_eq_self)
  then show ?thesis using assms(1) by (simp add: loaded_def)
qed

lemma loaded_push_words:
  assumes "loaded program m" and "0 < length program" "length program \<le> 4096" and "8 * length vs < 2 ^ 64"
    and "0 < length vs" and "separate (sp - 8 * of_nat (length vs)) (8 * length vs) USER_CODE_BASE 4096"
  shows "loaded program (push_words m sp vs)"
proof (rule loaded_cong [OF assms(1) _ assms(3)])
  fix x assume "unat (x - USER_CODE_BASE) < length program"
  then have "unat (x - USER_CODE_BASE) < 4096" using assms(3) by simp
  from separate_D [OF assms(6) _ this] show "push_words m sp vs x = m x"
    using assms(4,5) by (intro push_words_outside) simp_all
qed

lemma after_load_facts:
  "THREADS (k_thread (after_load program k)) = THREADS (k_thread k)"
  "NEXT_TID (k_thread (after_load program k)) = NEXT_TID (k_thread k)"
  "released (k_thread (after_load program k)) = released (k_thread k)"
  "k_memory (after_load program k) = write_bytes (k_memory k) USER_CODE_BASE program"
  "k_console (after_load program k) = k_console k" "k_input (after_load program k) = k_input k"
  "k_heap (after_load program k) = k_heap k"
  "processes (k_process (after_load program k)) =
    fmupd (NEXT_PID (k_process k)) \<lparr>pid = NEXT_PID (k_process k), page_table_root = None,
      user_entry = USER_CODE_BASE, user_stack_top = USER_STACK_TOP, state = Ready\<rparr> (processes (k_process k))"
  by (simp_all add: after_load_def with_processes_def process_create_eq)

lemma after_load_inv:
  assumes "kernel_inv contents k" and "NEXT_PID (k_process k) + 1 \<noteq> 0"
  shows "kernel_inv contents (after_load program k)"
proof -
  let ?k = "k\<lparr>k_memory := write_bytes (k_memory k) USER_CODE_BASE program\<rparr>"
  have k: "kernel_inv contents ?k" using assms(1) by (simp add: kernel_inv_def)
  then have "process_inv (process_side ?k)" by (simp add: kernel_inv_def)
  from process_create_inv [OF this] show ?thesis
    unfolding after_load_def using assms(2)
    by (intro with_processes_inv [OF k]) (simp_all add: process_ops_threads)
qed

text \<open>A registered process whose thread is running enters its code page.\<close>

lemma user_thread_entry_ok:
  assumes "fmlookup (processes (k_process k)) (current_process (k_thread k)) = Some p"
  shows "user_thread_entry Q sels c k =
    (let c' = enter_userland sels (user_entry p) (user_stack_top p) (c\<lparr>mem := k_memory k\<rparr>) in
     Inr (c', k\<lparr>k_memory := mem c'\<rparr>))"
  using assms by (simp add: user_thread_entry_def process_snapshot_def Let_def)

definition start_ok :: "(u64 \<Rightarrow> memory \<Rightarrow> cpu) \<Rightarrow> bool" where
  "start_ok start \<longleftrightarrow> (\<forall>ctx m. mem (start ctx m) = m \<and>
    separate (regs (start ctx m) RSP - 40) 40 USER_CODE_BASE 4096)"

lemma enter_user_thread:
  assumes "kernel_inv contents k" and "loaded program (k_memory k)" and "length program \<le> 4096" and "program \<noteq> []"
    and "start_ok start"
    and "fmlookup (processes (k_process k)) (current_process (k_thread k)) = Some p"
    and "user_entry p = USER_CODE_BASE"
  obtains c where "\<And>steps. run_user_thread Q present report sels start steps k =
      bind_res (user_run Q present report steps c (k\<lparr>k_memory := mem c\<rparr>)) (\<lambda>r.
      Inr (case r of Left _ k \<Rightarrow> Some k | _ \<Rightarrow> None))"
    and "loaded program (mem c)" and "rip c = USER_CODE_BASE" and "cs c = sel_user_code sels"
proof -
  let ?s = "k_thread k"
  let ?ctx = "ctx_addr ?s (current (THREADS ?s))"
  let ?c = "enter_userland sels (user_entry p) (user_stack_top p) ((start ?ctx (k_memory k))\<lparr>mem := k_memory k\<rparr>)"
  have t: "thread_inv ?s" using assms(1) by (simp add: kernel_inv_def)
  have "current (THREADS ?s) \<in> insert BOOTSTRAP_ID (fmdom' (threads (THREADS ?s)))"
    using thread_invD(2) [OF t] by (auto simp: run_queue_def)
  then have ctx: "context_of (THREADS ?s) (current_id ?s) [] = Inr ?ctx"
    unfolding current_id_def by (rule context_of_ok) simp_all
  have "loaded program (push_words (k_memory k) (regs (start ?ctx (k_memory k)) RSP)
      [sel_user_data sels, user_stack_top p, 0x202, sel_user_code sels, user_entry p])"
    using assms(5) by (intro loaded_push_words assms(2,3)) (simp_all add: start_ok_def assms(4))
  then have "loaded program (mem ?c)" by (simp add: enter_userland_eq del: push_words.simps)
  moreover have "rip ?c = USER_CODE_BASE" "cs ?c = sel_user_code sels" using assms(7) by (simp_all add: enter_userland_eq)
  moreover have "run_user_thread Q present report sels start steps k =
      bind_res (user_run Q present report steps ?c (k\<lparr>k_memory := mem ?c\<rparr>)) (\<lambda>r.
      Inr (case r of Left _ k \<Rightarrow> Some k | _ \<Rightarrow> None))" for steps
    by (simp add: run_user_thread_def ctx user_thread_entry_ok [OF assms(6)] Let_def)
  ultimately show ?thesis using that [of ?c] by blast
qed

lemma run_demo_thread:
  assumes "kernel_inv contents k" and "current (THREADS (k_thread k)) \<noteq> BOOTSTRAP_ID"
    and "loaded USER_DEMO (k_memory k)" and "start_ok start"
    and "fmlookup (processes (k_process k)) (current_process (k_thread k)) = Some p"
    and "user_entry p = USER_CODE_BASE"
  shows "\<exists>w k'. run_user_thread Q process_pages report sels start (n + 8) k = Inr (Some k') \<and>
    console_write GREETING (k_console k) = Inr (w, 19) \<and> k_console k' = w \<and> kernel_inv contents k' \<and>
    fmlookup (processes (k_process k')) (current_process (k_thread k)) = None \<and>
    (\<forall>j. j \<noteq> current_process (k_thread k) \<longrightarrow>
      fmlookup (processes (k_process k')) j = fmlookup (processes (k_process k)) j) \<and>
    THREADS (k_thread k') = THREADS (exited (drain_reaper (k_thread k))) \<and>
    released (k_thread k') = released (drain_reaper (k_thread k)) \<and>
    k_input k' = k_input k \<and> k_heap k' = k_heap k"
proof -
  have len: "length USER_DEMO \<le> 4096" "USER_DEMO \<noteq> []" by (simp_all add: decode_USER_DEMO) (simp add: USER_DEMO_def)
  obtain c where c: "run_user_thread Q process_pages report sels start (n + 8) k =
      bind_res (user_run Q process_pages report (n + 8) c (k\<lparr>k_memory := mem c\<rparr>)) (\<lambda>r.
      Inr (case r of Left _ k \<Rightarrow> Some k | _ \<Rightarrow> None))"
    "loaded USER_DEMO (mem c)" "rip c = USER_CODE_BASE"
    using enter_user_thread [OF assms(1,3) len assms(4-6)] by metis
  have "kernel_inv contents (k\<lparr>k_memory := mem c\<rparr>)" using assms(1) by (simp add: kernel_inv_def)
  from demo_runs [OF this, of c Q report n] assms(2) c(2,3) show ?thesis unfolding c(1) by auto
qed

definition boxes_ok :: "u64 \<times> u64 \<Rightarrow> bool" where
  "boxes_ok boxes \<longleftrightarrow> (case boxes of (ctx, stack) \<Rightarrow>
    unat stack + STACK_SIZE < 2 ^ 64 \<and> separate ctx 8 stack STACK_SIZE \<and>
    separate ctx 8 USER_CODE_BASE 4096 \<and> separate stack STACK_SIZE USER_CODE_BASE 4096)"

lemma spawn_user_thread_ok:
  assumes "kernel_inv contents k" and "NEXT_TID (k_thread k) \<noteq> - 1" and "boxes_ok boxes"
    and "loaded program (k_memory k)" and "length program \<le> 4096"
  obtains k' t where "spawn_user_thread boxes entry i k = Inr k'"
    and "t = \<lparr>kt_id = NEXT_TID (k_thread k), kt_process = i, kt_context = fst boxes, kt_stack = snd boxes\<rparr>"
    and "k_thread k' = spawned t (k_thread k)" and "kernel_inv contents k'" and "loaded program (k_memory k')"
    and "k_process k' = k_process k" and "k_console k' = k_console k"
    and "k_input k' = k_input k" and "k_heap k' = k_heap k"
proof -
  obtain ctx stack where b: "boxes = (ctx, stack)" by (cases boxes)
  let ?s = "k_thread k"
  let ?t = "\<lparr>kt_id = NEXT_TID ?s, kt_process = i, kt_context = ctx, kt_stack = stack\<rparr>"
  have ok: "unat stack + STACK_SIZE < 2 ^ 64" "separate ctx 8 stack STACK_SIZE"
    "separate ctx 8 USER_CODE_BASE 4096" "separate stack STACK_SIZE USER_CODE_BASE 4096"
    using assms(3) b by (simp_all add: boxes_ok_def)
  obtain m' where m': "KernelThread_new (k_memory k) (NEXT_TID ?s) ctx stack entry i = Inr (m', ?t)"
    "\<And>x. 8 \<le> unat (x - ctx) \<Longrightarrow> STACK_SIZE \<le> unat (x - stack) \<Longrightarrow> m' x = k_memory k x"
    using KernelThread_new_suspended [OF ok(1,2), of "k_memory k" "NEXT_TID ?s" entry i] by blast
  have "loaded program m'"
  proof (rule loaded_cong [OF assms(4) _ assms(5)])
    fix x assume "unat (x - USER_CODE_BASE) < length program"
    then have x: "unat (x - USER_CODE_BASE) < 4096" using assms(5) by simp
    show "m' x = k_memory k x"
      using separate_D [OF ok(3) _ x] separate_D [OF ok(4) _ x] by (intro m'(2)) (simp_all add: STACK_SIZE_def)
  qed
  moreover have t: "thread_inv ?s" using assms(1) by (simp add: kernel_inv_def)
  then have "thread_inv (spawned ?t ?s)" using spawned_inv [of ?s ?t] assms(2) by simp
  from with_threads_inv [OF assms(1) this]
  have "kernel_inv contents (k\<lparr>k_memory := m', k_thread := spawned ?t ?s\<rparr>)"
    by (simp add: thread_calls_processes kernel_inv_def)
  moreover have "spawn_user_thread boxes entry i k = Inr (k\<lparr>k_memory := m', k_thread := spawned ?t ?s\<rparr>)"
    using spawn_eq [OF t m'(1)] b by (simp add: spawn_user_thread_def)
  ultimately show ?thesis
    using b by (intro that [of "k\<lparr>k_memory := m', k_thread := spawned ?t ?s\<rparr>" ?t]) simp_all
qed

lemma userland_drive_demo:
  assumes "kernel_inv contents k" and "current (THREADS (k_thread k)) = BOOTSTRAP_ID"
    and "ready (THREADS (k_thread k)) = [tid]" and "fmlookup (threads (THREADS (k_thread k))) tid = Some t"
    and "loaded USER_DEMO (k_memory k)" and "start_ok start"
    and "fmlookup (processes (k_process k)) (kt_process t) = Some p" and "user_entry p = USER_CODE_BASE"
  shows "\<exists>w k'. userland_drive (n + 3) Q process_pages report sels start (steps + 8) k = Inr (Some k') \<and>
    console_write GREETING (k_console k) = Inr (w, 19) \<and> k_console k' = w \<and> kernel_inv contents k' \<and>
    processes (k_process k') = fmdrop (kt_process t) (processes (k_process k)) \<and>
    threads (THREADS (k_thread k')) = fmdrop tid (threads (THREADS (k_thread k))) \<and>
    current (THREADS (k_thread k')) = BOOTSTRAP_ID \<and> ready (THREADS (k_thread k')) = [] \<and>
    reaper (THREADS (k_thread k')) = Some t \<and> released (k_thread k') = released (k_thread k) @ parked (k_thread k) \<and>
    k_input k' = k_input k \<and> k_heap k' = k_heap k"
proof -
  let ?s1 = "turned (drain_reaper (k_thread k))"
  let ?k1 = "k\<lparr>k_thread := ?s1\<rparr>"
  have t: "thread_inv (k_thread k)" using assms(1) by (simp add: kernel_inv_def)
  have tid: "tid \<noteq> BOOTSTRAP_ID" using thread_invD(1) [OF t] assms(2,3) by (auto simp: run_queue_def)
  have s1: "current (THREADS ?s1) = tid" "ready (THREADS ?s1) = [BOOTSTRAP_ID]"
    "threads (THREADS ?s1) = threads (THREADS (k_thread k))" "reaper (THREADS ?s1) = None"
    "released ?s1 = released (k_thread k) @ parked (k_thread k)"
    using assms(2,3) by (simp_all add: turned_def run_queue_def drain_reaper_facts)
  have yield: "\<exists>sw. yield_now (k_thread k) = Inr (?s1, sw)" using yield_now_eq [OF t] by simp
  have cp: "current_process ?s1 = kt_process t"
    using s1 tid assms(4) by (simp add: current_process_def)
  have k1: "kernel_inv contents ?k1"
    using with_threads_inv [OF assms(1) turned_inv [OF drain_reaper_inv [OF t]]]
    by (simp add: thread_calls_processes drain_reaper_processes)
  obtain w k' where k': "run_user_thread Q process_pages report sels start (steps + 8) ?k1 = Inr (Some k')"
    "console_write GREETING (k_console k) = Inr (w, 19)" "k_console k' = w" "kernel_inv contents k'"
    "fmlookup (processes (k_process k')) (kt_process t) = None"
    "\<forall>j. j \<noteq> kt_process t \<longrightarrow> fmlookup (processes (k_process k')) j = fmlookup (processes (k_process k)) j"
    "THREADS (k_thread k') = THREADS (exited (drain_reaper ?s1))"
    "released (k_thread k') = released (drain_reaper ?s1)" "k_input k' = k_input k" "k_heap k' = k_heap k"
    using run_demo_thread [OF k1, of start p Q report sels steps] assms(5-8) s1(1) tid cp by auto
  have th: "current (THREADS (k_thread k')) = BOOTSTRAP_ID" "ready (THREADS (k_thread k')) = []"
    "threads (THREADS (k_thread k')) = fmdrop tid (threads (THREADS (k_thread k)))"
    "reaper (THREADS (k_thread k')) = Some t" "released (k_thread k') = released (k_thread k) @ parked (k_thread k)"
    using s1 assms(4) by (simp_all add: k'(7,8) exited_def drain_reaper_facts parked_def [of ?s1])
  have "processes (k_process k') = fmdrop (kt_process t) (processes (k_process k))"
    using k'(5,6) by (intro fmap_ext) simp
  moreover have "userland_drive (Suc (Suc (Suc n))) Q process_pages report sels start (steps + 8) k = Inr (Some k')"
    using assms(2,3) yield k'(1) s1(1) tid th(1,2) by (auto simp: current_id_def ready_count_def)
  then have "userland_drive (n + 3) Q process_pages report sels start (steps + 8) k = Inr (Some k')"
    by (simp add: numeral_3_eq_3)
  ultimately show ?thesis using k'(2-4,9,10) th by blast
qed

text \<open>The programs that fault.\<close>

lemma crash_pf_faults:
  assumes "loaded CRASH_PF_DEMO (mem c)" and "rip c = USER_CODE_BASE" and "mem c = k_memory k"
  shows "user_run Q process_pages report (Suc (Suc n)) c k =
    bind_res (take_exception Q report (cs c) 14 k) (\<lambda>(k, ctx).
    case ctx of Some ctx \<Rightarrow> Inr (Left ctx k)
    | None \<Rightarrow> user_run Q process_pages report n (set_reg RAX 0x500000000000 (c\<lparr>rip := code_at 10\<rparr>)) k)"
proof -
  let ?c1 = "set_reg RAX 0x500000000000 (c\<lparr>rip := code_at 10\<rparr>)"
  note step = user_step_loaded [where program = CRASH_PF_DEMO, unfolded decode_CRASH_PF_DEMO(3)]
  have "rip c = code_at 0" using assms(2) by (simp add: code_at_def)
  then have "user_step process_pages c = Continue ?c1"
    using step [OF _ _ _ decode_CRASH_PF_DEMO(1)] assms(1) by simp
  moreover have "\<not> process_pages 0x500000000000"
    by (simp add: process_pages_def USER_CODE_BASE_def USER_STACK_BASE_def USER_STACK_TOP_def)
  then have "\<not> present_range process_pages 0x500000000000 8"
    by (auto simp: present_range_def list_all_iff intro!: bexI [of _ 0])
  then have "user_step process_pages ?c1 = Fault 14"
    using step [OF _ _ _ decode_CRASH_PF_DEMO(2), of ?c1] assms(1) by simp
  then have "user_run Q process_pages report (Suc n) ?c1 k =
      bind_res (take_exception Q report (cs c) 14 k) (\<lambda>(k, ctx).
      case ctx of Some ctx \<Rightarrow> Inr (Left ctx k) | None \<Rightarrow> user_run Q process_pages report n ?c1 k)"
    by (cases "take_exception Q report (cs c) 14 k")
      (auto simp: user_kernel_step_def split: option.split)
  ultimately show ?thesis using assms(3) by (simp add: user_run_continue del: user_run.simps)
qed

lemma crash_gpf_faults:
  assumes "loaded CRASH_GPF_DEMO (mem c)" and "rip c = USER_CODE_BASE"
  shows "user_run Q process_pages report (Suc n) c k =
    bind_res (take_exception Q report (cs c) 13 k) (\<lambda>(k, ctx).
    case ctx of Some ctx \<Rightarrow> Inr (Left ctx k) | None \<Rightarrow> user_run Q process_pages report n c k)"
proof -
  have rip: "rip c = code_at 0" using assms(2) by (simp add: code_at_def)
  have "mem c (code_at 0) = 0xf4"
    using loaded_nth [OF assms(1), of 0] by (simp add: CRASH_GPF_DEMO_def)
  then have "read_bytes (mem c) (rip c) 10 ! 0 = 0xf4" using rip by simp
  then have "user_step process_pages c = Fault 13"
    using code_range_present [of 0 1] rip by (simp add: user_step_def decode_def)
  then show ?thesis
    by (cases "take_exception Q report (cs c) 13 k")
      (auto simp: user_kernel_step_def split: option.split)
qed

text \<open>Adding and removing a fresh process or thread restores the table.\<close>

lemma restored:
  assumes "kernel_inv contents k"
  shows "fmdrop (NEXT_PID (k_process k)) (fmupd (NEXT_PID (k_process k)) p (processes (k_process k))) =
      processes (k_process k)"
    and "fmdrop (NEXT_TID (k_thread k)) (fmupd (NEXT_TID (k_thread k)) t (threads (THREADS (k_thread k)))) =
      threads (THREADS (k_thread k))"
proof -
  have p: "process_inv (process_side k)" and s: "thread_inv (k_thread k)"
    using assms by (simp_all add: kernel_inv_def)
  show "fmdrop (NEXT_PID (k_process k)) (fmupd (NEXT_PID (k_process k)) p (processes (k_process k))) =
      processes (k_process k)"
    using next_pid_fresh [OF p] by (intro fmap_ext) simp
  have "fmlookup (threads (THREADS (k_thread k))) (NEXT_TID (k_thread k)) = None"
    using next_tid_fresh(1) [OF s] by (simp add: fmlookup_dom'_iff)
  then show "fmdrop (NEXT_TID (k_thread k)) (fmupd (NEXT_TID (k_thread k)) t (threads (THREADS (k_thread k)))) =
      threads (THREADS (k_thread k))"
    by (intro fmap_ext) simp
qed

definition demo_process :: "ProcessId \<Rightarrow> Process" where
  "demo_process i = \<lparr>pid = i, page_table_root = None, user_entry = USER_CODE_BASE,
    user_stack_top = USER_STACK_TOP, state = Ready\<rparr>"

lemma demo_spawned:
  assumes "kernel_inv contents k" and "current (THREADS (k_thread k)) = BOOTSTRAP_ID"
    and "ready (THREADS (k_thread k)) = []" and "NEXT_PID (k_process k) + 1 \<noteq> 0"
    and "NEXT_TID (k_thread k) \<noteq> - 1" and "boxes_ok boxes" and len: "length program \<le> 4096"
  obtains k' t where "spawn_user_thread boxes entry (NEXT_PID (k_process k)) (after_load program k) = Inr k'"
    and "kernel_inv contents k'" and "loaded program (k_memory k')" and "k_console k' = k_console k"
    and "current (THREADS (k_thread k')) = BOOTSTRAP_ID"
    and "ready (THREADS (k_thread k')) = [NEXT_TID (k_thread k)]"
    and "threads (THREADS (k_thread k')) = fmupd (NEXT_TID (k_thread k)) t (threads (THREADS (k_thread k)))"
    and "processes (k_process k') =
      fmupd (NEXT_PID (k_process k)) (demo_process (NEXT_PID (k_process k))) (processes (k_process k))"
    and "kt_process t = NEXT_PID (k_process k)" and "kt_stack t = snd boxes"
    and "k_input k' = k_input k" and "k_heap k' = k_heap k"
proof -
  let ?k = "after_load program k"
  have k: "kernel_inv contents ?k" by (rule after_load_inv [OF assms(1,4)])
  have tid: "NEXT_TID (k_thread ?k) \<noteq> - 1" using assms(5) by (simp add: after_load_facts)
  have "loaded program (k_memory ?k)" by (simp add: after_load_facts loaded_write_bytes len)
  from spawn_user_thread_ok [OF k tid assms(6) this len, of entry "NEXT_PID (k_process k)"]
  obtain k' t where k': "spawn_user_thread boxes entry (NEXT_PID (k_process k)) ?k = Inr k'"
    "t = \<lparr>kt_id = NEXT_TID (k_thread ?k), kt_process = NEXT_PID (k_process k), kt_context = fst boxes,
      kt_stack = snd boxes\<rparr>"
    "k_thread k' = spawned t (k_thread ?k)" "kernel_inv contents k'" "loaded program (k_memory k')"
    "k_process k' = k_process ?k" "k_console k' = k_console ?k" "k_input k' = k_input ?k" "k_heap k' = k_heap ?k" .
  show ?thesis
    by (rule that [of k' t])
      (use k' assms(2,3) in \<open>simp_all add: spawned_def after_load_facts demo_process_def\<close>)
qed

lemma userland_demo_ok:
  assumes "page_mapper allocate I remaining map_to translate small" and "page_of_ok page_of"
    and "I (ld_frames l)" and "8 \<le> length (remaining (ld_frames l))"
    and new: "\<And>p. p \<in> {CODE_PAGE, STACK_PAGE} \<Longrightarrow> translate (ld_mapper l) p = None \<and> small (ld_mapper l) p"
    and "kernel_inv contents (ld_kernel l)" and "current (THREADS (k_thread (ld_kernel l))) = BOOTSTRAP_ID"
    and "ready (THREADS (k_thread (ld_kernel l))) = []" and "NEXT_PID (k_process (ld_kernel l)) + 1 \<noteq> 0"
    and "NEXT_TID (k_thread (ld_kernel l)) \<noteq> - 1" and "boxes_ok boxes" and "start_ok start"
  shows "\<exists>l' w f g.
    userland_demo page_of allocate map_to Q process_pages report sels start boxes entry (turns + 3) (steps + 8) l =
      Inr (Some l') \<and>
    console_write GREETING (k_console (ld_kernel l)) = Inr (w, 19) \<and> k_console (ld_kernel l') = w \<and>
    processes (k_process (ld_kernel l')) = processes (k_process (ld_kernel l)) \<and>
    threads (THREADS (k_thread (ld_kernel l'))) = threads (THREADS (k_thread (ld_kernel l))) \<and>
    current (THREADS (k_thread (ld_kernel l'))) = BOOTSTRAP_ID \<and>
    ready (THREADS (k_thread (ld_kernel l'))) = [] \<and>
    snd boxes \<in> kt_stack ` set (released (k_thread (ld_kernel l'))) \<and> kernel_inv contents (ld_kernel l') \<and>
    k_input (ld_kernel l') = k_input (ld_kernel l) \<and> k_heap (ld_kernel l') = k_heap (ld_kernel l) \<and>
    subseq [f, g] (remaining (ld_frames l)) \<and>
    translate (ld_mapper l') =
      (translate (ld_mapper l))(CODE_PAGE \<mapsto> (f, USER_FLAGS), STACK_PAGE \<mapsto> (g, USER_FLAGS))"
proof -
  let ?k = "ld_kernel l"
  let ?i = "NEXT_PID (k_process ?k)" and ?tid = "NEXT_TID (k_thread ?k)"
  obtain l1 f g where l1: "create_process_from_program page_of allocate map_to Q USER_DEMO l = Inr (l1, Inr ?i)"
    "ld_kernel l1 = after_load USER_DEMO ?k" "subseq [f, g] (remaining (ld_frames l))"
    "translate (ld_mapper l1) =
      (translate (ld_mapper l))(CODE_PAGE \<mapsto> (f, USER_FLAGS), STACK_PAGE \<mapsto> (g, USER_FLAGS))"
    by (rule create_process_ok [OF assms(1-4) _ new, of USER_DEMO Q]) (simp_all add: decode_USER_DEMO)
  obtain k2 t where k2: "spawn_user_thread boxes entry ?i (after_load USER_DEMO ?k) = Inr k2"
    "kernel_inv contents k2" "loaded USER_DEMO (k_memory k2)" "k_console k2 = k_console ?k"
    "current (THREADS (k_thread k2)) = BOOTSTRAP_ID" "ready (THREADS (k_thread k2)) = [?tid]"
    "threads (THREADS (k_thread k2)) = fmupd ?tid t (threads (THREADS (k_thread ?k)))"
    "processes (k_process k2) = fmupd ?i (demo_process ?i) (processes (k_process ?k))"
    "kt_process t = ?i" "kt_stack t = snd boxes" "k_input k2 = k_input ?k" "k_heap k2 = k_heap ?k"
    by (rule demo_spawned [OF assms(6-11), of USER_DEMO]) (simp_all add: decode_USER_DEMO)
  have look: "fmlookup (threads (THREADS (k_thread k2))) ?tid = Some t"
    "fmlookup (processes (k_process k2)) (kt_process t) = Some (demo_process ?i)"
    "user_entry (demo_process ?i) = USER_CODE_BASE"
    using k2(7-9) by (simp_all add: demo_process_def)
  obtain w k3 where k3: "userland_drive (turns + 3) Q process_pages report sels start (steps + 8) k2 = Inr (Some k3)"
    "console_write GREETING (k_console k2) = Inr (w, 19)" "k_console k3 = w" "kernel_inv contents k3"
    "processes (k_process k3) = fmdrop (kt_process t) (processes (k_process k2))"
    "threads (THREADS (k_thread k3)) = fmdrop ?tid (threads (THREADS (k_thread k2)))"
    "current (THREADS (k_thread k3)) = BOOTSTRAP_ID" "ready (THREADS (k_thread k3)) = []"
    "reaper (THREADS (k_thread k3)) = Some t" "k_input k3 = k_input k2" "k_heap k3 = k_heap k2"
    using userland_drive_demo [OF k2(2,5,6) look(1) k2(3) assms(12) look(2,3), of turns Q report sels steps]
    by blast
  let ?k4 = "k3\<lparr>k_thread := drain_reaper (k_thread k3)\<rparr>"
  have t3: "thread_inv (k_thread k3)" using k3(4) by (simp add: kernel_inv_def)
  have "yield_now (k_thread k3) = Inr (drain_reaper (k_thread k3), None)"
    using yield_now_eq [OF t3] k3(8) by (simp add: turned_idle drain_reaper_facts)
  then have "userland_demo page_of allocate map_to Q process_pages report sels start boxes entry (turns + 3) (steps + 8) l =
      Inr (Some (l1\<lparr>ld_kernel := ?k4\<rparr>))"
    using l1(1,2) k2(1) k3(1) by (simp add: userland_demo_def create_demo_process_def)
  moreover have "kernel_inv contents ?k4"
    using with_threads_inv [OF k3(4) drain_reaper_inv [OF t3]] by (simp add: drain_reaper_processes)
  moreover have "processes (k_process k3) = processes (k_process ?k)"
    "threads (THREADS (k_thread k3)) = threads (THREADS (k_thread ?k))"
    using k3(5,6) k2(7-9) restored [OF assms(6)] by simp_all
  ultimately show ?thesis
    using k2(4,10-12) k3(2,3,7-11) l1(3,4)
    by (intro exI [of _ "l1\<lparr>ld_kernel := ?k4\<rparr>"] exI [of _ w] exI [of _ f] exI [of _ g])
      (simp add: after_load_facts drain_reaper_facts parked_def)
qed

section \<open>Properties\<close>

text \<open>
  C5: The boot-time demo runs a ring-3 process from its creation to its end. From a consistent
  kernel on the bootstrap thread with an empty ready queue, the demo loads the embedded machine
  code, spawns its host thread, drops to ring 3 and executes the program instruction by
  instruction; the program prints its greeting through the write system call and leaves by the
  exit call. Control is back on the bootstrap thread: the screen shows the greeting,
  the process table and the thread table are as before, the thread's stack has been released,
  and the invariant of the whole kernel holds.
\<close>

theorem userland_demo_completes:
  assumes "page_mapper allocate I remaining map_to translate small" and "page_of_ok page_of"
    and "I (ld_frames l)" and "8 \<le> length (remaining (ld_frames l))"
    and "\<forall>p \<in> {CODE_PAGE, STACK_PAGE}. translate (ld_mapper l) p = None \<and> small (ld_mapper l) p"
    and "kernel_inv contents (ld_kernel l)" and "current (THREADS (k_thread (ld_kernel l))) = BOOTSTRAP_ID"
    and "ready (THREADS (k_thread (ld_kernel l))) = []" and "NEXT_PID (k_process (ld_kernel l)) + 1 \<noteq> 0"
    and "NEXT_TID (k_thread (ld_kernel l)) \<noteq> - 1" and "boxes_ok boxes" and "start_ok start"
  shows "\<exists>l' w.
    userland_demo page_of allocate map_to Q process_pages report sels start boxes entry (turns + 3) (steps + 8) l =
      Inr (Some l') \<and>
    console_write GREETING (k_console (ld_kernel l)) = Inr (w, 19) \<and> k_console (ld_kernel l') = w \<and>
    processes (k_process (ld_kernel l')) = processes (k_process (ld_kernel l)) \<and>
    threads (THREADS (k_thread (ld_kernel l'))) = threads (THREADS (k_thread (ld_kernel l))) \<and>
    current (THREADS (k_thread (ld_kernel l'))) = BOOTSTRAP_ID \<and>
    ready (THREADS (k_thread (ld_kernel l'))) = [] \<and>
    snd boxes \<in> kt_stack ` set (released (k_thread (ld_kernel l'))) \<and> kernel_inv contents (ld_kernel l')"
proof -
  have new: "translate (ld_mapper l) p = None \<and> small (ld_mapper l) p" if "p \<in> {CODE_PAGE, STACK_PAGE}" for p
    by (rule bspec [OF assms(5) that])
  show ?thesis using userland_demo_ok [OF assms(1-4) new assms(6-12), of Q report sels entry turns steps] by blast
qed

text \<open>A concrete machine: the booted kernel, empty page tables, one megabyte of frames.\<close>

definition small_loader :: "(page_tables, MonotonicFrameAllocator, nat \<times> u8 list, nat option) loader" where
  "small_loader = \<lparr>ld_mapper = empty_tables, ld_frames = small_machine, ld_kernel = booted_kernel\<rparr>"

definition small_start :: "u64 \<Rightarrow> memory \<Rightarrow> cpu" where
  "small_start ctx m = \<lparr>regs = (\<lambda>_. 0xc000), rip = 0, rflags = 0, cs = 8, ss = 0, mem = m\<rparr>"

definition exact_page_of :: "usize \<Rightarrow> usize" where
  "exact_page_of a = a - a mod 4096"

lemma small_loader_facts:
  "map_ok (memory_map (ld_frames small_loader))" "length (remaining_frames (ld_frames small_loader)) = 256"
  "pt_entries (ld_mapper small_loader) p = None" "page_of_ok exact_page_of" "start_ok small_start"
  "boxes_ok (0x100, 0x8000)"
  by (simp_all add: small_loader_def map_ok_def small_machine_def frame_allocator_init_def empty_tables_def
      page_of_ok_def exact_page_of_def start_ok_def small_start_def boxes_ok_def separate_def
      USER_CODE_BASE_def STACK_SIZE_def remaining_frames_init [unfolded frame_allocator_init_def]
      usable_frames_def usable_regions_def)

lemma small_loader_kernel:
  "kernel_inv snd (ld_kernel small_loader)" "current (THREADS (k_thread (ld_kernel small_loader))) = BOOTSTRAP_ID"
  "ready (THREADS (k_thread (ld_kernel small_loader))) = []" "NEXT_PID (k_process (ld_kernel small_loader)) = 1"
  "NEXT_TID (k_thread (ld_kernel small_loader)) = 1"
  using booted_kernel_inv
  by (simp_all add: small_loader_def booted_kernel_def Kernel_new_def thread_init_def
      ThreadScheduler_new_def ProcessService_new_def)

theorem userland_demo_completes_witness:
  "\<exists>l' w. userland_demo exact_page_of (allocate_frame exact_phys_frame)
      (four_level_map_to (allocate_frame exact_phys_frame)) list_queue process_pages []
      \<lparr>sel_user_code = 0x33, sel_user_data = 0x2b\<rparr> small_start (0x100, 0x8000) 0xABC (0 + 3) (0 + 8) small_loader =
        Inr (Some l') \<and>
    console_write GREETING (k_console (ld_kernel small_loader)) = Inr (w, 19) \<and>
    k_console (ld_kernel l') = w \<and> ready (THREADS (k_thread (ld_kernel l'))) = []"
proof -
  have len: "8 \<le> length (remaining_frames (ld_frames small_loader))" by (simp add: small_loader_facts)
  have new: "\<forall>p \<in> {CODE_PAGE, STACK_PAGE}. pt_entries (ld_mapper small_loader) p = None \<and> True"
    by (simp add: small_loader_facts)
  have ids: "NEXT_PID (k_process (ld_kernel small_loader)) + 1 \<noteq> 0"
    "NEXT_TID (k_thread (ld_kernel small_loader)) \<noteq> - 1"
    by (simp_all add: small_loader_kernel)
  from userland_demo_completes [OF flm.page_mapper_axioms small_loader_facts(4,1) len new
      small_loader_kernel(1-3) ids small_loader_facts(6,5), where report = "[]" and turns = 0 and steps = 0
      and entry = "0xABC" and Q = list_queue and sels = "\<lparr>sel_user_code = 0x33, sel_user_data = 0x2b\<rparr>"]
  show ?thesis by blast
qed





text \<open>
  The two crash programs kill their own process and not the kernel. The one that stores through
  an address outside the user pages does so with its second instruction, by a page fault; the
  one that executes \<open>hlt\<close> with its first, by a general protection fault. Either way the
  registry loses exactly this process, the thread is retired, and the kernel stays consistent.
\<close>

theorem crash_demos_kill_their_process:
  assumes "kernel_inv contents k" and "current (THREADS (k_thread k)) \<noteq> BOOTSTRAP_ID"
    and "current_process (k_thread k) \<noteq> KERNEL_PID" and "cs c AND 3 = 3" and "rip c = USER_CODE_BASE"
    and "mem c = k_memory k" and "loaded CRASH_PF_DEMO (mem c) \<and> steps = 2 \<or> loaded CRASH_GPF_DEMO (mem c) \<and> steps = 1"
  shows "\<exists>k' ctx. user_run Q process_pages report (n + steps) c k = Inr (Left ctx k') \<and>
    kernel_inv contents k' \<and> killed k k'"
proof -
  have ring3: "faulted_in_ring3 (cs c)" using assms(4) by (simp add: faulted_in_ring3_def)
  obtain k' ctx where h: "gpf_handler Q report (cs c) k = Inr (k', ctx)"
    "page_fault_handler Q report (cs c) k = Inr (k', ctx)" "kernel_inv contents k'" "killed k k'"
    using fault_handlers_ok [OF assms(1-3) ring3, of Q report] by blast
  have "take_exception Q report (cs c) v k = Inr (k', Some ctx)" if "v = 13 \<or> v = 14" for v
    using that h(1,2) exception_target_cases [of v] by (auto simp: take_exception_def)
  then have "user_run Q process_pages report (n + steps) c k = Inr (Left ctx k')"
    using assms(7) crash_pf_faults [OF _ assms(5,6), of Q report n] crash_gpf_faults [OF _ assms(5), of Q report n k]
    by (auto simp: numeral_2_eq_2 simp del: user_run.simps)
  then show ?thesis using h(3,4) by blast
qed

theorem crash_demos_kill_their_process_witness:
  "\<exists>k' ctx. user_run list_queue process_pages [] (0 + 1)
      \<lparr>regs = (\<lambda>_. 0), rip = USER_CODE_BASE, rflags = 0x202, cs = 0x33, ss = 0x2b,
       mem = write_bytes (\<lambda>_. 0) USER_CODE_BASE CRASH_GPF_DEMO\<rparr>
      (user_kernel (write_bytes (\<lambda>_. 0) USER_CODE_BASE CRASH_GPF_DEMO)) = Inr (Left ctx k') \<and> kernel_inv snd k'"
proof -
  let ?m = "write_bytes (\<lambda>_. 0) USER_CODE_BASE CRASH_GPF_DEMO"
  let ?c = "\<lparr>regs = (\<lambda>_. 0), rip = USER_CODE_BASE, rflags = 0x202, cs = 0x33, ss = 0x2b, mem = ?m\<rparr>"
  have c: "cs ?c AND 3 = 3" "rip ?c = USER_CODE_BASE" "mem ?c = k_memory (user_kernel ?m)" by simp_all
  have l: "loaded CRASH_PF_DEMO (mem ?c) \<and> (1 :: nat) = 2 \<or> loaded CRASH_GPF_DEMO (mem ?c) \<and> (1 :: nat) = 1"
    using loaded_write_bytes [of CRASH_GPF_DEMO] by (simp add: CRASH_GPF_DEMO_def)
  from crash_demos_kill_their_process [OF user_kernel_inv user_kernel_running c l, of list_queue "[]" 0]
  show ?thesis by blast
qed

end
