(* ===== verification/Gdt.thy ===== *)
theory Gdt
  imports Interrupts
begin

text \<open>
  The descriptor table, the selectors and the stacks of the task-state segment
  (\<open>src/src/gdt.rs\<close>).

  Adding a descriptor is an operation of the \<open>x86_64\<close> crate and a parameter; the locale
  \<open>descriptor_table\<close> states its documented behaviour, and a table as a list of slots meets it. The
  addresses at which the two static stacks are linked are arguments.
\<close>

section \<open>The model\<close>

definition DOUBLE_FAULT_IST_INDEX :: u16 where "DOUBLE_FAULT_IST_INDEX = 0"

definition IST_STACK_SIZE :: nat where "IST_STACK_SIZE = 4096 * 5"

definition PRIVILEGE_STACK_SIZE :: nat where "PRIVILEGE_STACK_SIZE = 4096 * 5"

record TaskStateSegment =
  interrupt_stack_table :: "u64 list"
  privilege_stack_table :: "u64 list"

definition TaskStateSegment_new :: TaskStateSegment where
  "TaskStateSegment_new = \<lparr>interrupt_stack_table = replicate 7 0, privilege_stack_table = replicate 3 0\<rparr>"

definition TSS_init :: "u64 \<Rightarrow> u64 \<Rightarrow> TaskStateSegment" where
  "TSS_init ist_stack privilege_stack =
    (let tss = TaskStateSegment_new;
         tss = tss\<lparr>interrupt_stack_table :=
           (interrupt_stack_table tss)[unat DOUBLE_FAULT_IST_INDEX := ist_stack + of_nat IST_STACK_SIZE]\<rparr>;
         tss = tss\<lparr>privilege_stack_table :=
           (privilege_stack_table tss)[0 := privilege_stack + of_nat PRIVILEGE_STACK_SIZE]\<rparr> in
     tss)"

datatype Descriptor = kernel_code_segment | kernel_data_segment | tss_segment | user_data_segment | user_code_segment

record gdt_selectors =
  gs_kernel_code :: u16
  gs_kernel_data :: u16
  gs_user_code :: u16
  gs_user_data :: u16
  gs_tss :: u16

definition GDT_init :: "'g \<Rightarrow> (Descriptor \<Rightarrow> 'g \<Rightarrow> ('g \<times> u16) res) \<Rightarrow> ('g \<times> gdt_selectors) res" where
  "GDT_init new add_entry =
    bind_res (add_entry kernel_code_segment new) (\<lambda>(gdt, kernel_code).
    bind_res (add_entry kernel_data_segment gdt) (\<lambda>(gdt, kernel_data).
    bind_res (add_entry tss_segment gdt) (\<lambda>(gdt, tss).
    bind_res (add_entry user_data_segment gdt) (\<lambda>(gdt, user_data).
    bind_res (add_entry user_code_segment gdt) (\<lambda>(gdt, user_code).
    Inr (gdt, \<lparr>gs_kernel_code = kernel_code, gs_kernel_data = kernel_data, gs_user_code = user_code,
               gs_user_data = user_data, gs_tss = tss\<rparr>))))))"

section \<open>The contract of the table\<close>

text \<open>
  The table has eight slots of which the first is the null descriptor. A code or data descriptor
  takes one slot, a task-state segment two. The selector is the slot number times eight plus
  the descriptor's privilege level. Running out of slots panics.
\<close>

fun slots :: "Descriptor \<Rightarrow> nat" where
  "slots tss_segment = 2"
| "slots _ = 1"

fun dpl :: "Descriptor \<Rightarrow> nat" where
  "dpl user_data_segment = 3"
| "dpl user_code_segment = 3"
| "dpl _ = 0"

locale descriptor_table =
  fixes new :: 'g and add_entry :: "Descriptor \<Rightarrow> 'g \<Rightarrow> ('g \<times> u16) res" and used :: "'g \<Rightarrow> nat"
  assumes new_used: "used new = 1"
    and add_entry_selector: "used g + slots d \<le> 8 \<Longrightarrow>
      \<exists>g'. add_entry d g = Inr (g', of_nat (8 * used g + dpl d)) \<and> used g' = used g + slots d"
begin

lemma GDT_selectors:
  "\<exists>g. GDT_init new add_entry =
    Inr (g, \<lparr>gs_kernel_code = 0x08, gs_kernel_data = 0x10, gs_user_code = 0x33, gs_user_data = 0x2b, gs_tss = 0x18\<rparr>)"
proof -
  obtain g1 where g1: "add_entry kernel_code_segment new = Inr (g1, 0x08)" "used g1 = 2"
    using add_entry_selector [of new kernel_code_segment] new_used by auto
  obtain g2 where g2: "add_entry kernel_data_segment g1 = Inr (g2, 0x10)" "used g2 = 3"
    using add_entry_selector [of g1 kernel_data_segment] g1(2) by auto
  obtain g3 where g3: "add_entry tss_segment g2 = Inr (g3, 0x18)" "used g3 = 5"
    using add_entry_selector [of g2 tss_segment] g2(2) by auto
  obtain g4 where g4: "add_entry user_data_segment g3 = Inr (g4, 0x2b)" "used g4 = 6"
    using add_entry_selector [of g3 user_data_segment] g3(2) by auto
  obtain g5 where "add_entry user_code_segment g4 = Inr (g5, 0x33)"
    using add_entry_selector [of g4 user_code_segment] g4(2) by auto
  then show ?thesis using g1(1) g2(1) g3(1) g4(1) by (simp add: GDT_init_def)
qed

end

definition slot_add_entry :: "Descriptor \<Rightarrow> Descriptor option list \<Rightarrow> (Descriptor option list \<times> u16) res" where
  "slot_add_entry d g =
    (if length g + slots d \<le> 8
     then Inr (g @ Some d # replicate (slots d - 1) None, of_nat (8 * length g + dpl d))
     else Inl (Panicked ''GDT full''))"

interpretation sg: descriptor_table "[None]" slot_add_entry length
proof unfold_locales
  show "\<exists>g'. slot_add_entry d g = Inr (g', of_nat (8 * length g + dpl d)) \<and> length g' = length g + slots d"
    if "length g + slots d \<le> 8" for g d
    using that by (cases d) (simp_all add: slot_add_entry_def)
qed simp

section \<open>Properties\<close>



end
