(* ===== verification/Format.thy ===== *)
theory Format
  imports Apogee_Prelude
begin

text \<open>
  The part of the standard library's formatter that the kernel's fixed messages use: string
  literals as bytes, \<open>{}\<close> on an unsigned number, which prints its decimal digits, and \<open>{:#x}\<close>,
  which prints \<open>0x\<close> and its hexadecimal digits in lower case. Reading the digits back gives the
  number.
\<close>

definition ascii :: "string \<Rightarrow> u8 list" where
  "ascii s = map of_char s"

definition digit :: "nat \<Rightarrow> u8" where
  "digit d = of_nat (if d < 10 then 0x30 + d else 0x61 + (d - 10))"

fun digits :: "nat \<Rightarrow> nat \<Rightarrow> u8 list" where
  "digits base n =
    (if base \<le> 1 \<or> n < base then [digit n] else digits base (n div base) @ [digit (n mod base)])"

declare digits.simps [simp del]

definition fmt_dec :: "nat \<Rightarrow> u8 list" where
  "fmt_dec n = digits 10 n"

definition fmt_hex :: "nat \<Rightarrow> u8 list" where
  "fmt_hex n = ascii ''0x'' @ digits 16 n"

definition undigit :: "u8 \<Rightarrow> nat" where
  "undigit b = (if b \<le> 0x39 then unat b - 0x30 else unat b - 0x61 + 10)"

definition undigits :: "nat \<Rightarrow> u8 list \<Rightarrow> nat" where
  "undigits base bs = foldl (\<lambda>n b. n * base + undigit b) 0 bs"

lemma undigit_digit: "d < 16 \<Longrightarrow> undigit (digit d) = d"
proof -
  assume d: "d < 16"
  let ?n = "if d < 10 then 0x30 + d else 0x61 + (d - 10)"
  have "unat (digit d) = ?n" using d by (simp add: digit_def unat_of_nat)
  then show ?thesis using d by (cases "d < 10") (simp_all add: undigit_def word_le_nat_alt)
qed

lemma undigits_snoc: "undigits base (bs @ [b]) = undigits base bs * base + undigit b"
  by (simp add: undigits_def)

lemma undigits_digits:
  assumes "1 < base" and "base \<le> 16"
  shows "undigits base (digits base n) = n"
proof (induction n rule: less_induct)
  case (less n)
  show ?case
  proof (cases "n < base")
    case True
    then show ?thesis using assms by (simp add: digits.simps undigits_def undigit_digit)
  next
    case False
    then have "n div base < n" using assms by (intro div_less_dividend) linarith+
    moreover have "undigit (digit (n mod base)) = n mod base"
      using mod_less_divisor [of base n] assms by (intro undigit_digit) linarith
    ultimately show ?thesis
      using less.IH [of "n div base"] False assms(1)
      by (subst digits.simps) (simp add: undigits_snoc)
  qed
qed

lemma fmt_dec_roundtrip: "undigits 10 (fmt_dec n) = n"
  by (simp add: fmt_dec_def undigits_digits)

lemma fmt_dec_inj: "fmt_dec m = fmt_dec n \<longleftrightarrow> m = n"
  by (metis fmt_dec_roundtrip)

lemma fmt_hex_roundtrip: "undigits 16 (drop 2 (fmt_hex n)) = n"
  by (simp add: fmt_hex_def ascii_def undigits_digits)

end
