(* ===== verification/Hardware_Init.thy ===== *)
theory Hardware_Init
  imports Gdt Format
begin

text \<open>
  The hardware initialisation of \<open>src/src/lib.rs\<close>, \<open>src/src/gdt.rs\<close> and \<open>src/src/interrupts.rs\<close>, and
  the test harness of \<open>src/src/lib.rs\<close> with its exit port.

  Privileged instructions and port accesses are recorded as a trace of operations in program
  order; a small machine interprets the trace. The two interrupt controllers deliver line \<open>n\<close>
  at the first or second offset they were initialised with, which is the documented meaning of
  \<open>initialize\<close> of the \<open>pic8259\<close> crate.
\<close>

section \<open>The model\<close>

datatype hw_op =
    LoadGdt
  | SetCs u16
  | LoadTss u16
  | LoadIdt
  | InitializePics u8 u8
  | EnableInterrupts
  | PortWrite u16 "32 word"
  | Hlt

definition gdt_init :: "gdt_selectors \<Rightarrow> hw_op list" where
  "gdt_init sels = [LoadGdt, SetCs (gs_kernel_code sels), LoadTss (gs_tss sels)]"

definition init_idt :: "hw_op list" where
  "init_idt = [LoadIdt]"

definition hardware_init :: "gdt_selectors \<Rightarrow> hw_op list" where
  "hardware_init sels =
    gdt_init sels @ init_idt @ [InitializePics PIC_1_OFFSET PIC_2_OFFSET] @ [EnableInterrupts]"

section \<open>The processor's view\<close>

record cpu_tables =
  ct_gdt :: bool
  ct_cs :: u16
  ct_tss :: "u16 option"
  ct_idt :: bool
  ct_pics :: "(u8 \<times> u8) option"
  ct_interrupts :: bool

text \<open>The bootloader enters the kernel with interrupts off and its own segments.\<close>

definition boot_tables :: "u16 \<Rightarrow> cpu_tables" where
  "boot_tables loader_cs =
    \<lparr>ct_gdt = False, ct_cs = loader_cs, ct_tss = None, ct_idt = False, ct_pics = None, ct_interrupts = False\<rparr>"

fun hw_step :: "hw_op \<Rightarrow> cpu_tables \<Rightarrow> cpu_tables" where
  "hw_step LoadGdt c = c\<lparr>ct_gdt := True\<rparr>"
| "hw_step (SetCs s) c = c\<lparr>ct_cs := s\<rparr>"
| "hw_step (LoadTss s) c = c\<lparr>ct_tss := Some s\<rparr>"
| "hw_step LoadIdt c = c\<lparr>ct_idt := True\<rparr>"
| "hw_step (InitializePics a b) c = c\<lparr>ct_pics := Some (a, b)\<rparr>"
| "hw_step EnableInterrupts c = c\<lparr>ct_interrupts := True\<rparr>"
| "hw_step _ c = c"

definition irq_vector :: "u8 \<times> u8 \<Rightarrow> nat \<Rightarrow> nat" where
  "irq_vector = (\<lambda>(a, b) line. if line < 8 then unat a + line else unat b + (line - 8))"

text \<open>
  What an interrupt relies on: the kernel's segments and task state, the descriptor table, and
  controllers whose vectors are not those of processor exceptions.
\<close>

definition can_interrupt :: "gdt_selectors \<Rightarrow> cpu_tables \<Rightarrow> bool" where
  "can_interrupt sels c \<longleftrightarrow> ct_gdt c \<and> ct_cs c = gs_kernel_code sels \<and> ct_tss c = Some (gs_tss sels) \<and>
    ct_idt c \<and> (\<exists>offsets. ct_pics c = Some offsets \<and> (\<forall>line < 16. 32 \<le> irq_vector offsets line))"

section \<open>The test harness\<close>

datatype QemuExitCode = Success | Failed

fun qemu_u32 :: "QemuExitCode \<Rightarrow> 32 word" where
  "qemu_u32 Success = 0x10"
| "qemu_u32 Failed = 0x11"

definition exit_qemu :: "QemuExitCode \<Rightarrow> hw_op list" where
  "exit_qemu code = [PortWrite 0xf4 (qemu_u32 code)]"

text \<open>The status with which the emulator's exit device ends when a value is written to its port.\<close>

definition qemu_status :: "32 word \<Rightarrow> nat" where
  "qemu_status v = unat (push_bit 1 v OR 1)"

text \<open>A test is its name and, when it panics, the formatted panic.\<close>

type_synonym test = "u8 list \<times> u8 list option"

definition serial_println :: "u8 list \<Rightarrow> u8 list" where
  "serial_println s = s @ [0x0a]"

definition test_panic_handler :: "u8 list \<Rightarrow> u8 list \<times> hw_op list" where
  "test_panic_handler info =
    (serial_println (ascii ''[failed]'' @ [0x0a]) @ serial_println (ascii ''Error: '' @ info @ [0x0a]),
     exit_qemu Failed @ [Hlt])"

text \<open>The loop over the tests; a panic leaves it through the panic handler.\<close>

fun run_tests :: "test list \<Rightarrow> u8 list \<times> hw_op list option" where
  "run_tests [] = ([], None)"
| "run_tests ((name, outcome) # ts) =
    (let heading = name @ ascii ''...'' @ [0x09] in
     case outcome of
       Some info \<Rightarrow> (case test_panic_handler info of (out, ops) \<Rightarrow> (heading @ out, Some ops))
     | None \<Rightarrow> (case run_tests ts of (out, ops) \<Rightarrow> (heading @ serial_println (ascii ''[ok]'') @ out, ops)))"

definition test_runner :: "test list \<Rightarrow> u8 list \<times> hw_op list" where
  "test_runner tests =
    (let before = serial_println [] @ serial_println (ascii ''  Running '' @ fmt_dec (length tests) @ ascii '' tests'') @
           serial_println [] in
     case run_tests tests of
       (out, Some ops) \<Rightarrow> (before @ out, ops)
     | (out, None) \<Rightarrow> (before @ out @ serial_println [] @ serial_println (ascii ''  All tests passed!'') @
         serial_println [], exit_qemu Success))"

lemma run_tests_ops:
  "snd (run_tests ts) = (if \<forall>t \<in> set ts. snd t = None then None else Some (exit_qemu Failed @ [Hlt]))"
proof (induction ts)
  case (Cons t ts)
  obtain name outcome where "t = (name, outcome)" by (cases t)
  then show ?case using Cons.IH
    by (cases outcome) (auto simp: test_panic_handler_def case_prod_unfold Let_def)
qed simp

section \<open>Properties\<close>

text \<open>
  C37: Interrupts are enabled last. With a descriptor table that keeps its contract, at every point
  of the hardware initialisation at which the processor accepts interrupts, the kernel's code
  segment, task state and interrupt table are loaded and the controllers deliver above the
  processor's exceptions; at the end interrupts are on, the timer line reaches the timer
  handler and the keyboard line the keyboard handler, and each of the other fourteen lines,
  which have no gate, would end in the double-fault handler.
\<close>

theorem interrupts_enabled_last:
  assumes "descriptor_table new add_entry used" and "GDT_init new add_entry = Inr (gdt, sels)"
  shows "(\<forall>n. let c = fold hw_step (take n (hardware_init sels)) (boot_tables loader_cs) in
      ct_interrupts c \<longrightarrow> can_interrupt sels c) \<and>
    ct_interrupts (fold hw_step (hardware_init sels) (boot_tables loader_cs)) \<and>
    gs_kernel_code sels AND 3 = 0 \<and>
    (\<forall>line < 16. exception_target (irq_vector (PIC_1_OFFSET, PIC_2_OFFSET) line) =
      Some (if line = 0 then TimerHandler else if line = 1 then KeyboardHandler else DoubleFaultHandler))"
proof (intro conjI allI impI)
  have sels: "gs_kernel_code sels = 0x08"
    using descriptor_table.GDT_selectors [OF assms(1)] assms(2) by auto
  then show "gs_kernel_code sels AND 3 = 0" by simp
  have vectors: "32 \<le> irq_vector (PIC_1_OFFSET, PIC_2_OFFSET) line" for line
    by (simp add: irq_vector_def PIC_1_OFFSET_def PIC_2_OFFSET_def)
  show "let c = fold hw_step (take n (hardware_init sels)) (boot_tables loader_cs) in
      ct_interrupts c \<longrightarrow> can_interrupt sels c" for n
  proof (cases "n < 6")
    case True
    then have "n \<in> {0, 1, 2, 3, 4, 5}" by auto
    then show ?thesis
      by (auto simp: hardware_init_def gdt_init_def init_idt_def boot_tables_def take_Cons')
  next
    case False
    then have "take n (hardware_init sels) = hardware_init sels"
      by (simp add: hardware_init_def gdt_init_def init_idt_def)
    then show ?thesis using vectors
      by (simp add: hardware_init_def gdt_init_def init_idt_def boot_tables_def can_interrupt_def)
  qed
  show "ct_interrupts (fold hw_step (hardware_init sels) (boot_tables loader_cs))"
    by (simp add: hardware_init_def gdt_init_def init_idt_def)
  show "exception_target (irq_vector (PIC_1_OFFSET, PIC_2_OFFSET) line) =
      Some (if line = 0 then TimerHandler else if line = 1 then KeyboardHandler else DoubleFaultHandler)"
    if "line < 16" for line
    using that
    by (auto simp: irq_vector_def PIC_1_OFFSET_def PIC_2_OFFSET_def SYSCALL_VECTOR_def exception_target_def IDT_def)
qed

theorem interrupts_enabled_last_witness:
  "\<exists>gdt sels. GDT_init [None] slot_add_entry = Inr (gdt, sels) \<and>
    ct_interrupts (fold hw_step (hardware_init sels) (boot_tables 0x18)) \<and>
    exception_target (irq_vector (PIC_1_OFFSET, PIC_2_OFFSET) 1) = Some KeyboardHandler"
proof -
  obtain gdt sels where g: "GDT_init [None] slot_add_entry = Inr (gdt, sels)"
    using sg.GDT_selectors by blast
  have "(1 :: nat) < 16" by simp
  with interrupts_enabled_last [OF sg.descriptor_table_axioms g, of "0x18"] g show ?thesis by fastforce
qed

text \<open>The exit status of the test runner.\<close>

lemma test_runner_status:
  "snd (test_runner tests) =
    (if \<forall>t \<in> set tests. snd t = None then [PortWrite 0xf4 0x10] else [PortWrite 0xf4 0x11, Hlt])"
  "qemu_status (qemu_u32 Success) = 33" "qemu_status (qemu_u32 Failed) = 35"
  using run_tests_ops [of tests]
  by (auto simp: test_runner_def exit_qemu_def qemu_status_def Let_def split: prod.splits option.splits if_splits)

end
