(* ===== verification/Boot_Screen.thy ===== *)
theory Boot_Screen
  imports Frame_Allocator Vga_Buffer Heap_Interface Format
begin

text \<open>
  The banner of the boot sequence (\<open>print_banner\<close> of \<open>src/src/main.rs\<close>) and what it leaves on the
  screen. The specification is a list of lines: text that starts in column 0 of a blank row and
  consists of printable lines of at most 80 characters shows as these lines, one per row.
\<close>

section \<open>The model\<close>

record BootInfo =
  physical_memory_offset :: usize
  boot_memory_map :: "MemoryRegion list"

text \<open>The art of the banner, with a backquote for each of its backslashes; it has no backquote.\<close>

definition art :: "string \<Rightarrow> u8 list" where
  "art s = map (\<lambda>b. if b = 0x60 then 0x5c else b) (ascii s)"

definition art_lines :: "u8 list list" where
  "art_lines = map art
    ['' ________  ________  ________  ________  _______   _______      '',
     ''|`   __  `|`   __  `|`   __  `|`   ____`|`  ___ ` |`  ___ `     '',
     ''` `  `|`  ` `  `|`  ` `  `|`  ` `  `___|` `   __/|` `   __/|    '',
     '' ` `   __  ` `   ____` `  ```  ` `  `  __` `  `_|/_` `  `_|/__  '',
     ''  ` `  ` `  ` `  `___|` `  ```  ` `  `|`  ` `  `_|` ` `  `_|` ` '',
     ''   ` `__` `__` `__`    ` `_______` `_______` `_______` `_______`'',
     ''    `|__|`|__|`|__|     `|_______|`|_______|`|_______|`|_______|'']"

definition BANNER_ART :: "u8 list" where
  "BANNER_ART = 0x0a # concat (map (\<lambda>l. l @ [0x0a]) art_lines)"

definition print_banner :: "BootInfo \<Rightarrow> Writer \<Rightarrow> Writer res" where
  "print_banner boot_info w =
    (let w = set_color Brown Black w in
     bind_res (vga_println BANNER_ART w) (\<lambda>w.
     bind_res (vga_println (ascii ''apogee x86_64 kernel'') w) (\<lambda>w.
     let w = reset_color w in
     bind_res (vga_println [] w) (\<lambda>w.
     let heap_kib = HEAP_SIZE div 1024; heap_pages = HEAP_SIZE div 4096;
         memory_regions = length (boot_memory_map boot_info) in
     bind_res (vga_println (ascii ''> heap storage: '' @ fmt_dec heap_kib @ ascii '' KiB ('' @
         fmt_dec heap_pages @ ascii '' pages)'') w) (\<lambda>w.
     bind_res (vga_println (ascii ''> heap start: '' @ fmt_hex HEAP_START @ ascii ''  phys offset: '' @
         fmt_hex (physical_memory_offset boot_info)) w) (\<lambda>w.
     bind_res (vga_println (ascii ''> memory map: '' @ fmt_dec memory_regions @
         ascii '' regions  paging: enabled'') w) (\<lambda>w.
     bind_res (vga_println (ascii ''> allocator: fixed-size blocks  async executor: ready'') w) (\<lambda>w.
     vga_println [] w))))))))"

section \<open>Lines on the screen\<close>

definition printable :: "u8 list \<Rightarrow> bool" where
  "printable l \<longleftrightarrow> length l \<le> 80 \<and> (\<forall>b \<in> set l. 0x20 \<le> b \<and> b \<le> 0x7e)"

definition row_text :: "ScreenChar list \<Rightarrow> u8 list" where
  "row_text r = map ascii_character r"

definition padded :: "u8 list \<Rightarrow> u8 list" where
  "padded l = l @ replicate (80 - length l) 0x20"

abbreviation lines_text :: "u8 list list \<Rightarrow> u8 list" where
  "lines_text ls \<equiv> concat (map (\<lambda>l. l @ [0x0a]) ls)"

text \<open>The screen continues \<open>rows\<close> with the given lines and waits in column 0 of a blank row.\<close>

definition shows_lines :: "Buffer \<Rightarrow> u8 list list \<Rightarrow> Writer \<Rightarrow> bool" where
  "shows_lines rows ls w \<longleftrightarrow> (\<exists>rs. map row_text rs = map padded (ls @ [[]]) \<and> shows_terminal (rows @ rs, 0) w)"

lemma glyph_printable: "printable l \<Longrightarrow> map glyph l = l"
  by (auto simp: printable_def glyph_def intro: map_idI)

lemma glyph_lines: "\<forall>l \<in> set ls. printable l \<Longrightarrow> map glyph (lines_text ls) = lines_text ls"
  by (induction ls) (simp_all add: glyph_printable, simp add: glyph_def)

lemma put_line:
  assumes "length r = 80" and "printable l"
  shows "fold (term_put color) l (rows @ [r], 0) =
    (rows @ [map (\<lambda>b. \<lparr>ascii_character = b, char_color = color\<rparr>) l @ drop (length l) r], length l)"
  using assms(2)
proof (induction l rule: rev_induct)
  case (snoc b l)
  let ?c = "\<lambda>b. \<lparr>ascii_character = b, char_color = color\<rparr>"
  have l: "printable l" "length l < 80" "b \<noteq> 0x0a" using snoc.prems by (auto simp: printable_def)
  then have "drop (length l) r = r ! length l # drop (Suc (length l)) r"
    using assms(1) by (simp add: Cons_nth_drop_Suc)
  then show ?case using snoc.IH [OF l(1)] l(2,3) by (simp add: term_put_def list_update_append)
qed simp

lemma put_lines:
  assumes "row_text r = padded []" and "\<forall>l \<in> set ls. printable l"
  shows "\<exists>rs. fold (term_put color) (lines_text ls) (rows @ [r], 0) = (rows @ rs, 0) \<and>
    map row_text rs = map padded (ls @ [[]])"
  using assms
proof (induction ls arbitrary: r rows)
  case Nil
  then show ?case by (intro exI [of _ "[r]"]) simp
next
  case (Cons l ls)
  let ?l = "map (\<lambda>b. \<lparr>ascii_character = b, char_color = color\<rparr>) l @ drop (length l) r"
  have r: "length r = 80" using Cons.prems(1) by (metis length_map length_replicate padded_def row_text_def
        append_Nil diff_zero list.size(3))
  have "fold (term_put color) (l @ [0x0a]) (rows @ [r], 0) = ((rows @ [?l]) @ [blank_row color], 0)"
    using put_line [OF r, of l color rows] Cons.prems(2) by (simp add: term_put_def term_newline_def)
  moreover have "row_text (blank_row color) = padded []" by (simp add: row_text_def blank_row_def padded_def)
  then obtain rs where "fold (term_put color) (lines_text ls) ((rows @ [?l]) @ [blank_row color], 0) =
      ((rows @ [?l]) @ rs, 0)" "map row_text rs = map padded (ls @ [[]])"
    using Cons.IH [of "blank_row color" "rows @ [?l]"] Cons.prems(2) by auto
  moreover have "row_text ?l = padded l"
    using Cons.prems(1) by (simp add: row_text_def padded_def comp_def flip: drop_map)
  ultimately show ?case by (intro exI [of _ "?l # rs"]) simp
qed

lemma write_lines:
  assumes "shows_lines rows ls w" and "\<forall>l \<in> set ls'. printable l"
  shows "\<exists>w'. write_string (lines_text ls') w = Inr w' \<and> shows_lines rows (ls @ ls') w' \<and>
    color_code w' = color_code w"
proof -
  obtain rs where rs: "map row_text rs = map padded (ls @ [[]])" "shows_terminal (rows @ rs, 0) w"
    using assms(1) by (auto simp: shows_lines_def)
  then obtain qs r where q: "rs = qs @ [r]" "map row_text qs = map padded ls" "row_text r = padded []"
    by (cases rs rule: rev_cases) auto
  obtain rs' where "fold (term_put (color_code w)) (lines_text ls') ((rows @ qs) @ [r], 0) = ((rows @ qs) @ rs', 0)"
    "map row_text rs' = map padded (ls' @ [[]])"
    using put_lines [OF q(3) assms(2), of "color_code w" "rows @ qs"] by blast
  then show ?thesis
    using write_string_shows [OF rs(2), of "lines_text ls'"] glyph_lines [OF assms(2)] q(1,2)
    by (auto simp: shows_lines_def intro!: exI [of _ "qs @ rs'"])
qed

lemma shows_lines_color: "shows_lines rows ls (w\<lparr>color_code := c\<rparr>) = shows_lines rows ls w"
  by (simp add: shows_lines_def shows_terminal_def vga_wf_def)

lemma shows_lines_wf: "shows_lines rows ls w \<Longrightarrow> vga_wf w"
  by (auto simp: shows_lines_def shows_terminal_def)

text \<open>A newline begins the lines.\<close>

lemma start_lines:
  assumes "vga_wf w"
  shows "\<exists>w'. write_string [0x0a] w = Inr w' \<and> shows_lines (buffer w) [] w' \<and> color_code w' = color_code w"
proof -
  obtain w' where w': "write_string [0x0a] w = Inr w'" "color_code w' = color_code w"
    "shows_terminal (fold (term_put (color_code w)) (map glyph [0x0a]) (buffer w, column_position w)) w'"
    using write_string_shows [OF shows_terminal_start [OF assms]] by blast
  then have "shows_terminal (buffer w @ [blank_row (color_code w)], 0) w'"
    by (simp add: glyph_def term_put_def term_newline_def)
  then have "shows_lines (buffer w) [] w'"
    by (auto simp: shows_lines_def row_text_def padded_def blank_row_def
        intro!: exI [of _ "[blank_row (color_code w)]"])
  with w' show ?thesis by blast
qed

text \<open>The lines fill the bottom of the screen.\<close>

lemma shows_lines_rows:
  assumes "shows_lines rows ls w" and "length rows = 25" and "length ls < 25"
  shows "map row_text (drop (24 - length ls) (buffer w)) = map padded (ls @ [[]])"
proof -
  obtain rs where rs: "map row_text rs = map padded (ls @ [[]])" "buffer w = last_rows 25 (rows @ rs)"
    using assms(1) by (auto simp: shows_lines_def shows_terminal_def)
  have "length rs = Suc (length ls)" using rs(1) by (metis length_append_singleton length_map)
  then have "drop (24 - length ls) (buffer w) = rs"
    using rs(2) assms(2,3) by (simp add: last_rows_def)
  with rs(1) show ?thesis by simp
qed

section \<open>Formatted numbers are printable\<close>

lemma digit_printable: "d < 16 \<Longrightarrow> 0x20 \<le> digit d \<and> digit d \<le> 0x7e"
  by (simp add: digit_def word_le_nat_alt unat_of_nat)

lemma digits_printable:
  assumes "1 < base" and "base \<le> 16"
  shows "b \<in> set (digits base n) \<Longrightarrow> 0x20 \<le> b \<and> b \<le> 0x7e"
proof (induction n rule: less_induct)
  case (less n)
  have "n mod base < 16" using mod_less_divisor [of base n] assms by linarith
  then have d: "0x20 \<le> digit (n mod base) \<and> digit (n mod base) \<le> 0x7e" by (rule digit_printable)
  show ?case
  proof (cases "n < base")
    case True
    then show ?thesis using less.prems d by (simp add: digits.simps)
  next
    case False
    then have "n div base < n" using assms by (intro div_less_dividend) linarith+
    then show ?thesis using less.IH [of "n div base"] less.prems d False assms by (auto simp: digits.simps [of base n])
  qed
qed

lemma digits_length:
  assumes "1 < base" and "n < base ^ Suc k" shows "length (digits base n) \<le> Suc k"
  using assms(2)
proof (induction k arbitrary: n)
  case 0
  then show ?case by (subst digits.simps) simp
next
  case (Suc k)
  have "n div base < base ^ Suc k" using Suc.prems assms(1) by (simp add: div_less_iff_less_mult mult.commute)
  then show ?case using Suc.IH [of "n div base"] by (subst digits.simps) auto
qed


lemma fmt_printable:
  assumes "n < 2 ^ 64"
  shows "length (fmt_dec n) \<le> 20" "length (fmt_hex n) \<le> 18"
    "\<forall>b \<in> set (fmt_dec n) \<union> set (fmt_hex n). 0x20 \<le> b \<and> b \<le> 0x7e"
proof -
  have "n < 10 ^ Suc 19" "n < 16 ^ Suc 15" using assms by simp_all
  then show "length (fmt_dec n) \<le> 20" "length (fmt_hex n) \<le> 18"
    using digits_length [of 10 n 19] digits_length [of 16 n 15] by (simp_all add: fmt_dec_def fmt_hex_def ascii_def)
  show "\<forall>b \<in> set (fmt_dec n) \<union> set (fmt_hex n). 0x20 \<le> b \<and> b \<le> 0x7e"
    using digits_printable [of 10 _ n] digits_printable [of 16 _ n]
    by (auto simp: fmt_dec_def fmt_hex_def ascii_def)
qed

section \<open>The banner\<close>

definition banner_lines :: "BootInfo \<Rightarrow> u8 list list" where
  "banner_lines boot_info = art_lines @
    [[], ascii ''apogee x86_64 kernel'', [],
     ascii ''> heap storage: 100 KiB (25 pages)'',
     ascii ''> heap start: 0x444444440000  phys offset: '' @ fmt_hex (physical_memory_offset boot_info),
     ascii ''> memory map: '' @ fmt_dec (length (boot_memory_map boot_info)) @ ascii '' regions  paging: enabled'',
     ascii ''> allocator: fixed-size blocks  async executor: ready'', []]"

lemma banner_text:
  "ascii ''> heap storage: '' @ fmt_dec (HEAP_SIZE div 1024) @ ascii '' KiB ('' @ fmt_dec (HEAP_SIZE div 4096) @
    ascii '' pages)'' = ascii ''> heap storage: 100 KiB (25 pages)''"
  "ascii ''> heap start: '' @ fmt_hex HEAP_START @ ascii ''  phys offset: '' @ x =
    ascii ''> heap start: 0x444444440000  phys offset: '' @ x"
  by (simp_all add: ascii_def fmt_dec_def fmt_hex_def digits.simps digit_def HEAP_SIZE_def HEAP_START_def)

lemma art_printable: "\<forall>l \<in> set art_lines. printable l"
  by (simp add: art_lines_def art_def ascii_def printable_def)

lemma banner_printable:
  assumes "physical_memory_offset boot_info < 2 ^ 64" and "length (boot_memory_map boot_info) < 2 ^ 64"
  shows "\<forall>l \<in> set (banner_lines boot_info). printable l"
  using fmt_printable [OF assms(1)] fmt_printable [OF assms(2)] art_printable
  by (auto simp: banner_lines_def printable_def ascii_def)

lemma println_shows:
  assumes "shows_lines rows ls w" and "\<forall>l \<in> set ls'. printable l"
  shows "\<exists>w'. for_res vga_println ls' w = Inr w' \<and> shows_lines rows (ls @ ls') w'"
  using assms
proof (induction ls' arbitrary: ls w)
  case (Cons l ls')
  then obtain w1 where "vga_println l w = Inr w1" "shows_lines rows (ls @ [l]) w1"
    using write_lines [OF Cons.prems(1), of "[l]"] by (auto simp: vga_println_def vga_print_def)
  with Cons.IH [of "ls @ [l]" w1] Cons.prems(2) show ?case by simp
qed simp

lemma art_shows:
  assumes "vga_wf w"
  obtains w' where "vga_println BANNER_ART w = Inr w'" and "shows_lines (buffer w) (art_lines @ [[]]) w'"
proof -
  obtain w1 where w1: "write_string [0x0a] w = Inr w1" "shows_lines (buffer w) [] w1"
    using start_lines [OF assms] by blast
  have "\<forall>l \<in> set (art_lines @ [[]]). printable l" using art_printable by (simp add: printable_def)
  from write_lines [OF w1(2) this] obtain w2 where
    "write_string (lines_text (art_lines @ [[]])) w1 = Inr w2" "shows_lines (buffer w) (art_lines @ [[]]) w2"
    by auto
  moreover have "BANNER_ART @ [0x0a] = [0x0a] @ lines_text (art_lines @ [[]])" by (simp add: BANNER_ART_def)
  then have "vga_println BANNER_ART w = bind_res (write_string [0x0a] w) (write_string (lines_text (art_lines @ [[]])))"
    by (simp only: vga_println_def vga_print_def write_string_append)
  ultimately show ?thesis using w1(1) that by simp
qed

lemma bind_res_unit: "bind_res m Inr = m"
  by (cases m) simp_all

lemma for_res_eta: "for_res f [] = Inr" "for_res f (x # xs) = (\<lambda>s. bind_res (f x s) (for_res f xs))"
  by (simp_all add: fun_eq_iff)

lemma print_banner_eq:
  "print_banner boot_info w =
    bind_res (vga_println BANNER_ART (set_color Brown Black w)) (\<lambda>w.
    bind_res (for_res vga_println [ascii ''apogee x86_64 kernel''] w) (\<lambda>w.
    for_res vga_println (drop 9 (banner_lines boot_info)) (reset_color w)))"
proof -
  have "length art_lines = 7" by (simp add: art_lines_def)
  then have "drop 9 (banner_lines boot_info) =
    [[], ascii ''> heap storage: 100 KiB (25 pages)'',
     ascii ''> heap start: 0x444444440000  phys offset: '' @ fmt_hex (physical_memory_offset boot_info),
     ascii ''> memory map: '' @ fmt_dec (length (boot_memory_map boot_info)) @ ascii '' regions  paging: enabled'',
     ascii ''> allocator: fixed-size blocks  async executor: ready'', []]"
    by (simp add: banner_lines_def)
  then show ?thesis
    by (simp add: print_banner_def Let_def banner_text bind_res_assoc for_res_eta bind_res_unit)
qed

lemma print_banner_shows:
  assumes "vga_wf w" and "physical_memory_offset boot_info < 2 ^ 64" and "length (boot_memory_map boot_info) < 2 ^ 64"
  obtains w' where "print_banner boot_info w = Inr w'" and "shows_lines (buffer w) (banner_lines boot_info) w'"
proof -
  let ?ls = "banner_lines boot_info" and ?w = "set_color Brown Black w"
  have art: "length art_lines = 7" by (simp add: art_lines_def)
  have split: "?ls = ((art_lines @ [[]]) @ [ascii ''apogee x86_64 kernel'']) @ drop 9 ?ls"
    by (simp add: banner_lines_def art)
  have p: "\<forall>l \<in> set [ascii ''apogee x86_64 kernel'']. printable l" "\<forall>l \<in> set (drop 9 ?ls). printable l"
    using banner_printable [OF assms(2,3)] by (simp_all add: banner_lines_def art)
  have w: "vga_wf ?w" "buffer ?w = buffer w"
    using assms(1) by (simp_all add: set_color_def vga_wf_def)
  obtain w1 where w1: "vga_println BANNER_ART ?w = Inr w1" "shows_lines (buffer w) (art_lines @ [[]]) w1"
    using art_shows [OF w(1)] w(2) by metis
  obtain w2 where w2: "for_res vga_println [ascii ''apogee x86_64 kernel''] w1 = Inr w2"
    "shows_lines (buffer w) ((art_lines @ [[]]) @ [ascii ''apogee x86_64 kernel'']) w2"
    using println_shows [OF w1(2) p(1)] by blast
  have "shows_lines (buffer w) ((art_lines @ [[]]) @ [ascii ''apogee x86_64 kernel'']) (reset_color w2)"
    using w2(2) by (simp add: reset_color_def set_color_def shows_lines_color)
  from println_shows [OF this p(2)] obtain w3 where
    "for_res vga_println (drop 9 ?ls) (reset_color w2) = Inr w3"
    "shows_lines (buffer w) (((art_lines @ [[]]) @ [ascii ''apogee x86_64 kernel'']) @ drop 9 ?ls) w3"
    by blast
  then show ?thesis
    using that [of w3] w1(1) w2(1) split unfolding print_banner_eq by simp
qed

end
