(* ===== verification/Task_Executor.thy ===== *)
theory Task_Executor
  imports External_Interfaces Scheduler_Counters "HOL-Library.Finite_Map"
begin

text \<open>
  The cooperative executor (\<open>src/src/task/mod.rs\<close>, \<open>src/src/task/executor.rs\<close>).

  A task's future is opaque: \<open>poll i f w\<close> is a parameter that polls the future \<open>f\<close> with the
  waker of task \<open>i\<close> in the world \<open>w\<close> and panics or returns whether it is ready, the advanced
  future, the new world, and the ids whose wakers were invoked before the poll returned, by the
  future itself or by an interrupt. Invoking a waker is \<open>wake_task\<close>, which panics on a full queue.
  \<open>run_ready_tasks\<close> loops until the ready queue is empty; since futures may keep waking
  themselves it is a partial function whose value \<open>None\<close> means that it does not return.
\<close>

section \<open>The model\<close>

definition TASK_QUEUE_CAPACITY :: nat where
  "TASK_QUEUE_CAPACITY = 100"

type_synonym TaskId = u64

definition TaskId_new :: "u64 \<Rightarrow> u64 \<times> TaskId" where
  "TaskId_new next_id = (next_id + 1, next_id)"

record 'f Task =
  task_id :: TaskId
  future :: 'f

definition Task_new :: "'f \<Rightarrow> u64 \<Rightarrow> u64 \<times> 'f Task" where
  "Task_new f next_id = (let (next_id, i) = TaskId_new next_id in (next_id, \<lparr>task_id = i, future = f\<rparr>))"

text \<open>A \<open>TaskWaker\<close> is the id of its task together with the executor's queue.\<close>

record ('f, 'q) CoopExecutor =
  tasks :: "(TaskId, 'f Task) fmap"
  task_queue :: 'q
  waker_cache :: "(TaskId, TaskId) fmap"
  started_tasks :: "TaskId fset"

definition CoopExecutor_new :: "(TaskId, 'q) queue_ops \<Rightarrow> ('f, 'q) CoopExecutor" where
  "CoopExecutor_new Q =
    \<lparr>tasks = fmempty, task_queue = q_new Q TASK_QUEUE_CAPACITY, waker_cache = fmempty,
     started_tasks = {||}\<rparr>"

definition task_count :: "('f, 'q) CoopExecutor \<Rightarrow> nat" where
  "task_count e = card (fmdom' (tasks e))"

definition wake_task :: "(TaskId, 'q) queue_ops \<Rightarrow> TaskId \<Rightarrow> 'q \<Rightarrow> 'q res" where
  "wake_task Q i q = expect (q_push Q i q) ''task_queue full''"

definition spawn_task ::
  "(TaskId, 'q) queue_ops \<Rightarrow> 'f Task \<Rightarrow> ('f, 'q) CoopExecutor \<times> Scheduler \<Rightarrow>
    (('f, 'q) CoopExecutor \<times> Scheduler) res" where
  "spawn_task Q task = (\<lambda>(e, sc).
    let i = task_id task in
    bind_res (debug_assert (fmlookup (tasks e) i = None) ''task with same ID already in tasks'') (\<lambda>_.
    let previous = fmlookup (tasks e) i; e = e\<lparr>tasks := fmupd i task (tasks e)\<rparr> in
    if previous \<noteq> None then Inl (Panicked ''task with same ID already in tasks'')
    else bind_res (expect (q_push Q i (task_queue e)) ''queue full'') (\<lambda>q.
      Inr (e\<lparr>task_queue := q\<rparr>, note_task_spawned sc))))"

type_synonym ('f, 'w) poll = "TaskId \<Rightarrow> 'f \<Rightarrow> 'w \<Rightarrow> (bool \<times> 'f \<times> 'w \<times> TaskId list) res"

text \<open>One iteration of the loop of \<open>run_ready_tasks\<close>; \<open>None\<close> leaves the loop.\<close>

definition run_one ::
  "(TaskId, 'q) queue_ops \<Rightarrow> ('f, 'w) poll \<Rightarrow> ('f, 'q) CoopExecutor \<times> Scheduler \<times> 'w \<Rightarrow>
    (('f, 'q) CoopExecutor \<times> Scheduler \<times> 'w) option res" where
  "run_one Q poll = (\<lambda>(e, sc, w).
    case q_pop Q (task_queue e) of
      None \<Rightarrow> Inr None
    | Some (i, q) \<Rightarrow>
        let e = e\<lparr>task_queue := q\<rparr> in
        (case fmlookup (tasks e) i of
           None \<Rightarrow> Inr (Some (e, sc, w))
         | Some task \<Rightarrow>
             let waker = (case fmlookup (waker_cache e) i of Some waker \<Rightarrow> waker | None \<Rightarrow> i);
                 e = e\<lparr>waker_cache := fmupd i waker (waker_cache e),
                       started_tasks := finsert i (started_tasks e)\<rparr> in
             bind_res (poll waker (future task) w) (\<lambda>(ready, f, w, woken).
                bind_res (for_res (wake_task Q) woken (task_queue e)) (\<lambda>q.
                let e = e\<lparr>task_queue := q\<rparr> in
                if ready then
                  Inr (Some (e\<lparr>tasks := fmdrop i (tasks e),
                               waker_cache := fmdrop i (waker_cache e),
                               started_tasks := started_tasks e |-| {|i|}\<rparr>,
                             note_task_completed sc, w))
                else Inr (Some (e\<lparr>tasks := fmupd i (task\<lparr>future := f\<rparr>) (tasks e)\<rparr>, sc, w))))))"

partial_function (option) run_ready_tasks ::
  "(TaskId, 'q) queue_ops \<Rightarrow> ('f, 'w) poll \<Rightarrow> ('f, 'q) CoopExecutor \<times> Scheduler \<times> 'w \<Rightarrow>
    (('f, 'q) CoopExecutor \<times> Scheduler \<times> 'w) res option" where
  "run_ready_tasks Q poll st =
    (case run_one Q poll st of
       Inl e \<Rightarrow> Some (Inl e)
     | Inr None \<Rightarrow> Some (Inr st)
     | Inr (Some st') \<Rightarrow> run_ready_tasks Q poll st')"

datatype idle_action = EnableAndHlt | Enable

definition sleep_if_idle :: "(TaskId, 'q) queue_ops \<Rightarrow> 'q \<Rightarrow> idle_action" where
  "sleep_if_idle Q q = (if q_is_empty Q q then EnableAndHlt else Enable)"

section \<open>The executor invariant\<close>

definition exec_inv :: "('f, 'q) CoopExecutor \<Rightarrow> Scheduler \<Rightarrow> bool" where
  "exec_inv e sc \<longleftrightarrow>
    (\<forall>i t. fmlookup (tasks e) i = Some t \<longrightarrow> task_id t = i) \<and>
    (\<forall>i k. fmlookup (waker_cache e) i = Some k \<longrightarrow> k = i \<and> i \<in> fmdom' (tasks e)) \<and>
    (\<forall>i. i |\<in>| started_tasks e \<longrightarrow> i \<in> fmdom' (tasks e)) \<and>
    tasks_alive sc = of_nat (task_count e) \<and> tasks_spawned sc = tasks_completed sc + tasks_alive sc"

text \<open>
  A potential for the futures: a poll pays for each wake it causes. \<open>pending_work\<close> then bounds
  the iterations that the loop can still make, and the length that the queue can reach.
\<close>

definition pays :: "('f, 'w) poll \<Rightarrow> ('f \<Rightarrow> nat) \<Rightarrow> bool" where
  "pays poll \<phi> \<longleftrightarrow>
    (\<forall>i f w. \<exists>ready f' w' woken. poll i f w = Inr (ready, f', w', woken) \<and>
      length woken + (if ready then 0 else \<phi> f') \<le> \<phi> f)"

definition pending_work ::
  "('q \<Rightarrow> TaskId list) \<Rightarrow> ('f \<Rightarrow> nat) \<Rightarrow> ('f, 'q) CoopExecutor \<Rightarrow> nat" where
  "pending_work contents \<phi> e =
    length (contents (task_queue e)) + (\<Sum>i \<in> fmdom' (tasks e). \<phi> (future (the (fmlookup (tasks e) i))))"

lemma wake_all:
  assumes "array_queue Q capacity contents" and "length (contents q) + length ws \<le> capacity q"
  shows "\<exists>q'. for_res (wake_task Q) ws q = Inr q' \<and> contents q' = contents q @ ws \<and> capacity q' = capacity q"
  using assms(2)
proof (induction ws arbitrary: q)
  case (Cons i ws)
  then have "length (contents q) < capacity q" by simp
  then obtain q1 where "q_push Q i q = Some q1" "contents q1 = contents q @ [i]" "capacity q1 = capacity q"
    by (rule array_queue.pushE [OF assms(1)])
  then show ?case using Cons.IH [of q1] Cons.prems by (simp add: wake_task_def)
qed simp

lemma pending_known:
  assumes "fmlookup (tasks e) i = Some task"
  shows "(\<Sum>j \<in> fmdom' (tasks e). \<phi> (future (the (fmlookup (tasks e) j)))) =
      \<phi> (future task) + (\<Sum>j \<in> fmdom' (tasks e) - {i}. \<phi> (future (the (fmlookup (tasks e) j))))"
proof -
  have "i \<in> fmdom' (tasks e)" using assms by (simp add: fmlookup_dom'_iff)
  then show ?thesis using assms by (simp add: sum.remove)
qed

text \<open>What the two ends of a poll do to the invariant and to the pending work.\<close>

lemma finish_task:
  assumes "exec_inv e sc" and "fmlookup (tasks e) i = Some task"
    and "e' = e\<lparr>task_queue := q, tasks := fmdrop i (tasks e), waker_cache := fmdrop i (fmupd i i (waker_cache e)),
      started_tasks := finsert i (started_tasks e) |-| {|i|}\<rparr>"
  shows "exec_inv e' (note_task_completed sc)"
    and "pending_work contents \<phi> e' =
      length (contents q) + (\<Sum>j \<in> fmdom' (tasks e) - {i}. \<phi> (future (the (fmlookup (tasks e) j))))"
proof -
  have "i \<in> fmdom' (tasks e)" using assms(2) by (simp add: fmlookup_dom'_iff)
  then have "card (fmdom' (tasks e)) = Suc (card (fmdom' (tasks e) - {i}))" by (intro card.remove) simp_all
  then show "exec_inv e' (note_task_completed sc)"
    using assms(1) by (auto simp: exec_inv_def assms(3) task_count_def counter_defs algebra_simps)
qed (simp add: pending_work_def assms(3))

lemma suspend_task:
  assumes "exec_inv e sc" and "fmlookup (tasks e) i = Some task"
    and "e' = e\<lparr>task_queue := q, tasks := fmupd i (task\<lparr>future := f\<rparr>) (tasks e),
      waker_cache := fmupd i i (waker_cache e), started_tasks := finsert i (started_tasks e)\<rparr>"
  shows "exec_inv e' sc"
    and "pending_work contents \<phi> e' = length (contents q) +
      (\<phi> f + (\<Sum>j \<in> fmdom' (tasks e) - {i}. \<phi> (future (the (fmlookup (tasks e) j)))))"
proof -
  have dom: "i \<in> fmdom' (tasks e)" using assms(2) by (simp add: fmlookup_dom'_iff)
  then have "insert i (fmdom' (tasks e)) = fmdom' (tasks e)" by blast
  then show "exec_inv e' sc" using assms(1,2) by (auto simp: exec_inv_def assms(3) task_count_def)
  show "pending_work contents \<phi> e' = length (contents q) +
      (\<phi> f + (\<Sum>j \<in> fmdom' (tasks e) - {i}. \<phi> (future (the (fmlookup (tasks e) j)))))"
    using pending_known [of e' i "task\<lparr>future := f\<rparr>" \<phi>] dom
    by (simp add: pending_work_def assms(3) insert_Diff_if) (rule sum.cong, auto)
qed

lemma run_one_progress:
  assumes Q: "array_queue Q capacity contents" and inv: "exec_inv e sc" and "pays poll \<phi>"
    and room: "pending_work contents \<phi> e \<le> capacity (task_queue e)"
    and head: "contents (task_queue e) = i # is"
  shows "\<exists>e' sc' w'. run_one Q poll (e, sc, w) = Inr (Some (e', sc', w')) \<and> exec_inv e' sc' \<and>
    capacity (task_queue e') = capacity (task_queue e) \<and>
    pending_work contents \<phi> e' < pending_work contents \<phi> e"
proof -
  obtain q where q: "q_pop Q (task_queue e) = Some (i, q)" "contents q = is"
    "capacity q = capacity (task_queue e)"
    by (rule array_queue.popE [OF Q head])
  show ?thesis
  proof (cases "fmlookup (tasks e) i")
    case None
    then show ?thesis
      using q inv head by (simp add: run_one_def exec_inv_def task_count_def pending_work_def)
  next
    case (Some task)
    have waker: "(case fmlookup (waker_cache e) i of Some waker \<Rightarrow> waker | None \<Rightarrow> i) = i"
      using inv by (auto simp: exec_inv_def split: option.split)
    obtain ready f' w' woken where p: "poll i (future task) w = Inr (ready, f', w', woken)"
      and pay: "length woken + (if ready then 0 else \<phi> f') \<le> \<phi> (future task)"
      using assms(3) unfolding pays_def by blast
    have work: "pending_work contents \<phi> e = Suc (length is) + (\<phi> (future task) +
        (\<Sum>j \<in> fmdom' (tasks e) - {i}. \<phi> (future (the (fmlookup (tasks e) j)))))"
      using head pending_known [OF Some] by (simp add: pending_work_def)
    then have "length (contents q) + length woken \<le> capacity q" using q room pay by simp
    then obtain q' where q': "for_res (wake_task Q) woken q = Inr q'" "contents q' = is @ woken"
      "capacity q' = capacity q"
      using wake_all [OF Q] q(2) by metis
    show ?thesis
    proof (cases ready)
      case True
      then show ?thesis
        using q Some waker p q' pay work finish_task(1) [OF inv Some refl, where q = q']
          finish_task(2) [OF inv Some refl, where q = q' and contents = contents and \<phi> = \<phi>]
        by (cases e) (simp add: run_one_def Let_def)
    next
      case False
      then show ?thesis
        using q Some waker p q' pay work suspend_task(1) [OF inv Some refl, where q = q' and f = f']
          suspend_task(2) [OF inv Some refl, where q = q' and f = f' and contents = contents and \<phi> = \<phi>]
        by (cases e) (simp add: run_one_def Let_def)
    qed
  qed
qed

lemma run_ready_tasks_drains:
  assumes "array_queue Q capacity contents" and "pays poll \<phi>" and "exec_inv e sc"
    and "pending_work contents \<phi> e \<le> capacity (task_queue e)"
  shows "\<exists>e' sc' w'. run_ready_tasks Q poll (e, sc, w) = Some (Inr (e', sc', w')) \<and> exec_inv e' sc' \<and>
    contents (task_queue e') = [] \<and> capacity (task_queue e') = capacity (task_queue e)"
  using assms(3,4)
proof (induction "pending_work contents \<phi> e" arbitrary: e sc w rule: less_induct)
  case less
  show ?case
  proof (cases "contents (task_queue e)")
    case Nil
    then have "q_pop Q (task_queue e) = None" by (simp add: array_queue.pop_None_iff [OF assms(1)])
    then have "run_one Q poll (e, sc, w) = Inr None" by (simp add: run_one_def)
    then show ?thesis using Nil less.prems by (subst run_ready_tasks.simps) simp
  next
    case (Cons i ids)
    obtain e' sc' w' where step: "run_one Q poll (e, sc, w) = Inr (Some (e', sc', w'))" "exec_inv e' sc'"
      "capacity (task_queue e') = capacity (task_queue e)"
      "pending_work contents \<phi> e' < pending_work contents \<phi> e"
      using run_one_progress [OF assms(1) less.prems(1) assms(2) less.prems(2) Cons] by blast
    with less.hyps [OF step(4) step(2)] less.prems(2) show ?thesis
      by (subst run_ready_tasks.simps) simp
  qed
qed

section \<open>The idle race\<close>

text \<open>
  The interrupt flag around \<open>sleep_if_idle\<close>: the executor masks interrupts, looks at the queue,
  and either unmasks them or performs \<open>enable_and_hlt\<close>, which the processor executes without
  accepting an interrupt in between. An interrupt is accepted only while unmasked; it may wake
  a task and it ends a halt.
\<close>

datatype cpu_mode = Awake | Masked | Halted

inductive idle_run :: "(TaskId, 'q) queue_ops \<Rightarrow> 'q \<Rightarrow> cpu_mode \<Rightarrow> 'q \<Rightarrow> bool" for Q q0 where
  start: "idle_run Q q0 Awake q0"
| disable: "idle_run Q q0 Awake q \<Longrightarrow> idle_run Q q0 Masked q"
| hlt: "idle_run Q q0 Masked q \<Longrightarrow> sleep_if_idle Q q = EnableAndHlt \<Longrightarrow> idle_run Q q0 Halted q"
| enable: "idle_run Q q0 Masked q \<Longrightarrow> sleep_if_idle Q q = Enable \<Longrightarrow> idle_run Q q0 Awake q"
| irq_wake: "idle_run Q q0 m q \<Longrightarrow> m \<noteq> Masked \<Longrightarrow> wake_task Q i q = Inr q' \<Longrightarrow> idle_run Q q0 Awake q'"
| irq_other: "idle_run Q q0 m q \<Longrightarrow> m \<noteq> Masked \<Longrightarrow> idle_run Q q0 Awake q"
| pop: "idle_run Q q0 Awake q \<Longrightarrow> q_pop Q q = Some (i, q') \<Longrightarrow> idle_run Q q0 Awake q'"

section \<open>Properties\<close>

text \<open>
  C23: Draining the ready queue terminates without a panic whenever every poll returns and pays for the wakes
  it causes out of a potential and the pending work fits the queue: the loop returns with an
  empty queue, every cached waker and started mark belongs to a live task, and the counters
  of alive, spawned and completed tasks agree with the task map.
\<close>

theorem executor_drains:
  assumes "array_queue Q capacity contents" and "pays poll \<phi>" and "exec_inv e sc"
    and "pending_work contents \<phi> e \<le> capacity (task_queue e)"
  shows "\<exists>e' sc' w'. run_ready_tasks Q poll (e, sc, w) = Some (Inr (e', sc', w')) \<and>
    contents (task_queue e') = [] \<and>
    (\<forall>i. i |\<in>| started_tasks e' \<or> i \<in> fmdom' (waker_cache e') \<longrightarrow> i \<in> fmdom' (tasks e')) \<and>
    tasks_alive sc' = of_nat (task_count e') \<and>
    tasks_spawned sc' = tasks_completed sc' + of_nat (task_count e')"
proof -
  obtain e' sc' w' where d: "run_ready_tasks Q poll (e, sc, w) = Some (Inr (e', sc', w'))"
    "exec_inv e' sc'" "contents (task_queue e') = []"
    using run_ready_tasks_drains [OF assms] by blast
  then show ?thesis by (auto simp: exec_inv_def fmlookup_dom'_iff)
qed

text \<open>A task that wakes itself three times and then completes, alone in the executor.\<close>

definition countdown_poll :: "(nat, unit) poll" where
  "countdown_poll = (\<lambda>i n w. Inr (if n = 0 then (True, 0, w, []) else (False, n - 1, w, [i])))"

definition countdown_executor :: "(nat, nat \<times> TaskId list) CoopExecutor" where
  "countdown_executor =
    \<lparr>tasks = fmupd 5 \<lparr>task_id = 5, future = 3\<rparr> fmempty, task_queue = (100, [5]), waker_cache = fmempty,
     started_tasks = {||}\<rparr>"

theorem executor_drains_witness:
  "\<exists>e' sc' w'. run_ready_tasks list_queue countdown_poll
      (countdown_executor, Scheduler_new\<lparr>tasks_alive := 1, tasks_spawned := 1\<rparr>, ()) =
      Some (Inr (e', sc', w')) \<and> snd (task_queue e') = []"
proof -
  have "pays countdown_poll (\<lambda>n. n)"
    by (auto simp: pays_def countdown_poll_def split: if_splits)
  moreover have "exec_inv countdown_executor (Scheduler_new\<lparr>tasks_alive := 1, tasks_spawned := 1\<rparr>)"
    by (simp add: exec_inv_def countdown_executor_def task_count_def Scheduler_new_def)
  moreover have "pending_work snd (\<lambda>n. n) countdown_executor \<le> fst (task_queue countdown_executor)"
    by (simp add: pending_work_def countdown_executor_def)
  ultimately show ?thesis
    using executor_drains [OF lq.array_queue_axioms, of countdown_poll "\<lambda>n. n"] by meson
qed

text \<open>
  The executor never sleeps with work pending: however interrupts interleave with the idle
  check, whenever the processor is halted the ready queue is empty, so a wake that arrives
  before the halt keeps the executor running and one that arrives after ends the halt.
\<close>

theorem idle_never_sleeps_on_work:
  assumes "array_queue Q capacity contents" and "idle_run Q q0 Halted q"
  shows "contents q = [] \<and> (\<forall>i q'. wake_task Q i q = Inr q' \<longrightarrow> idle_run Q q0 Awake q' \<and> contents q' = [i])"
proof
  show e: "contents q = []"
    using assms(2)
  proof (cases rule: idle_run.cases)
    case hlt
    then show ?thesis
      using array_queue.is_empty_contents [OF assms(1)] by (auto simp: sleep_if_idle_def split: if_splits)
  qed
  show "\<forall>i q'. wake_task Q i q = Inr q' \<longrightarrow> idle_run Q q0 Awake q' \<and> contents q' = [i]"
  proof (intro allI impI)
    fix i q' assume w: "wake_task Q i q = Inr q'"
    then have "q_push Q i q = Some q'" by (cases "q_push Q i q") (simp_all add: wake_task_def)
    then have "contents q' = [i]" using array_queue.push_Some_D [OF assms(1)] e by simp
    then show "idle_run Q q0 Awake q' \<and> contents q' = [i]"
      using idle_run.irq_wake [OF assms(2) _ w] by simp
  qed
qed

theorem idle_never_sleeps_on_work_witness:
  "idle_run list_queue (100, []) Halted (100, [] :: TaskId list) \<and>
   idle_run list_queue (100, []) Awake (100, [7 :: TaskId])"
proof -
  have "idle_run list_queue (100, [] :: TaskId list) Masked (100, [])"
    by (intro idle_run.disable idle_run.start)
  then have h: "idle_run list_queue (100, [] :: TaskId list) Halted (100, [])"
    by (rule idle_run.hlt) (simp add: sleep_if_idle_def list_queue_def)
  moreover have "wake_task list_queue 7 (100, []) = Inr (100, [7 :: TaskId])"
    by (simp add: wake_task_def list_queue_def)
  ultimately show ?thesis using idle_never_sleeps_on_work [OF lq.array_queue_axioms h] by blast
qed

end
