(* ===== verification/Logger.thy ===== *)
theory Logger
  imports Apogee_Prelude
begin

text \<open>
  The serial logger (\<open>src/src/logger.rs\<close>). The serial port is the list of bytes sent so far and a
  flag that says whether another holder has its lock at the moment of the call: \<open>try_lock\<close> fails
  exactly then. The formatter of the standard library turns the arguments into bytes, which are
  the argument of the model.
\<close>

section \<open>The model\<close>

datatype LogLevel = Trace | Debug | Info | Warn | Error

fun level_tag :: "LogLevel \<Rightarrow> u8 list" where
  "level_tag Trace = [0x54, 0x52, 0x43]"
| "level_tag Debug = [0x44, 0x42, 0x47]"
| "level_tag Info = [0x49, 0x4e, 0x46]"
| "level_tag Warn = [0x57, 0x52, 0x4e]"
| "level_tag Error = [0x45, 0x52, 0x52]"

record serial_log =
  sent :: "u8 list"
  DROPPED_MESSAGES :: u64

definition log_print :: "bool \<Rightarrow> u8 list \<Rightarrow> serial_log \<Rightarrow> serial_log" where
  "log_print locked args s =
    (if locked then s\<lparr>DROPPED_MESSAGES := DROPPED_MESSAGES s + 1\<rparr>
     else s\<lparr>sent := sent s @ args\<rparr>)"

definition to_ascii_uppercase :: "u8 \<Rightarrow> u8" where
  "to_ascii_uppercase b = (if 0x61 \<le> b \<and> b \<le> 0x7a then b - 0x20 else b)"

text \<open>The four-byte source column: a buffer of spaces into which up to four bytes are copied.\<close>

definition short_source :: "u8 list \<Rightarrow> u8 list" where
  "short_source source =
    (let buf = replicate 4 0x20; copy = min (length source) 4 in
     map to_ascii_uppercase (take copy source) @ drop copy buf)"

definition log_line :: "LogLevel \<Rightarrow> u8 list \<Rightarrow> u8 list \<Rightarrow> u8 list" where
  "log_line level source args =
    level_tag level @ [0x3b] @ short_source source @ [0x20, 0x5b] @ args @ [0x5d, 0x0a]"

definition log_message :: "bool \<Rightarrow> LogLevel \<Rightarrow> u8 list \<Rightarrow> u8 list \<Rightarrow> serial_log \<Rightarrow> serial_log" where
  "log_message locked level source args s =
    (if locked then s\<lparr>DROPPED_MESSAGES := DROPPED_MESSAGES s + 1\<rparr>
     else s\<lparr>sent := sent s @ log_line level source args\<rparr>)"

definition dropped_messages :: "serial_log \<Rightarrow> u64" where
  "dropped_messages s = DROPPED_MESSAGES s"

section \<open>Lines and losses\<close>

lemma level_tag_length [simp]: "length (level_tag level) = 3"
  by (cases level) simp_all

lemma short_source_length [simp]: "length (short_source source) = 4"
  by (simp add: short_source_def Let_def min_def)

type_synonym message = "LogLevel \<times> u8 list \<times> u8 list"

definition log_all :: "(bool \<times> message) list \<Rightarrow> serial_log \<Rightarrow> serial_log" where
  "log_all ms s = fold (\<lambda>(locked, level, source, args). log_message locked level source args) ms s"

lemma level_tag_inj: "level_tag a = level_tag b \<longleftrightarrow> a = b"
  by (cases a; cases b) simp_all

lemma uppercase_not_lower: "\<not> (0x61 \<le> to_ascii_uppercase b \<and> to_ascii_uppercase b \<le> 0x7a)"
proof (cases "0x61 \<le> b \<and> b \<le> 0x7a")
  case True
  then have "0x20 \<le> b" "unat b \<le> 0x7a" by (simp_all add: word_le_nat_alt)
  then have "unat (b - 0x20) = unat b - 0x20" by (simp add: unat_sub)
  then show ?thesis using True \<open>unat b \<le> 0x7a\<close> by (simp add: to_ascii_uppercase_def word_le_nat_alt)
next
  case False
  then show ?thesis by (auto simp: to_ascii_uppercase_def)
qed

lemma short_source_bytes: "b \<in> set (short_source source) \<Longrightarrow> (\<exists>x. b = to_ascii_uppercase x) \<or> b = 0x20"
proof -
  let ?c = "min (length source) 4"
  assume "b \<in> set (short_source source)"
  then have "b \<in> to_ascii_uppercase ` set (take ?c source) \<or> b \<in> set (drop ?c (replicate 4 0x20))"
    by (simp only: short_source_def Let_def set_append Un_iff set_map)
  moreover have "b = 0x20" if "b \<in> set (drop ?c (replicate 4 0x20))"
    using in_set_dropD [OF that] by (simp only: in_set_replicate)
  ultimately show ?thesis by blast
qed

lemma short_source_take: "short_source (take 4 source) = short_source source"
proof -
  have "min (length (take 4 source)) 4 = min (length source) 4" by simp
  moreover have "take (min (length source) 4) (take 4 source) = take (min (length source) 4) source"
    by (simp add: min_def)
  ultimately show ?thesis unfolding short_source_def Let_def by (simp only:)
qed

section \<open>Properties\<close>


text \<open>
  The shape of a line. Every line starts with a three-letter level tag that identifies the
  level, a semicolon and a source column of exactly four bytes in upper case: the source cut
  off after four bytes or padded with spaces. So two lines with the same arguments are equal
  exactly when their levels and their source columns are, and a source of five letters such as
  the fault handlers' is cut.
\<close>

theorem log_line_columns:
  "length (log_line level source args) = length args + 12 \<and>
    (log_line level source args = log_line level' source' args' \<longleftrightarrow>
      level = level' \<and> short_source source = short_source source' \<and> args = args') \<and>
    short_source (take 4 source) = short_source source \<and>
    (\<forall>b \<in> set (short_source source). \<not> (0x61 \<le> b \<and> b \<le> 0x7a))"
proof (intro conjI)
  show "length (log_line level source args) = length args + 12" by (simp add: log_line_def)
  show "log_line level source args = log_line level' source' args' \<longleftrightarrow>
      level = level' \<and> short_source source = short_source source' \<and> args = args'"
    by (auto simp: log_line_def level_tag_inj append_eq_append_conv)
  show "short_source (take 4 source) = short_source source"
    by (rule short_source_take)
  show "\<forall>b \<in> set (short_source source). \<not> (0x61 \<le> b \<and> b \<le> 0x7a)"
  proof
    fix b assume "b \<in> set (short_source source)"
    then consider x where "b = to_ascii_uppercase x" | "b = 0x20" using short_source_bytes by blast
    then show "\<not> (0x61 \<le> b \<and> b \<le> 0x7a)" using uppercase_not_lower by cases simp_all
  qed
qed

theorem log_line_columns_witness:
  "log_line Warn [0x46, 0x41, 0x55, 0x4c, 0x54] [0x21] = log_line Warn [0x46, 0x41, 0x55, 0x4c] [0x21] \<and>
    length (log_line Warn [0x46, 0x41, 0x55, 0x4c, 0x54] [0x21]) = 13"
proof -
  let ?s = "[0x46, 0x41, 0x55, 0x4c, 0x54] :: u8 list"
  note c = log_line_columns [of Warn ?s "[0x21]" Warn "take 4 ?s" "[0x21]"]
  have "log_line Warn ?s [0x21] = log_line Warn (take 4 ?s) [0x21]"
    unfolding c [THEN conjunct2, THEN conjunct1] c [THEN conjunct2, THEN conjunct2, THEN conjunct1] by simp
  moreover have "take 4 ?s = [0x46, 0x41, 0x55, 0x4c]" by simp
  moreover have "length (log_line Warn ?s [0x21]) = 13" using c [THEN conjunct1] by simp
  ultimately show ?thesis by (simp only:)
qed

end
