(* ===== verification/Startup_Tasks.thy ===== *)
theory Startup_Tasks
  imports Task_Executor Keyboard Logger Format
begin

text \<open>
  The two tasks that \<open>kernel_main\<close> spawns, driven by the executor: \<open>example_task\<close>
  (\<open>src/src/demos.rs\<close>) and \<open>print_keypresses\<close> (\<open>src/src/task/keyboard.rs\<close>).

  A future is the state machine that the compiler makes of an \<open>async\<close> block: a value per point
  at which it can be suspended. \<open>example_task\<close> awaits \<open>async_number\<close>, which is ready at its
  first poll, and so has one such point. \<open>print_keypresses\<close> is suspended before it starts and
  at the \<open>await\<close> of its loop, where it keeps the decoder; the decoder of the \<open>pc-keyboard\<close>
  crate is a parameter. Interrupts are delivered between polls here; interrupts inside a poll
  are the subject of \<open>Keyboard\<close>. The loop inside one poll then takes at most the codes that
  the queue can hold, so it runs on \<open>SCANCODE_QUEUE_CAPACITY\<close> codes and one more attempt;
  to run out of them is a panic of the model, which the theorems exclude.
\<close>

section \<open>The futures\<close>

definition async_number :: nat where
  "async_number = 42"

definition example_task_line :: "u8 list" where
  "example_task_line = ascii ''example async task completed with '' @ fmt_dec async_number"

datatype 'd startup_future = ExampleTask | PrintKeypresses "'d option"

record ('q, 's) world =
  w_keyboard :: "('q, 's) keyboard"
  w_console :: Writer
  w_log :: serial_log

definition example_task :: "('q, 's) world \<Rightarrow> ('q, 's) world" where
  "example_task w = w\<lparr>w_log := log_message False Debug (ascii ''EXEC'') example_task_line (w_log w)\<rparr>"

text \<open>The \<open>while let\<close> loop of \<open>print_keypresses\<close> up to its next suspension.\<close>

fun keypress_loop ::
  "nat \<Rightarrow> (u8, 'q) queue_ops \<Rightarrow> ('w, 's) waker_ops \<Rightarrow> (u8 \<Rightarrow> 'd \<Rightarrow> 'd \<times> DecodedKey option) \<Rightarrow> 'w \<Rightarrow>
    'd \<times> ('q, 's) keyboard \<times> Writer \<Rightarrow> ('d \<times> ('q, 's) keyboard \<times> Writer) res" where
  "keypress_loop 0 Q W decode waker st = Inl (Panicked ''more codes than the queue holds'')"
| "keypress_loop (Suc n) Q W decode waker (d, k, w) =
    bind_res (poll_next Q W waker k) (\<lambda>(pc, k).
    case pc of
      Polled (Some scancode) \<Rightarrow>
        bind_res (process_scancode Q decode scancode (d, k, w)) (keypress_loop n Q W decode waker)
    | _ \<Rightarrow> Inr (d, k, w))"

definition print_keypresses ::
  "(u8, 'q) queue_ops \<Rightarrow> ('w, 's) waker_ops \<Rightarrow> 'd \<Rightarrow> (u8 \<Rightarrow> 'd \<Rightarrow> 'd \<times> DecodedKey option) \<Rightarrow> 'w \<Rightarrow>
    'd option \<Rightarrow> ('q, 's) keyboard \<times> Writer \<Rightarrow> ('d \<times> ('q, 's) keyboard \<times> Writer) res" where
  "print_keypresses Q W decoder decode waker f = (\<lambda>(k, w).
    case f of
      None \<Rightarrow> bind_res (ScancodeStream_new Q k) (\<lambda>k.
        keypress_loop (Suc SCANCODE_QUEUE_CAPACITY) Q W decode waker (decoder, k, w))
    | Some d \<Rightarrow> keypress_loop (Suc SCANCODE_QUEUE_CAPACITY) Q W decode waker (d, k, w))"

definition startup_poll ::
  "(u8, 'q) queue_ops \<Rightarrow> (TaskId, 's) waker_ops \<Rightarrow> 'd \<Rightarrow> (u8 \<Rightarrow> 'd \<Rightarrow> 'd \<times> DecodedKey option) \<Rightarrow>
    ('d startup_future, ('q, 's) world) poll" where
  "startup_poll Q W decoder decode waker f w =
    (case f of
       ExampleTask \<Rightarrow> Inr (True, f, example_task w, [])
     | PrintKeypresses d \<Rightarrow>
         bind_res (print_keypresses Q W decoder decode waker d (w_keyboard w, w_console w)) (\<lambda>(d, k, c).
         Inr (False, PrintKeypresses (Some d), w\<lparr>w_keyboard := k, w_console := c\<rparr>, [])))"

section \<open>The executor's run loop\<close>

text \<open>
  One turn of \<open>run\<close>, and the keyboard interrupt as the executor sees it: the handler pushes the
  code and wakes the task whose waker it took.
\<close>

definition run_turn ::
  "(TaskId, 't) queue_ops \<Rightarrow> ('f, 'w) poll \<Rightarrow> ('f, 't) CoopExecutor \<times> Scheduler \<times> 'w \<Rightarrow>
    ((('f, 't) CoopExecutor \<times> Scheduler \<times> 'w) \<times> idle_action) res option" where
  "run_turn T poll st =
    map_option (\<lambda>r. bind_res r (\<lambda>(e, sc, w). Inr ((e, sc, w), sleep_if_idle T (task_queue e))))
      (run_ready_tasks T poll st)"

definition key_irq ::
  "(TaskId, 't) queue_ops \<Rightarrow> (u8, 'q) queue_ops \<Rightarrow> (TaskId, 's) waker_ops \<Rightarrow> u8 \<Rightarrow>
    ('f, 't) CoopExecutor \<times> Scheduler \<times> ('q, 's) world \<Rightarrow>
    (('f, 't) CoopExecutor \<times> Scheduler \<times> ('q, 's) world) res" where
  "key_irq T Q W code = (\<lambda>(e, sc, w).
    let (k, r) = add_scancode Q W code (w_keyboard w) in
    bind_res (for_res (wake_task T) (woken r) (task_queue e)) (\<lambda>q.
    Inr (e\<lparr>task_queue := q\<rparr>, sc, w\<lparr>w_keyboard := k\<rparr>)))"

text \<open>The end of \<open>kernel_main\<close>: a fresh executor with the two tasks.\<close>

definition spawn_startup_tasks ::
  "(TaskId, 't) queue_ops \<Rightarrow> u64 \<Rightarrow> Scheduler \<Rightarrow>
    (u64 \<times> ('d startup_future, 't) CoopExecutor \<times> Scheduler) res" where
  "spawn_startup_tasks T next_id sc =
    (let e = CoopExecutor_new T; (next_id, example) = Task_new ExampleTask next_id in
     bind_res (spawn_task T example (e, sc)) (\<lambda>(e, sc).
     let (next_id, keys) = Task_new (PrintKeypresses None) next_id in
     bind_res (spawn_task T keys (e, sc)) (\<lambda>(e, sc). Inr (next_id, e, sc))))"

section \<open>One poll of the keyboard task\<close>

lemma poll_next_ready:
  assumes "array_queue Q capacity contents" and "SCANCODE_QUEUE k = Some q" and "contents q = c # cs"
  obtains q' where "poll_next Q W waker k = Inr (Polled (Some c), k\<lparr>SCANCODE_QUEUE := Some q'\<rparr>)"
    and "contents q' = cs" and "capacity q' = capacity q"
proof -
  obtain x q' where p: "q_pop Q q = Some (x, q')"
    using array_queue.pop_None_iff [OF assms(1), of q] assms(3) by (cases "q_pop Q q") auto
  then have "x = c" "contents q' = cs" "capacity q' = capacity q"
    using array_queue.pop_Some_D [OF assms(1) p] assms(3) by simp_all
  moreover have "poll_next Q W waker k = Inr (Polled (Some x), k\<lparr>SCANCODE_QUEUE := Some q'\<rparr>)"
    using assms(2) p by (simp add: poll_next_def poll_step_def numeral_eq_Suc)
  ultimately show ?thesis using that by simp
qed

lemma poll_next_pending:
  assumes "array_queue Q capacity contents" and "SCANCODE_QUEUE k = Some q" and "contents q = []"
  shows "poll_next Q W waker k = Inr (Polled None, k\<lparr>WAKER := w_register W waker (WAKER k)\<rparr>)"
proof -
  have "q_pop Q q = None" using array_queue.pop_None_iff [OF assms(1)] assms(3) by simp
  then show ?thesis using assms(2) by (simp add: poll_next_def poll_step_def numeral_eq_Suc)
qed

text \<open>Handling a code touches the key queue only, and does not depend on the other cells.\<close>

abbreviation with_cells :: "'q option \<Rightarrow> 's \<Rightarrow> ('q, 's) keyboard \<Rightarrow> ('q, 's) keyboard" where
  "with_cells x y k \<equiv> k\<lparr>SCANCODE_QUEUE := x, WAKER := y\<rparr>"

lemma handle_key_cells:
  "handle_key Q key (with_cells x y k, w) =
    bind_res (handle_key Q key (k, w)) (\<lambda>(k, w). Inr (with_cells x y k, w))"
  by (cases "case key of Unicode c \<Rightarrow> vga_print (utf8 c) w | RawKey _ \<Rightarrow> Inr w")
    (auto simp: handle_key_def Let_def split: DecodedKey.splits option.splits if_splits)

lemma process_scancode_cells:
  "process_scancode Q decode c (d, with_cells x y k, w) =
    bind_res (process_scancode Q decode c (d, k, w)) (\<lambda>(d, k, w). Inr (d, with_cells x y k, w))"
  by (simp add: process_scancode_def handle_key_cells bind_res_assoc case_prod_unfold split: option.split)

lemma for_process_cells:
  "for_res (process_scancode Q decode) cs (d, with_cells x y k, w) =
    bind_res (for_res (process_scancode Q decode) cs (d, k, w)) (\<lambda>(d, k, w). Inr (d, with_cells x y k, w))"
proof (induction cs arbitrary: d k w)
  case (Cons c cs)
  show ?case
  proof (cases "process_scancode Q decode c (d, k, w)")
    case (Inr r)
    then show ?thesis using Cons.IH by (cases r) (simp add: process_scancode_cells)
  qed (simp add: process_scancode_cells)
qed simp

lemma process_scancode_ok:
  assumes "array_queue Q capacity contents" and "vga_wf w" and "key_queue_ascii contents k"
  shows "\<exists>d' k' w'. process_scancode Q decode c (d, k, w) = Inr (d', k', w') \<and>
    vga_wf w' \<and> key_queue_ascii contents k' \<and> SCANCODE_QUEUE k' = SCANCODE_QUEUE k \<and> WAKER k' = WAKER k"
proof (cases "decode c d")
  case (Pair d' key)
  show ?thesis
  proof (cases key)
    case None
    then show ?thesis using Pair assms(2,3) by (simp add: process_scancode_def)
  next
    case (Some x)
    obtain k' w' where h: "handle_key Q x (k, w) = Inr (k', w')" "vga_wf w'" "key_queue_ascii contents k'"
      "SCANCODE_QUEUE k' = SCANCODE_QUEUE k"
      using handle_key_ok [OF assms] by blast
    have "WAKER k' = WAKER k"
      using h(1) by (auto simp: handle_key_def Let_def bind_res_eq_Inr split: DecodedKey.splits option.splits if_splits)
    then show ?thesis using Pair Some h by (simp add: process_scancode_def)
  qed
qed

lemma keypress_loop_drains:
  assumes Q: "array_queue Q capacity contents" and W: "atomic_waker W slot"
    and "SCANCODE_QUEUE k = Some q" and "length (contents q) < n"
    and "vga_wf w" and "key_queue_ascii contents k"
  shows "\<exists>d' k' w' k1 q'. keypress_loop n Q W decode waker (d, k, w) = Inr (d', k', w') \<and>
    for_res (process_scancode Q decode) (contents q) (d, k, w) = Inr (d', k1, w') \<and>
    KEY_QUEUE k' = KEY_QUEUE k1 \<and> SCANCODE_QUEUE k' = Some q' \<and> contents q' = [] \<and>
    capacity q' = capacity q \<and> slot (WAKER k') = Some waker \<and> vga_wf w' \<and> key_queue_ascii contents k'"
  using assms(3-)
proof (induction "contents q" arbitrary: n d k w q)
  case Nil
  obtain m where "n = Suc m" using Nil.prems(2) by (cases n) simp_all
  then show ?case
    using poll_next_pending [OF Q Nil.prems(1) Nil.hyps [symmetric], of W waker] Nil
    by (auto simp: key_queue_ascii_def atomic_waker.register_slot [OF W])
next
  case (Cons c cs)
  obtain m where n: "n = Suc m" "length cs < m"
    using Cons.prems(2) Cons.hyps(2) [symmetric] by (cases n) simp_all
  obtain q1 where p: "poll_next Q W waker k = Inr (Polled (Some c), k\<lparr>SCANCODE_QUEUE := Some q1\<rparr>)"
    "contents q1 = cs" "capacity q1 = capacity q"
    using poll_next_ready [OF Q Cons.prems(1) Cons.hyps(2) [symmetric]] by metis
  let ?k = "k\<lparr>SCANCODE_QUEUE := Some q1\<rparr>"
  have ascii: "key_queue_ascii contents ?k" using Cons.prems(4) by (simp add: key_queue_ascii_def)
  obtain d1 k1 w1 where s: "process_scancode Q decode c (d, ?k, w) = Inr (d1, k1, w1)" "vga_wf w1"
    "key_queue_ascii contents k1" "SCANCODE_QUEUE k1 = Some q1"
    using process_scancode_ok [OF Q Cons.prems(3) ascii, of decode c d] by auto
  have same: "k\<lparr>SCANCODE_QUEUE := Some q\<rparr> = k" using Cons.prems(1) by (cases k) simp
  have step: "process_scancode Q decode c (d, k, w) = Inr (d1, k1\<lparr>SCANCODE_QUEUE := Some q, WAKER := WAKER k\<rparr>, w1)"
    using process_scancode_cells [of Q decode c d "WAKER k" "Some q" ?k w] s(1) same by simp
  obtain d' k' w' k2 q' where ih:
    "keypress_loop m Q W decode waker (d1, k1, w1) = Inr (d', k', w')"
    "for_res (process_scancode Q decode) cs (d1, k1, w1) = Inr (d', k2, w')"
    "KEY_QUEUE k' = KEY_QUEUE k2" "SCANCODE_QUEUE k' = Some q'" "contents q' = []"
    "capacity q' = capacity q" "slot (WAKER k') = Some waker" "vga_wf w'" "key_queue_ascii contents k'"
    using Cons.hyps(1) [OF p(2) [symmetric] s(4), of m w1 d1] n(2) s(2,3) p(2,3) by auto
  have "for_res (process_scancode Q decode) (contents q) (d, k, w) =
      Inr (d', k2\<lparr>SCANCODE_QUEUE := Some q, WAKER := WAKER k\<rparr>, w')"
    using step ih(2) Cons.hyps(2) [symmetric] for_process_cells [of Q decode cs d1 "WAKER k" "Some q" k1 w1] by simp
  then show ?case
    using n(1) p(1) s(1) ih
    by (intro exI [of _ d'] exI [of _ k'] exI [of _ w'] exI [of _ "with_cells (Some q) (WAKER k) k2"]
        exI [of _ q']) simp
qed

section \<open>Typing\<close>

text \<open>
  The state between two turns: the keyboard task \<open>i\<close> is the only one, it waits with its waker
  registered, and both the ready queue and the code queue are empty.
\<close>

definition awaiting_key ::
  "('t \<Rightarrow> nat) \<Rightarrow> ('t \<Rightarrow> TaskId list) \<Rightarrow> ('q \<Rightarrow> nat) \<Rightarrow> ('q \<Rightarrow> u8 list) \<Rightarrow> ('s \<Rightarrow> TaskId option) \<Rightarrow>
    TaskId \<Rightarrow> 'd \<Rightarrow> ('d startup_future, 't) CoopExecutor \<times> Scheduler \<times> ('q, 's) world \<Rightarrow> bool" where
  "awaiting_key capT conT cap con slot i d = (\<lambda>(e, sc, w).
    fmlookup (tasks e) = [i \<mapsto> \<lparr>task_id = i, future = PrintKeypresses (Some d)\<rparr>] \<and>
    fmlookup (waker_cache e) i \<in> {None, Some i} \<and>
    conT (task_queue e) = [] \<and> 0 < capT (task_queue e) \<and>
    (\<exists>q. SCANCODE_QUEUE (w_keyboard w) = Some q \<and> con q = [] \<and> cap q = SCANCODE_QUEUE_CAPACITY) \<and>
    slot (WAKER (w_keyboard w)) = Some i \<and> vga_wf (w_console w) \<and> key_queue_ascii con (w_keyboard w))"

text \<open>Codes that arrive while the task waits: the first wakes it, the others only queue up.\<close>

lemma key_irq_more:
  assumes Q: "array_queue Q cap con" and W: "atomic_waker W slot"
    and "SCANCODE_QUEUE (w_keyboard w) = Some q" and "slot (WAKER (w_keyboard w)) = None"
    and "length (con q) + length cs \<le> cap q"
  shows "\<exists>q' s. for_res (key_irq T Q W) cs (e, sc, w) =
      Inr (e, sc, w\<lparr>w_keyboard := with_cells (Some q') s (w_keyboard w)\<rparr>) \<and>
    con q' = con q @ cs \<and> cap q' = cap q \<and> slot s = None"
  using assms(3-)
proof (induction cs arbitrary: w q)
  case Nil
  have "w\<lparr>w_keyboard := with_cells (Some q) (WAKER (w_keyboard w)) (w_keyboard w)\<rparr> = w"
    using Nil.prems(1) by (cases w; cases "w_keyboard w") simp
  then show ?case using Nil.prems by (intro exI [of _ q] exI [of _ "WAKER (w_keyboard w)"]) simp
next
  case (Cons c cs)
  have "length (con q) < cap q" using Cons.prems(3) by simp
  then obtain q1 where q1: "q_push Q c q = Some q1" "con q1 = con q @ [c]" "cap q1 = cap q"
    by (rule array_queue.pushE [OF Q])
  obtain x s where t: "w_take W (WAKER (w_keyboard w)) = (x, s)" by (cases "w_take W (WAKER (w_keyboard w))")
  then have x: "x = None" "slot s = None"
    using atomic_waker.take_slot [OF W, of "WAKER (w_keyboard w)"] Cons.prems(2) by simp_all
  let ?w = "w\<lparr>w_keyboard := with_cells (Some q1) s (w_keyboard w)\<rparr>"
  have "key_irq T Q W c (e, sc, w) = Inr (e, sc, ?w)"
    using Cons.prems(1) q1(1) t x(1) by (simp add: key_irq_def add_scancode_def Let_def)
  moreover obtain q' s' where "for_res (key_irq T Q W) cs (e, sc, ?w) =
      Inr (e, sc, ?w\<lparr>w_keyboard := with_cells (Some q') s' (w_keyboard ?w)\<rparr>)"
    "con q' = con q1 @ cs" "cap q' = cap q1" "slot s' = None"
    using Cons.IH [of ?w q1] Cons.prems(3) q1(2,3) x(2) by auto
  ultimately show ?case using q1 by (intro exI [of _ q'] exI [of _ s']) simp
qed

lemma key_burst:
  assumes T: "array_queue T capT conT" and Q: "array_queue Q cap con" and W: "atomic_waker W slot"
    and st: "awaiting_key capT conT cap con slot i d (e, sc, w)"
    and "length (c # cs) \<le> SCANCODE_QUEUE_CAPACITY"
  shows "\<exists>qT q s. for_res (key_irq T Q W) (c # cs) (e, sc, w) =
      Inr (e\<lparr>task_queue := qT\<rparr>, sc, w\<lparr>w_keyboard := with_cells (Some q) s (w_keyboard w)\<rparr>) \<and>
    conT qT = [i] \<and> capT qT = capT (task_queue e) \<and> con q = c # cs \<and> cap q = SCANCODE_QUEUE_CAPACITY"
proof -
  obtain q where q: "SCANCODE_QUEUE (w_keyboard w) = Some q" "con q = []" "cap q = SCANCODE_QUEUE_CAPACITY"
    and slot: "slot (WAKER (w_keyboard w)) = Some i"
    and tq: "conT (task_queue e) = []" "0 < capT (task_queue e)"
    using st by (auto simp: awaiting_key_def)
  have "length (con q) < cap q" using q assms(5) by simp
  then obtain q1 where q1: "q_push Q c q = Some q1" "con q1 = con q @ [c]" "cap q1 = cap q"
    by (rule array_queue.pushE [OF Q])
  have "length (conT (task_queue e)) < capT (task_queue e)" using tq by simp
  then obtain qT where qT: "q_push T i (task_queue e) = Some qT" "conT qT = conT (task_queue e) @ [i]"
    "capT qT = capT (task_queue e)"
    by (rule array_queue.pushE [OF T])
  obtain x s where t: "w_take W (WAKER (w_keyboard w)) = (x, s)" by (cases "w_take W (WAKER (w_keyboard w))")
  then have x: "x = Some i" "slot s = None"
    using atomic_waker.take_slot [OF W, of "WAKER (w_keyboard w)"] slot by simp_all
  let ?w = "w\<lparr>w_keyboard := with_cells (Some q1) s (w_keyboard w)\<rparr>"
  have "key_irq T Q W c (e, sc, w) = Inr (e\<lparr>task_queue := qT\<rparr>, sc, ?w)"
    using q(1) q1(1) t x(1) qT(1) by (simp add: key_irq_def add_scancode_def Let_def wake_task_def)
  moreover obtain q' s' where "for_res (key_irq T Q W) cs (e\<lparr>task_queue := qT\<rparr>, sc, ?w) =
      Inr (e\<lparr>task_queue := qT\<rparr>, sc, ?w\<lparr>w_keyboard := with_cells (Some q') s' (w_keyboard ?w)\<rparr>)"
    "con q' = con q1 @ cs" "cap q' = cap q1"
    using key_irq_more [OF Q W, of ?w q1 cs T "e\<lparr>task_queue := qT\<rparr>" sc] assms(5) q q1 x(2) by auto
  ultimately show ?thesis
    using q q1 qT tq(1) by (intro exI [of _ qT] exI [of _ q'] exI [of _ s']) simp
qed

lemma run_ready_tasks_empty:
  assumes "array_queue T capT conT" and "conT (task_queue e) = []"
  shows "run_ready_tasks T poll (e, sc, w) = Some (Inr (e, sc, w))"
proof -
  have "q_pop T (task_queue e) = None" using array_queue.pop_None_iff [OF assms(1)] assms(2) by simp
  then show ?thesis by (subst run_ready_tasks.simps) (simp add: run_one_def)
qed

lemma q_pop_Cons:
  assumes "array_queue T capT conT" and "conT q = i # is"
  obtains q' where "q_pop T q = Some (i, q')" and "conT q' = is" and "capT q' = capT q"
proof (cases "q_pop T q")
  case None
  then show ?thesis using array_queue.pop_None_iff [OF assms(1)] assms(2) by simp
next
  case (Some r)
  then show ?thesis using that array_queue.pop_Some_D [OF assms(1)] assms(2) by (cases r) fastforce
qed

text \<open>A turn of the executor polls a woken keyboard task, which then waits again.\<close>

lemma keypress_task_turn:
  assumes T: "array_queue T capT conT"
    and t: "fmlookup (tasks e) = [i \<mapsto> \<lparr>task_id = i, future = PrintKeypresses f\<rparr>]"
    and c: "fmlookup (waker_cache e) i \<in> {None, Some i}"
    and tq: "conT (task_queue e) = [i]" "0 < capT (task_queue e)"
    and l: "print_keypresses Q W decoder decode i f (w_keyboard w, w_console w) = Inr (d', k', w1)"
      "SCANCODE_QUEUE k' = Some q'" "con q' = []" "cap q' = SCANCODE_QUEUE_CAPACITY"
      "slot (WAKER k') = Some i" "vga_wf w1" "key_queue_ascii con k'"
  shows "\<exists>e'. run_ready_tasks T (startup_poll Q W decoder decode) (e, sc, w) =
      Some (Inr (e', sc, w\<lparr>w_keyboard := k', w_console := w1\<rparr>)) \<and>
    awaiting_key capT conT cap con slot i d' (e', sc, w\<lparr>w_keyboard := k', w_console := w1\<rparr>)"
proof -
  obtain tq' where p: "q_pop T (task_queue e) = Some (i, tq')" "conT tq' = []" "capT tq' = capT (task_queue e)"
    using q_pop_Cons [OF T tq(1)] by metis
  let ?w = "w\<lparr>w_keyboard := k', w_console := w1\<rparr>"
  let ?e = "e\<lparr>task_queue := tq', waker_cache := fmupd i i (waker_cache e),
    started_tasks := finsert i (started_tasks e),
    tasks := fmupd i \<lparr>task_id = i, future = PrintKeypresses (Some d')\<rparr> (tasks e)\<rparr>"
  have waker: "(case fmlookup (waker_cache e) i of Some waker \<Rightarrow> waker | None \<Rightarrow> i) = i"
    using c by auto
  have "startup_poll Q W decoder decode i (PrintKeypresses f) w =
      Inr (False, PrintKeypresses (Some d'), ?w, [])"
    using l(1) by (simp add: startup_poll_def)
  then have "run_one T (startup_poll Q W decoder decode) (e, sc, w) = Inr (Some (?e, sc, ?w))"
    using p(1) t waker by (cases e) (simp add: run_one_def Let_def)
  moreover have "run_ready_tasks T (startup_poll Q W decoder decode) (?e, sc, ?w) = Some (Inr (?e, sc, ?w))"
    using run_ready_tasks_empty [OF T, of ?e] p(2) by simp
  ultimately have "run_ready_tasks T (startup_poll Q W decoder decode) (e, sc, w) = Some (Inr (?e, sc, ?w))"
    by (subst run_ready_tasks.simps) simp
  moreover have "fmlookup (fmupd i x (tasks e)) = [i \<mapsto> x]" for x using t by (auto simp: fun_eq_iff)
  then have "awaiting_key capT conT cap con slot i d' (?e, sc, ?w)"
    using tq(2) p l(2-) by (simp add: awaiting_key_def)
  ultimately show ?thesis by blast
qed

lemma turn_of_run:
  assumes "array_queue T capT conT" and "run_ready_tasks T poll st = Some (Inr (e, sc, w))"
    and "awaiting_key capT conT cap con slot i d (e, sc, w)"
  shows "run_turn T poll st = Some (Inr ((e, sc, w), EnableAndHlt))"
  using assms array_queue.is_empty_contents [OF assms(1)]
  by (simp add: run_turn_def sleep_if_idle_def awaiting_key_def)

lemma keyboard_turn:
  assumes T: "array_queue T capT conT" and Q: "array_queue Q cap con" and W: "atomic_waker W slot"
    and t: "fmlookup (tasks e) = [i \<mapsto> \<lparr>task_id = i, future = PrintKeypresses (Some d)\<rparr>]"
    and c: "fmlookup (waker_cache e) i \<in> {None, Some i}"
    and tq: "conT (task_queue e) = [i]" "0 < capT (task_queue e)"
    and q: "SCANCODE_QUEUE (w_keyboard w) = Some q" "cap q = SCANCODE_QUEUE_CAPACITY"
      "length (con q) \<le> SCANCODE_QUEUE_CAPACITY"
    and v: "vga_wf (w_console w)" and a: "key_queue_ascii con (w_keyboard w)"
  shows "\<exists>e' w' d' k1. run_turn T (startup_poll Q W decoder decode) (e, sc, w) =
      Some (Inr ((e', sc, w'), EnableAndHlt)) \<and>
    for_res (process_scancode Q decode) (con q) (d, w_keyboard w, w_console w) = Inr (d', k1, w_console w') \<and>
    KEY_QUEUE (w_keyboard w') = KEY_QUEUE k1 \<and> w_log w' = w_log w \<and>
    awaiting_key capT conT cap con slot i d' (e', sc, w')"
proof -
  have len: "length (con q) < Suc SCANCODE_QUEUE_CAPACITY" using q(3) by simp
  obtain d' k' w1 k1 q' where l:
    "keypress_loop (Suc SCANCODE_QUEUE_CAPACITY) Q W decode i (d, w_keyboard w, w_console w) = Inr (d', k', w1)"
    "for_res (process_scancode Q decode) (con q) (d, w_keyboard w, w_console w) = Inr (d', k1, w1)"
    "KEY_QUEUE k' = KEY_QUEUE k1" "SCANCODE_QUEUE k' = Some q'" "con q' = []" "cap q' = cap q"
    "slot (WAKER k') = Some i" "vga_wf w1" "key_queue_ascii con k'"
    using keypress_loop_drains [OF Q W q(1) len v a, of decode i d] by blast
  let ?w = "w\<lparr>w_keyboard := k', w_console := w1\<rparr>"
  have pk: "print_keypresses Q W decoder decode i (Some d) (w_keyboard w, w_console w) = Inr (d', k', w1)"
    using l(1) by (simp add: print_keypresses_def del: keypress_loop.simps)
  obtain e' where e': "run_ready_tasks T (startup_poll Q W decoder decode) (e, sc, w) = Some (Inr (e', sc, ?w))"
    "awaiting_key capT conT cap con slot i d' (e', sc, ?w)"
    using keypress_task_turn [OF T t c tq pk l(4), where con = con and cap = cap and slot = slot and sc = sc]
      l(5-9) q(2) by auto
  then have "run_turn T (startup_poll Q W decoder decode) (e, sc, w) = Some (Inr ((e', sc, ?w), EnableAndHlt))"
    by (rule turn_of_run [OF T])
  then show ?thesis
    using l(2,3) e'(2) by (intro exI [of _ e'] exI [of _ ?w] exI [of _ d'] exI [of _ k1]) simp
qed

text \<open>
  A typing session: bursts of codes that arrive while the processor is halted, each followed by a
  turn of the executor.
\<close>

fun session ::
  "(TaskId, 't) queue_ops \<Rightarrow> (u8, 'q) queue_ops \<Rightarrow> (TaskId, 's) waker_ops \<Rightarrow>
    ('f, ('q, 's) world) poll \<Rightarrow> u8 list list \<Rightarrow>
    ('f, 't) CoopExecutor \<times> Scheduler \<times> ('q, 's) world \<Rightarrow>
    (('f, 't) CoopExecutor \<times> Scheduler \<times> ('q, 's) world) res option" where
  "session T Q W poll [] st = Some (Inr st)"
| "session T Q W poll (codes # bursts) st =
    (case for_res (key_irq T Q W) codes st of
       Inl p \<Rightarrow> Some (Inl p)
     | Inr st \<Rightarrow>
         (case run_turn T poll st of
            None \<Rightarrow> None
          | Some (Inl p) \<Rightarrow> Some (Inl p)
          | Some (Inr (st, _)) \<Rightarrow> session T Q W poll bursts st))"

lemma idle_turn:
  assumes "array_queue T capT conT" and "awaiting_key capT conT cap con slot i d (e, sc, w)"
  shows "run_turn T poll (e, sc, w) = Some (Inr ((e, sc, w), EnableAndHlt))"
proof -
  have e: "conT (task_queue e) = []" using assms(2) by (simp add: awaiting_key_def)
  then show ?thesis
    using run_ready_tasks_empty [OF assms(1) e, of poll sc w] array_queue.is_empty_contents [OF assms(1)]
    by (simp add: run_turn_def sleep_if_idle_def)
qed

lemma session_shows_keys:
  assumes T: "array_queue T capT conT" and Q: "array_queue Q cap con" and W: "atomic_waker W slot"
    and "awaiting_key capT conT cap con slot i d (e, sc, w)"
    and "\<And>codes. codes \<in> set bursts \<Longrightarrow> length codes \<le> SCANCODE_QUEUE_CAPACITY"
  shows "\<exists>e' w' d' k1. session T Q W (startup_poll Q W decoder decode) bursts (e, sc, w) = Some (Inr (e', sc, w')) \<and>
    for_res (process_scancode Q decode) (concat bursts) (d, w_keyboard w, w_console w) = Inr (d', k1, w_console w') \<and>
    KEY_QUEUE (w_keyboard w') = KEY_QUEUE k1 \<and> w_log w' = w_log w \<and>
    awaiting_key capT conT cap con slot i d' (e', sc, w')"
  using assms(4,5)
proof (induction bursts arbitrary: d e w)
  case Nil
  then show ?case by auto
next
  case (Cons codes bursts)
  let ?poll = "startup_poll Q W decoder decode" and ?k = "w_keyboard w"
  have turn: "\<exists>e1 w1 d1 k1. session T Q W ?poll (codes # bursts) (e, sc, w) = session T Q W ?poll bursts (e1, sc, w1) \<and>
      for_res (process_scancode Q decode) codes (d, ?k, w_console w) = Inr (d1, k1, w_console w1) \<and>
      KEY_QUEUE (w_keyboard w1) = KEY_QUEUE k1 \<and> w_log w1 = w_log w \<and>
      awaiting_key capT conT cap con slot i d1 (e1, sc, w1)"
  proof (cases codes)
    case Nil
    then show ?thesis
      using idle_turn [OF T Cons.prems(1), of ?poll] Cons.prems(1)
      by (intro exI [of _ e] exI [of _ w] exI [of _ d] exI [of _ ?k]) simp
  next
    case (Cons c cs)
    have len: "length (c # cs) \<le> SCANCODE_QUEUE_CAPACITY" using Cons.prems(2) [of codes] Cons by simp
    obtain qT q s where b: "for_res (key_irq T Q W) (c # cs) (e, sc, w) =
        Inr (e\<lparr>task_queue := qT\<rparr>, sc, w\<lparr>w_keyboard := with_cells (Some q) s ?k\<rparr>)"
      "conT qT = [i]" "capT qT = capT (task_queue e)" "con q = c # cs" "cap q = SCANCODE_QUEUE_CAPACITY"
      using key_burst [OF T Q W Cons.prems(1) len] by blast
    note st = Cons.prems(1) [unfolded awaiting_key_def split]
    obtain e1 w1 d1 k1 where r: "run_turn T ?poll (e\<lparr>task_queue := qT\<rparr>, sc, w\<lparr>w_keyboard := with_cells (Some q) s ?k\<rparr>) =
        Some (Inr ((e1, sc, w1), EnableAndHlt))"
      "for_res (process_scancode Q decode) (c # cs) (d, with_cells (Some q) s ?k, w_console w) = Inr (d1, k1, w_console w1)"
      "KEY_QUEUE (w_keyboard w1) = KEY_QUEUE k1" "w_log w1 = w_log w"
      "awaiting_key capT conT cap con slot i d1 (e1, sc, w1)"
      using keyboard_turn [OF T Q W, of "e\<lparr>task_queue := qT\<rparr>" i d "w\<lparr>w_keyboard := with_cells (Some q) s ?k\<rparr>" q decoder decode sc]
        st b(2-) len by (auto simp: key_queue_ascii_def)
    obtain k2 where "for_res (process_scancode Q decode) (c # cs) (d, ?k, w_console w) = Inr (d1, k2, w_console w1)"
      "KEY_QUEUE k2 = KEY_QUEUE k1"
      using r(2) for_process_cells [of Q decode "c # cs" d s "Some q" ?k "w_console w"]
      by (auto simp: bind_res_eq_Inr simp del: for_res.simps)
    then show ?thesis
      using r b(1) Cons by (intro exI [of _ e1] exI [of _ w1] exI [of _ d1] exI [of _ k2]) simp
  qed
  then obtain e1 w1 d1 k1 where t: "session T Q W ?poll (codes # bursts) (e, sc, w) = session T Q W ?poll bursts (e1, sc, w1)"
      "for_res (process_scancode Q decode) codes (d, ?k, w_console w) = Inr (d1, k1, w_console w1)"
      "KEY_QUEUE (w_keyboard w1) = KEY_QUEUE k1" "w_log w1 = w_log w"
      "awaiting_key capT conT cap con slot i d1 (e1, sc, w1)"
    by blast
  have "w_keyboard w1 = with_cells (SCANCODE_QUEUE (w_keyboard w1)) (WAKER (w_keyboard w1)) k1"
    using t(3) by (cases "w_keyboard w1"; cases k1) simp
  with Cons.IH [OF t(5)] Cons.prems(2) t(1,2,4) show ?case
    using for_process_cells [of Q decode "concat bursts" d1 "WAKER (w_keyboard w1)" "SCANCODE_QUEUE (w_keyboard w1)" k1 "w_console w1"]
    by (auto simp: for_res_append bind_res_eq_Inr)
qed

section \<open>The first turn\<close>

lemma spawn_startup_tasks_ok:
  assumes "array_queue T capT conT"
  obtains e where
    "spawn_startup_tasks T n sc = Inr (n + 2, e, note_task_spawned (note_task_spawned sc))"
    and "fmlookup (tasks e) =
      [n \<mapsto> \<lparr>task_id = n, future = ExampleTask\<rparr>, n + 1 \<mapsto> \<lparr>task_id = n + 1, future = PrintKeypresses None\<rparr>]"
    and "conT (task_queue e) = [n, n + 1]" and "0 < capT (task_queue e)"
    and "waker_cache e = fmempty" and "started_tasks e = {||}"
proof -
  let ?q = "q_new T TASK_QUEUE_CAPACITY"
  have q: "conT ?q = []" "capT ?q = 100"
    using array_queue.new_contents [OF assms, of TASK_QUEUE_CAPACITY] by (simp_all add: TASK_QUEUE_CAPACITY_def)
  have "length (conT ?q) < capT ?q" using q by simp
  then obtain q1 where q1: "q_push T n ?q = Some q1" "conT q1 = conT ?q @ [n]" "capT q1 = capT ?q"
    by (rule array_queue.pushE [OF assms])
  have "length (conT q1) < capT q1" using q q1 by simp
  then obtain q2 where q2: "q_push T (n + 1) q1 = Some q2" "conT q2 = conT q1 @ [n + 1]" "capT q2 = capT q1"
    by (rule array_queue.pushE [OF assms])
  let ?ts = "fmupd (n + 1) \<lparr>task_id = n + 1, future = PrintKeypresses None\<rparr>
    (fmupd n \<lparr>task_id = n, future = ExampleTask\<rparr> fmempty)"
  let ?e = "\<lparr>tasks = ?ts, task_queue = q2, waker_cache = fmempty, started_tasks = {||}\<rparr>"
  have "spawn_startup_tasks T n sc = Inr (n + 2, ?e, note_task_spawned (note_task_spawned sc))"
    using q1(1) q2(1)
    by (simp add: spawn_startup_tasks_def CoopExecutor_new_def Task_new_def TaskId_new_def spawn_task_def Let_def)
  moreover have "fmlookup ?ts = [n \<mapsto> \<lparr>task_id = n, future = ExampleTask\<rparr>,
      n + 1 \<mapsto> \<lparr>task_id = n + 1, future = PrintKeypresses None\<rparr>]"
    by (auto simp: fun_eq_iff)
  ultimately show ?thesis using q q1 q2 by (intro that [of ?e]) simp_all
qed

lemma example_turn:
  assumes T: "array_queue T capT conT"
    and t: "fmlookup (tasks e) i = Some \<lparr>task_id = i, future = ExampleTask\<rparr>"
    and q: "conT (task_queue e) = i # is"
  obtains tq where "conT tq = is" and "capT tq = capT (task_queue e)"
    and "run_ready_tasks T (startup_poll Q W decoder decode) (e, sc, w) =
      run_ready_tasks T (startup_poll Q W decoder decode)
        (e\<lparr>task_queue := tq, tasks := fmdrop i (tasks e), waker_cache := fmdrop i (waker_cache e),
           started_tasks := finsert i (started_tasks e) |-| {|i|}\<rparr>, note_task_completed sc, example_task w)"
proof -
  obtain tq where p: "q_pop T (task_queue e) = Some (i, tq)" "conT tq = is" "capT tq = capT (task_queue e)"
    using q_pop_Cons [OF T q] by metis
  have "run_one T (startup_poll Q W decoder decode) (e, sc, w) =
      Inr (Some (e\<lparr>task_queue := tq, tasks := fmdrop i (tasks e), waker_cache := fmdrop i (waker_cache e),
           started_tasks := finsert i (started_tasks e) |-| {|i|}\<rparr>, note_task_completed sc, example_task w))"
    using p(1) t by (cases e) (simp add: run_one_def startup_poll_def Let_def fmdrop_fmupd_same)
  then have "run_ready_tasks T (startup_poll Q W decoder decode) (e, sc, w) =
      run_ready_tasks T (startup_poll Q W decoder decode)
        (e\<lparr>task_queue := tq, tasks := fmdrop i (tasks e), waker_cache := fmdrop i (waker_cache e),
           started_tasks := finsert i (started_tasks e) |-| {|i|}\<rparr>, note_task_completed sc, example_task w)"
    by (subst run_ready_tasks.simps) simp
  then show ?thesis by (rule that [OF p(2,3)])
qed

lemma first_turn:
  fixes e :: "('d startup_future, 't) CoopExecutor" and decoder :: 'd
  assumes T: "array_queue T capT conT" and Q: "array_queue Q cap con" and W: "atomic_waker W slot"
    and k: "SCANCODE_QUEUE (w_keyboard w) = None" "KEY_QUEUE (w_keyboard w) = None"
    and v: "vga_wf (w_console w)"
    and s: "spawn_startup_tasks T n sc = Inr (n', e, sc1)"
  shows "\<exists>e' sc' w'. run_turn T (startup_poll Q W decoder decode) (e, sc1, w) =
      Some (Inr ((e', sc', w'), EnableAndHlt)) \<and>
    awaiting_key capT conT cap con slot (n + 1) decoder (e', sc', w') \<and>
    sc' = note_task_completed sc1 \<and> w_console w' = w_console w \<and>
    KEY_QUEUE (w_keyboard w') = Some (q_new Q KEY_QUEUE_CAPACITY) \<and> w_log w' = w_log (example_task w)"
proof -
  obtain e0 :: "('d startup_future, 't) CoopExecutor" where
    e0: "spawn_startup_tasks T n sc = Inr (n + 2, e0, note_task_spawned (note_task_spawned sc))"
    and tasks: "fmlookup (tasks e0) =
      [n \<mapsto> \<lparr>task_id = n, future = ExampleTask\<rparr>, n + 1 \<mapsto> \<lparr>task_id = n + 1, future = PrintKeypresses None\<rparr>]"
    and q: "conT (task_queue e0) = [n, n + 1]" "0 < capT (task_queue e0)"
    and rest: "waker_cache e0 = fmempty" "started_tasks e0 = {||}"
    by (rule spawn_startup_tasks_ok [OF T])
  have e: "e0 = e" using e0 s by simp
  have t: "fmlookup (tasks e0) n = Some \<lparr>task_id = n, future = ExampleTask\<rparr>" using tasks by simp
  obtain tq where tq: "conT tq = [n + 1]" "capT tq = capT (task_queue e0)"
    and run: "run_ready_tasks T (startup_poll Q W decoder decode) (e0, sc1, w) =
      run_ready_tasks T (startup_poll Q W decoder decode)
        (e0\<lparr>task_queue := tq, tasks := fmdrop n (tasks e0), waker_cache := fmdrop n (waker_cache e0),
           started_tasks := finsert n (started_tasks e0) |-| {|n|}\<rparr>, note_task_completed sc1, example_task w)"
    by (rule example_turn [OF T t q(1)])
  let ?e = "e0\<lparr>task_queue := tq, tasks := fmdrop n (tasks e0), waker_cache := fmdrop n (waker_cache e0),
           started_tasks := finsert n (started_tasks e0) |-| {|n|}\<rparr>"
  let ?k = "(w_keyboard w)\<lparr>SCANCODE_QUEUE := Some (q_new Q SCANCODE_QUEUE_CAPACITY),
    KEY_QUEUE := Some (q_new Q KEY_QUEUE_CAPACITY)\<rparr>"
  let ?k' = "?k\<lparr>WAKER := w_register W (n + 1) (WAKER ?k)\<rparr>"
  have new: "con (q_new Q SCANCODE_QUEUE_CAPACITY) = []" "cap (q_new Q SCANCODE_QUEUE_CAPACITY) = SCANCODE_QUEUE_CAPACITY"
    "con (q_new Q KEY_QUEUE_CAPACITY) = []"
    using array_queue.new_contents [OF Q, of SCANCODE_QUEUE_CAPACITY] array_queue.new_contents [OF Q, of KEY_QUEUE_CAPACITY]
    by (simp_all add: SCANCODE_QUEUE_CAPACITY_def KEY_QUEUE_CAPACITY_def)
  have "poll_next Q W (n + 1) ?k = Inr (Polled None, ?k')"
    using new(1) by (intro poll_next_pending [OF Q, where q = "q_new Q SCANCODE_QUEUE_CAPACITY"]) simp_all
  then have pk: "print_keypresses Q W decoder decode (n + 1) None (w_keyboard (example_task w), w_console (example_task w)) =
      Inr (decoder, ?k', w_console w)"
    using k by (simp add: print_keypresses_def ScancodeStream_new_def example_task_def)
  have "fmlookup (tasks ?e) = [n + 1 \<mapsto> \<lparr>task_id = n + 1, future = PrintKeypresses None\<rparr>]"
    using tasks by (auto simp: fun_eq_iff)
  from keypress_task_turn [OF T this _ _ _ pk, where q' = "q_new Q SCANCODE_QUEUE_CAPACITY" and con = con
      and cap = cap and slot = slot and sc = "note_task_completed sc1"]
  obtain e' where "run_ready_tasks T (startup_poll Q W decoder decode) (?e, note_task_completed sc1, example_task w) =
      Some (Inr (e', note_task_completed sc1, (example_task w)\<lparr>w_keyboard := ?k', w_console := w_console w\<rparr>))"
    and aw: "awaiting_key capT conT cap con slot (n + 1) decoder
      (e', note_task_completed sc1, (example_task w)\<lparr>w_keyboard := ?k', w_console := w_console w\<rparr>)"
    using tq q(2) rest(1) new v by (auto simp: atomic_waker.register_slot [OF W] key_queue_ascii_def)
  then have "run_turn T (startup_poll Q W decoder decode) (e, sc1, w) =
      Some (Inr ((e', note_task_completed sc1, (example_task w)\<lparr>w_keyboard := ?k', w_console := w_console w\<rparr>), EnableAndHlt))"
    using run e by (intro turn_of_run [OF T _ aw]) simp
  then show ?thesis using aw by (auto simp: example_task_def)
qed

section \<open>Properties\<close>


text \<open>A decoder that knows the two codes of the key \<open>a\<close>, pressed and released.\<close>

definition key_a :: "u8 \<Rightarrow> unit \<Rightarrow> unit \<times> DecodedKey option" where
  "key_a code d = (d, if code = 0x1e then Some (Unicode 0x61) else None)"

definition blank_world :: "(nat \<times> u8 list, TaskId option) world" where
  "blank_world = \<lparr>w_keyboard = keyboard_init option_waker,
    w_console = WRITER_init (replicate 25 (blank_row 7)), w_log = \<lparr>sent = [], DROPPED_MESSAGES = 0\<rparr>\<rparr>"


end
