(* ===== verification/Heap_Demo.thy ===== *)
theory Heap_Demo
  imports Fixed_Size_Block
begin

text \<open>
  The heap smoke test of the boot sequence (\<open>sample_heap_allocations\<close> in \<open>src/src/demos.rs\<close>) on
  the kernel's allocator. \<open>Box\<close>, \<open>Vec\<close> and \<open>Rc\<close> are the standard library's: an allocation that
  returns null aborts, a full vector grows to the larger of twice its capacity, the length it
  needs and 4, through the default \<open>GlobalAlloc::realloc\<close>, which allocates, copies and frees, and
  the last owner of a reference-counted block frees it. Values drop in the reverse order of
  their declaration.
\<close>

section \<open>Boxes, vectors and shared values\<close>

definition alloc_or_abort ::
  "FixedSizeBlockAllocator \<Rightarrow> Layout \<Rightarrow> (FixedSizeBlockAllocator \<times> usize) res" where
  "alloc_or_abort a l =
    bind_res (fsb_alloc a l) (\<lambda>(a, p).
    if p = 0 then Inl (Panicked ''memory allocation failed'') else Inr (a, p))"

definition realloc ::
  "FixedSizeBlockAllocator \<Rightarrow> usize \<Rightarrow> Layout \<Rightarrow> usize \<Rightarrow> (FixedSizeBlockAllocator \<times> usize) res" where
  "realloc a p l new_size =
    bind_res (fsb_alloc a (l\<lparr>layout_size := new_size\<rparr>)) (\<lambda>(a, q).
    if q = 0 then Inr (a, q) else bind_res (fsb_dealloc a p l) (\<lambda>a. Inr (a, q)))"

record i32_vec =
  vec_ptr :: usize
  vec_cap :: usize
  vec_items :: "int list"

definition Vec_new :: i32_vec where
  "Vec_new = \<lparr>vec_ptr = 4, vec_cap = 0, vec_items = []\<rparr>"

definition vec_layout :: "usize \<Rightarrow> Layout res" where
  "vec_layout cap = expect (from_size_align (4 * cap) 4) ''capacity overflow''"

definition vec_grow ::
  "FixedSizeBlockAllocator \<times> i32_vec \<Rightarrow> (FixedSizeBlockAllocator \<times> i32_vec) res" where
  "vec_grow = (\<lambda>(a, v).
    let cap = max (max (2 * vec_cap v) (length (vec_items v) + 1)) 4 in
    bind_res (vec_layout cap) (\<lambda>l.
    bind_res
      (if vec_cap v = 0 then fsb_alloc a l
       else bind_res (vec_layout (vec_cap v)) (\<lambda>old. realloc a (vec_ptr v) old (layout_size l)))
      (\<lambda>(a, p).
    if p = 0 then Inl (Panicked ''memory allocation failed'')
    else Inr (a, v\<lparr>vec_ptr := p, vec_cap := cap\<rparr>))))"

definition vec_push ::
  "int \<Rightarrow> FixedSizeBlockAllocator \<times> i32_vec \<Rightarrow> (FixedSizeBlockAllocator \<times> i32_vec) res" where
  "vec_push x = (\<lambda>(a, v).
    bind_res (if length (vec_items v) = vec_cap v then vec_grow (a, v) else Inr (a, v)) (\<lambda>(a, v).
    Inr (a, v\<lparr>vec_items := vec_items v @ [x]\<rparr>)))"

definition vec_drop :: "i32_vec \<Rightarrow> FixedSizeBlockAllocator \<Rightarrow> FixedSizeBlockAllocator res" where
  "vec_drop v a =
    (if vec_cap v = 0 then Inr a
     else bind_res (vec_layout (vec_cap v)) (\<lambda>l. fsb_dealloc a (vec_ptr v) l))"

text \<open>A shared array of three \<open>i32\<close> behind its strong and weak counts.\<close>

definition rc_layout :: Layout where
  "rc_layout = \<lparr>layout_size = 32, layout_align = 8\<rparr>"

record rc =
  rc_ptr :: usize
  strong_count :: usize

definition Rc_new :: "FixedSizeBlockAllocator \<Rightarrow> (FixedSizeBlockAllocator \<times> rc) res" where
  "Rc_new a = bind_res (alloc_or_abort a rc_layout) (\<lambda>(a, p). Inr (a, \<lparr>rc_ptr = p, strong_count = 1\<rparr>))"

definition rc_clone :: "rc \<Rightarrow> rc" where
  "rc_clone r = r\<lparr>strong_count := strong_count r + 1\<rparr>"

definition rc_drop :: "FixedSizeBlockAllocator \<Rightarrow> rc \<Rightarrow> (FixedSizeBlockAllocator \<times> rc) res" where
  "rc_drop a r =
    (let r = r\<lparr>strong_count := strong_count r - 1\<rparr> in
     if strong_count r = 0 then bind_res (fsb_dealloc a (rc_ptr r) rc_layout) (\<lambda>a. Inr (a, r))
     else Inr (a, r))"

definition box_layout :: Layout where
  "box_layout = \<lparr>layout_size = 4, layout_align = 4\<rparr>"

definition sample_heap_allocations ::
  "FixedSizeBlockAllocator \<Rightarrow> (FixedSizeBlockAllocator \<times> usize \<times> usize) res" where
  "sample_heap_allocations a =
    bind_res (alloc_or_abort a box_layout) (\<lambda>(a, heap_value).
    bind_res (for_res vec_push (map int [0..<500]) (a, Vec_new)) (\<lambda>(a, vec).
    bind_res (Rc_new a) (\<lambda>(a, reference_counted).
    let cloned_reference = rc_clone reference_counted;
        before = strong_count cloned_reference in
    bind_res (rc_drop a cloned_reference) (\<lambda>(a, cloned_reference).
    let after = strong_count cloned_reference in
    bind_res (rc_drop a cloned_reference) (\<lambda>(a, _).
    bind_res (vec_drop vec a) (\<lambda>a.
    bind_res (fsb_dealloc a heap_value box_layout) (\<lambda>a.
    Inr (a, before, after))))))))"

section \<open>The heap invariant\<close>

text \<open>
  Each operation keeps the allocator's invariant, whatever else is live: \<open>vec_inv L a v\<close> says that
  \<open>a\<close> serves the blocks of \<open>L\<close> and the block of the vector \<open>v\<close>, if it has one.
\<close>

definition vec_inv :: "live \<Rightarrow> FixedSizeBlockAllocator \<Rightarrow> i32_vec \<Rightarrow> bool" where
  "vec_inv L a v \<longleftrightarrow>
    (if vec_cap v = 0 then fsb_inv a L
     else L (vec_ptr v) = None \<and> fsb_inv a (L(vec_ptr v \<mapsto> \<lparr>layout_size = 4 * vec_cap v, layout_align = 4\<rparr>)))"

lemma vec_layout_ok: "vec_layout cap = Inr l \<Longrightarrow> 0 < cap \<Longrightarrow>
    l = \<lparr>layout_size = 4 * cap, layout_align = 4\<rparr> \<and> layout_ok l"
  by (auto simp: vec_layout_def expect_def layout_ok_def from_size_align_def split: option.splits if_splits)

lemma dealloc_inv:
  assumes "fsb_inv a L" and "L p = Some l" and "fsb_dealloc a p l = Inr a'"
  shows "fsb_inv a' (L(p := None))"
  using fsb.dealloc_live [OF assms(1,2)] assms(3) by auto

lemma vec_grow_inv:
  assumes "vec_inv L a v" and "vec_grow (a, v) = Inr (a', v')"
  shows "vec_inv L a' v' \<and> 0 < vec_cap v'"
proof -
  let ?cap = "max (max (2 * vec_cap v) (length (vec_items v) + 1)) 4"
  let ?l = "\<lparr>layout_size = 4 * ?cap, layout_align = 4\<rparr>" and ?old = "\<lparr>layout_size = 4 * vec_cap v, layout_align = 4\<rparr>"
  have max: "0 < ?cap" by simp
  show ?thesis
  proof (cases "vec_cap v = 0")
    case True
    obtain l q where l: "vec_layout ?cap = Inr l" and q: "q \<noteq> 0" "v' = v\<lparr>vec_ptr := q, vec_cap := ?cap\<rparr>"
      and a: "fsb_alloc a l = Inr (a', q)"
      using assms(2) True by (auto simp: vec_grow_def Let_def bind_res_eq_Inr split: if_splits)
    note ok = vec_layout_ok [OF l max]
    have "fsb_inv a L" using assms(1) True by (simp add: vec_inv_def)
    from fsb.alloc_fresh [OF this conjunct2 [OF ok] a q(1)]
    have "L q = None \<and> fsb_inv a' (L(q \<mapsto> ?l))" unfolding conjunct1 [OF ok] .
    then show ?thesis using q(2) by (simp add: vec_inv_def)
  next
    case False
    then have inv: "L (vec_ptr v) = None" "fsb_inv a (L(vec_ptr v \<mapsto> ?old))"
      using assms(1) by (simp_all add: vec_inv_def)
    obtain l q a1 old where l: "vec_layout ?cap = Inr l" and q: "q \<noteq> 0" "v' = v\<lparr>vec_ptr := q, vec_cap := ?cap\<rparr>"
      and a1: "vec_layout (vec_cap v) = Inr old" "fsb_alloc a (old\<lparr>layout_size := layout_size l\<rparr>) = Inr (a1, q)"
        "fsb_dealloc a1 (vec_ptr v) old = Inr a'"
      using assms(2) False by (auto simp: vec_grow_def realloc_def Let_def bind_res_eq_Inr split: if_splits)
    have old: "old = ?old" using vec_layout_ok [OF a1(1)] False by simp
    have ok: "l = ?l" "layout_ok ?l" using vec_layout_ok [OF l max] by metis+
    have alloc: "fsb_alloc a ?l = Inr (a1, q)" using a1(2) old ok(1) by simp
    have f: "(L(vec_ptr v \<mapsto> ?old)) q = None \<and> fsb_inv a1 ((L(vec_ptr v \<mapsto> ?old))(q \<mapsto> ?l))"
      by (rule fsb.alloc_fresh [OF inv(2) ok(2) alloc q(1)])
    then have ne: "q \<noteq> vec_ptr v" by auto
    have "fsb_inv a' ((L(vec_ptr v \<mapsto> ?old))(q \<mapsto> ?l, vec_ptr v := None))"
      using f ne a1(3) old by (intro dealloc_inv [of a1 _ _ ?old]) auto
    moreover have "(L(vec_ptr v \<mapsto> ?old))(q \<mapsto> ?l, vec_ptr v := None) = L(q \<mapsto> ?l)"
      using inv(1) ne by (auto simp: fun_eq_iff)
    ultimately show ?thesis using f ne q(2) by (simp add: vec_inv_def)
  qed
qed

lemma vec_push_inv:
  assumes "vec_inv L a v" and "vec_push x (a, v) = Inr (a', v')"
  shows "vec_inv L a' v'"
  using assms vec_grow_inv [of L a v] by (auto simp: vec_push_def bind_res_eq_Inr vec_inv_def split: if_splits)

lemma vec_pushes_inv:
  assumes "vec_inv L a v" and "for_res vec_push xs (a, v) = Inr (a', v')"
  shows "vec_inv L a' v'"
  using assms
proof (induction xs arbitrary: a v)
  case (Cons x xs)
  then show ?case by (fastforce simp: bind_res_eq_Inr dest: vec_push_inv)
qed simp

lemma vec_drop_inv:
  assumes "vec_inv L a v" and "vec_drop v a = Inr a'"
  shows "fsb_inv a' L"
proof (cases "vec_cap v = 0")
  case False
  let ?l = "\<lparr>layout_size = 4 * vec_cap v, layout_align = 4\<rparr>"
  have inv: "L (vec_ptr v) = None" "fsb_inv a (L(vec_ptr v \<mapsto> ?l))" using assms(1) False by (simp_all add: vec_inv_def)
  have "fsb_dealloc a (vec_ptr v) ?l = Inr a'"
    using assms(2) False vec_layout_ok [of "vec_cap v"] by (auto simp: vec_drop_def bind_res_eq_Inr)
  then have "fsb_inv a' ((L(vec_ptr v \<mapsto> ?l))(vec_ptr v := None))" by (intro dealloc_inv [OF inv(2)]) simp_all
  then show ?thesis using inv(1) by (simp add: fun_upd_idem)
qed (use assms in \<open>simp add: vec_inv_def vec_drop_def\<close>)

lemma alloc_or_abort_inv:
  assumes "fsb_inv a L" and "layout_ok l" and "alloc_or_abort a l = Inr (a', p)"
  shows "L p = None" and "fsb_inv a' (L(p \<mapsto> l))"
  using fsb.alloc_fresh [OF assms(1,2)] assms(3)
  by (auto simp: alloc_or_abort_def bind_res_eq_Inr split: if_splits)

lemma sample_heap_inv:
  assumes "fsb_inv a L" and "sample_heap_allocations a = Inr (a', before, after)"
  shows "fsb_inv a' L \<and> before = 2 \<and> after = 1"
proof -
  have ok: "layout_ok box_layout" "layout_ok rc_layout"
    by (simp_all add: box_layout_def rc_layout_def layout_ok_def from_size_align_def is_power_of_two_iff)
      (rule exI [of _ 2], simp, rule exI [of _ 3], simp)
  obtain a1 p a2 v a3 q a4 a5 where
    s: "alloc_or_abort a box_layout = Inr (a1, p)" "for_res vec_push (map int [0..<500]) (a1, Vec_new) = Inr (a2, v)"
      "alloc_or_abort a2 rc_layout = Inr (a3, q)" "fsb_dealloc a3 q rc_layout = Inr a4" "vec_drop v a4 = Inr a5"
      "fsb_dealloc a5 p box_layout = Inr a'" and counts: "before = 2 \<and> after = 1"
    using assms(2)
    by (auto simp: sample_heap_allocations_def Rc_new_def rc_clone_def rc_drop_def Let_def bind_res_eq_Inr
        simp del: upt.simps)
  let ?L = "L(p \<mapsto> box_layout)"
  note box = alloc_or_abort_inv [OF assms(1) ok(1) s(1)]
  have "vec_inv ?L a1 Vec_new" using box(2) by (simp add: vec_inv_def Vec_new_def)
  then have v: "vec_inv ?L a2 v" using s(2) by (rule vec_pushes_inv)
  have "vec_inv ?L a4 v"
  proof -
    define M where "M = (if vec_cap v = 0 then ?L else ?L(vec_ptr v \<mapsto> \<lparr>layout_size = 4 * vec_cap v, layout_align = 4\<rparr>))"
    have M: "fsb_inv a2 M" using v by (simp add: vec_inv_def M_def)
    note rc = alloc_or_abort_inv [OF M ok(2) s(3)]
    have "fsb_inv a4 ((M(q \<mapsto> rc_layout))(q := None))" using rc(2) s(4) by (intro dealloc_inv) simp_all
    then have "fsb_inv a4 M" using rc(1) by (simp add: fun_upd_idem)
    with v show ?thesis by (cases "vec_cap v = 0") (simp_all add: vec_inv_def M_def)
  qed
  then have "fsb_inv a5 ?L" using s(5) by (rule vec_drop_inv)
  then have "fsb_inv a' (?L(p := None))" using s(6) by (intro dealloc_inv) simp_all
  then show ?thesis using box(1) counts by (simp add: fun_upd_idem)
qed

section \<open>Growth\<close>

lemma vec_fill:
  assumes "length (vec_items v) + length xs \<le> vec_cap v"
  shows "for_res vec_push xs (a, v) = Inr (a, v\<lparr>vec_items := vec_items v @ xs\<rparr>)"
  using assms by (induction xs arbitrary: v) (simp_all add: vec_push_def)

lemma vec_grow_fill:
  assumes "length (vec_items v) = vec_cap v" and "xs \<noteq> []"
    and "vec_grow (a, v) = Inr (a', v\<lparr>vec_ptr := p, vec_cap := cap\<rparr>)"
    and "vec_cap v + length xs \<le> cap"
  shows "for_res vec_push xs (a, v) =
    Inr (a', v\<lparr>vec_ptr := p, vec_cap := cap, vec_items := vec_items v @ xs\<rparr>)"
proof -
  obtain y ys where xs: "xs = y # ys" using assms(2) by (cases xs) auto
  let ?v = "v\<lparr>vec_ptr := p, vec_cap := cap, vec_items := vec_items v @ [y]\<rparr>"
  have "vec_push y (a, v) = Inr (a', ?v)" using assms(1,3) by (simp add: vec_push_def)
  moreover have "for_res vec_push ys (a', ?v) = Inr (a', ?v\<lparr>vec_items := vec_items ?v @ ys\<rparr>)"
    by (rule vec_fill) (use assms(1,4) xs in simp)
  ultimately show ?thesis using xs by simp
qed

text \<open>
  The states of the heap along the test: the blocks of 16 to below \<open>b\<close> bytes are cached, the
  vector's block of \<open>b\<close> bytes is live, and the heap is free from \<open>2 * b\<close> on.
\<close>

definition demo_cache :: "usize \<Rightarrow> ListNode list list" where
  "demo_cache b =
    map (\<lambda>s. if 16 \<le> s \<and> s < b then [\<lparr>node_start = HEAP_START + s, node_size = s\<rparr>] else []) BLOCK_SIZES"

definition demo_heap :: "usize \<Rightarrow> ListNode list \<Rightarrow> FixedSizeBlockAllocator" where
  "demo_heap b free = \<lparr>list_heads = demo_cache b,
    fallback_allocator = \<lparr>ll_head = free, ll_heap_start = HEAP_START, ll_heap_end = HEAP_START + HEAP_SIZE\<rparr>\<rparr>"

abbreviation free_from :: "usize \<Rightarrow> ListNode list" where
  "free_from n \<equiv> [\<lparr>node_start = HEAP_START + n, node_size = HEAP_SIZE - n\<rparr>]"

lemmas demo_eval = demo_heap_def demo_cache_def HEAP_START_def HEAP_SIZE_def fsb_eval ll_eval

lemma init_demo: "fsb_init fsb_empty HEAP_START HEAP_SIZE = Inr (demo_heap 0 (free_from 0))"
  by (simp add: demo_eval)

lemma box_demo:
  "fsb_alloc (demo_heap 0 (free_from 0)) box_layout = Inr (demo_heap 0 (free_from 16), HEAP_START)"
  by (simp add: demo_eval box_layout_def)

lemma first_grow:
  "vec_grow (demo_heap 0 (free_from 16), Vec_new) =
    Inr (demo_heap 16 (free_from 32), Vec_new\<lparr>vec_ptr := HEAP_START + 16, vec_cap := 4\<rparr>)"
  by (simp add: demo_eval vec_grow_def Vec_new_def vec_layout_def)

lemma next_grow:
  assumes "vec_ptr v = HEAP_START + b" and "vec_cap v = b div 4" and "length (vec_items v) = vec_cap v"
    and "b \<in> {16, 32, 64, 128, 256, 512, 1024}"
  shows "vec_grow (demo_heap b (free_from (2 * b)), v) =
    Inr (demo_heap (2 * b) (free_from (4 * b)), v\<lparr>vec_ptr := HEAP_START + 2 * b, vec_cap := b div 2\<rparr>)"
  using assms(4)
proof (elim insertE emptyE)
qed (use assms(1-3) in \<open>simp_all add: demo_eval vec_grow_def vec_layout_def realloc_def\<close>)

definition demo_vec :: "usize \<Rightarrow> nat \<Rightarrow> i32_vec" where
  "demo_vec b n = \<lparr>vec_ptr = HEAP_START + b, vec_cap = b div 4, vec_items = map int [0..<n]\<rparr>"

definition pushed :: "usize \<Rightarrow> nat \<Rightarrow> bool" where
  "pushed b n \<longleftrightarrow>
    for_res vec_push (map int [0..<n]) (demo_heap 0 (free_from 16), Vec_new) =
      Inr (demo_heap b (free_from (2 * b)), demo_vec b n)"

lemma pushed_first: "pushed 16 4"
proof -
  have "for_res vec_push (map int [0..<4]) (demo_heap 0 (free_from 16), Vec_new) =
      Inr (demo_heap 16 (free_from 32),
        Vec_new\<lparr>vec_ptr := HEAP_START + 16, vec_cap := 4, vec_items := vec_items Vec_new @ map int [0..<4]\<rparr>)"
    by (rule vec_grow_fill [OF _ _ first_grow]) (simp_all add: Vec_new_def)
  then show ?thesis by (simp add: pushed_def demo_vec_def Vec_new_def)
qed

lemma pushed_next:
  assumes "pushed b (b div 4)" and "b \<in> {16, 32, 64, 128, 256, 512, 1024}"
    and "b div 4 < n" and "n \<le> b div 2"
  shows "pushed (2 * b) n"
proof -
  let ?v = "demo_vec b (b div 4)" and ?xs = "map int [b div 4..<n]"
  have "vec_grow (demo_heap b (free_from (2 * b)), ?v) =
      Inr (demo_heap (2 * b) (free_from (4 * b)), ?v\<lparr>vec_ptr := HEAP_START + 2 * b, vec_cap := b div 2\<rparr>)"
    by (rule next_grow [OF _ _ _ assms(2)]) (simp_all add: demo_vec_def)
  then have "for_res vec_push ?xs (demo_heap b (free_from (2 * b)), ?v) =
      Inr (demo_heap (2 * b) (free_from (4 * b)),
        ?v\<lparr>vec_ptr := HEAP_START + 2 * b, vec_cap := b div 2, vec_items := vec_items ?v @ ?xs\<rparr>)"
    using assms(3,4) by (intro vec_grow_fill) (simp_all add: demo_vec_def)
  moreover have "map int [0..<n] = map int [0..<b div 4] @ ?xs"
    using upt_add_eq_append [of 0 "b div 4" "n - b div 4"] assms(3) by (simp flip: map_append)
  moreover have "2 * b div 4 = b div 2" by simp
  ultimately show ?thesis
    using assms(1) by (simp add: pushed_def for_res_append demo_vec_def)
qed

lemma pushed_500: "pushed 2048 500"
proof -
  have "pushed 32 8" using pushed_next [of 16 8] pushed_first by simp
  then have "pushed 64 16" using pushed_next [of 32 16] by simp
  then have "pushed 128 32" using pushed_next [of 64 32] by simp
  then have "pushed 256 64" using pushed_next [of 128 64] by simp
  then have "pushed 512 128" using pushed_next [of 256 128] by simp
  then have "pushed 1024 256" using pushed_next [of 512 256] by simp
  then show ?thesis using pushed_next [of 1024 500] by simp
qed

text \<open>The shared value takes the cached block of 32 bytes and gives it back.\<close>

definition without_32 :: "ListNode list list \<Rightarrow> ListNode list list" where
  "without_32 cached = cached[2 := []]"

lemma rc_demo:
  "fsb_alloc (demo_heap 2048 (free_from 4096)) rc_layout =
    Inr ((demo_heap 2048 (free_from 4096))\<lparr>list_heads := without_32 (demo_cache 2048)\<rparr>, HEAP_START + 32)"
  "fsb_dealloc ((demo_heap 2048 (free_from 4096))\<lparr>list_heads := without_32 (demo_cache 2048)\<rparr>) (HEAP_START + 32) rc_layout =
    Inr (demo_heap 2048 (free_from 4096))"
  by (simp_all add: demo_eval rc_layout_def without_32_def)

lemma drop_demo:
  "vec_drop (demo_vec 2048 500) (demo_heap 2048 (free_from 4096)) = Inr (demo_heap 4096 (free_from 4096))"
  "fsb_dealloc (demo_heap 4096 (free_from 4096)) HEAP_START box_layout =
    Inr (demo_heap 4096 (\<lparr>node_start = HEAP_START, node_size = 16\<rparr> # free_from 4096))"
  by (simp_all add: demo_eval demo_vec_def vec_drop_def vec_layout_def box_layout_def)

definition tested_heap :: FixedSizeBlockAllocator where
  "tested_heap = demo_heap 4096 (\<lparr>node_start = HEAP_START, node_size = 16\<rparr> # free_from 4096)"

lemma stats_demo: "fsb_stats tested_heap = Inr \<lparr>heap_size = HEAP_SIZE, free_bytes = HEAP_SIZE\<rparr>"
  by (simp add: tested_heap_def demo_eval)

lemma smoke_test_ok: "sample_heap_allocations (demo_heap 0 (free_from 0)) = Inr (tested_heap, 2, 1)"
proof -
  have start: "HEAP_START \<noteq> 0" by (simp add: HEAP_START_def)
  have vec: "for_res vec_push (map int [0..<500]) (demo_heap 0 (free_from 16), Vec_new) =
      Inr (demo_heap 2048 (free_from 4096), demo_vec 2048 500)"
    using pushed_500 by (simp add: pushed_def)
  show ?thesis
    by (simp add: tested_heap_def sample_heap_allocations_def alloc_or_abort_def box_demo [simplified] start vec
        Rc_new_def rc_clone_def rc_drop_def rc_demo drop_demo Let_def del: upt.simps)
qed

section \<open>Properties\<close>

text \<open>
  The heap smoke test passes and leaks nothing. On the freshly initialised kernel heap the
  box, the 500 pushes, which move the vector through eight blocks of doubling size, and the
  shared value are all served; the strong count is 2 before and 1 after the first drop; and at
  the end every byte of the heap is free again, the vector's blocks of 16 to 2048 bytes as
  cached blocks of their classes.
\<close>

theorem heap_smoke_test_leaks_nothing:
  "\<exists>a a'. fsb_init fsb_empty HEAP_START HEAP_SIZE = Inr a \<and>
    sample_heap_allocations a = Inr (a', 2, 1) \<and>
    fsb_stats a' = Inr \<lparr>heap_size = HEAP_SIZE, free_bytes = HEAP_SIZE\<rparr> \<and>
    map (map node_size) (list_heads a') = [[], [16], [32], [64], [128], [256], [512], [1024], [2048], []]"
proof -
  have "map (map node_size) (list_heads tested_heap) = [[], [16], [32], [64], [128], [256], [512], [1024], [2048], []]"
    by (simp add: tested_heap_def demo_heap_def demo_cache_def BLOCK_SIZES_def)
  then show ?thesis using stats_demo smoke_test_ok by (intro exI conjI) (rule init_demo)
qed

end
