(* ===== verification/Boot.thy ===== *)
theory Boot
  imports Userland Hardware_Init Boot_Screen Startup_Tasks Heap_Demo
begin

text \<open>
  The boot sequence: \<open>kernel_main\<close> of \<open>src/src/main.rs\<close>, \<open>memory::init\<close> of \<open>src/src/memory.rs\<close>, and the
  test kernel's entry of \<open>src/src/lib.rs\<close>. It composes the hardware initialisation, the page
  tables, the frame allocator, the heap, the banner, the three demos and the executor with its
  startup tasks, up to the loop \<open>executor.run()\<close>, whose turns are those of \<open>Startup_Tasks\<close>.

  The \<open>platform\<close> holds what comes from outside: the operations of the \<open>x86_64\<close> crate, the page
  table register as the bootloader left it, the addresses at which the linker put the thread
  entries, and the heap blocks that the three spawned threads get for their contexts and stacks.
  Log lines go to the serial port only and are not part of this state; interrupts that arrive
  during the sequence are the subject of the transition system of the root theory.
\<close>

section \<open>The model\<close>

record ('m, 'g) platform =
  pf_virt_new :: "usize \<Rightarrow> usize res"
  pf_virt_add :: "usize \<Rightarrow> usize \<Rightarrow> usize res"
  pf_cr3 :: usize
  pf_offset_page_table :: "usize \<Rightarrow> usize \<Rightarrow> 'm"
  pf_gdt_new :: 'g
  pf_add_entry :: "Descriptor \<Rightarrow> 'g \<Rightarrow> ('g \<times> u16) res"
  pf_page_of :: "usize \<Rightarrow> usize"
  pf_page_range :: "usize \<Rightarrow> usize \<Rightarrow> usize list"
  pf_phys_frame :: "usize \<Rightarrow> usize res"
  pf_map_to :: "('m, MonotonicFrameAllocator) map_to"
  pf_report :: "u8 list"
  pf_start :: "u64 \<Rightarrow> memory \<Rightarrow> cpu"
  pf_boxes_a :: "u64 \<times> u64"
  pf_boxes_b :: "u64 \<times> u64"
  pf_boxes_user :: "u64 \<times> u64"
  pf_worker_a :: u64
  pf_worker_b :: u64
  pf_user_entry :: u64

record ('m, 'q, 's, 'd, 't) booted =
  bt_ops :: "hw_op list"
  bt_mapper :: 'm
  bt_frames :: MonotonicFrameAllocator
  bt_kernel :: "('q, 's) kernel"
  bt_next_task :: u64
  bt_executor :: "('d startup_future, 't) CoopExecutor"

definition active_level_4_table :: "('m, 'g) platform \<Rightarrow> usize \<Rightarrow> usize res" where
  "active_level_4_table pf offset = (let phys = pf_cr3 pf in pf_virt_add pf offset phys)"

definition memory_init :: "('m, 'g) platform \<Rightarrow> usize \<Rightarrow> 'm res" where
  "memory_init pf offset =
    bind_res (active_level_4_table pf offset) (\<lambda>level_4_table.
    Inr (pf_offset_page_table pf level_4_table offset))"

definition expect_heap ::
  "('m \<times> 's \<times> FixedSizeBlockAllocator \<times> (MapToError + unit)) res \<Rightarrow> ('m \<times> 's \<times> FixedSizeBlockAllocator) res" where
  "expect_heap r = bind_res r (\<lambda>(m, s, heap, r).
    case r of Inl _ \<Rightarrow> Inl (ExpectFailed ''heap initialization failed'') | Inr _ \<Rightarrow> Inr (m, s, heap))"

text \<open>From the entry to the initialised heap: the part that touches the page tables.\<close>

definition boot_memory ::
  "('m, 'g) platform \<Rightarrow> BootInfo \<Rightarrow> FixedSizeBlockAllocator \<Rightarrow>
    ('m \<times> MonotonicFrameAllocator \<times> FixedSizeBlockAllocator) res" where
  "boot_memory pf boot_info heap =
    bind_res (pf_virt_new pf (physical_memory_offset boot_info)) (\<lambda>phys_mem_offset.
    bind_res (memory_init pf phys_mem_offset) (\<lambda>mapper.
    let frame_allocator = frame_allocator_init (boot_memory_map boot_info) in
    bind_res (pf_virt_new pf 0) (\<lambda>zero.
    bind_res (create_example_mapping (pf_map_to pf) (pf_page_of pf zero) mapper frame_allocator)
      (\<lambda>(mapper, frame_allocator).
    expect_heap (init_heap (pf_page_range pf) (allocate_frame (pf_phys_frame pf)) (pf_map_to pf)
      mapper frame_allocator heap)))))"

text \<open>The end of the sequence: a fresh executor with the two startup tasks.\<close>

definition start_executor ::
  "(TaskId, 't) queue_ops \<Rightarrow> gdt_selectors \<Rightarrow> ('m, MonotonicFrameAllocator, 'q, 's) loader \<Rightarrow>
    ('m, 'q, 's, 'd, 't) booted res" where
  "start_executor T sels l =
    (let k = ld_kernel l in
     bind_res (spawn_startup_tasks T 0 (SCHEDULER (k_thread k))) (\<lambda>(next_id, executor, sc).
     Inr \<lparr>bt_ops = hardware_init sels, bt_mapper = ld_mapper l, bt_frames = ld_frames l,
          bt_kernel = k\<lparr>k_thread := (k_thread k)\<lparr>SCHEDULER := sc\<rparr>\<rparr>,
          bt_next_task = next_id, bt_executor = executor\<rparr>))"

definition kernel_main ::
  "nat \<Rightarrow> (TaskId, 't) queue_ops \<Rightarrow> (u8, 'q) queue_ops \<Rightarrow> ('m, 'g) platform \<Rightarrow> BootInfo \<Rightarrow>
    ('q, 's) kernel \<Rightarrow> ('m, 'q, 's, 'd, 't) booted option res" where
  "kernel_main n T Q pf boot_info k =
    bind_res (GDT_init (pf_gdt_new pf) (pf_add_entry pf)) (\<lambda>(_, sels).
    bind_res (boot_memory pf boot_info (k_heap k)) (\<lambda>(mapper, frame_allocator, heap).
    bind_res (print_banner boot_info (k_console k)) (\<lambda>w.
    bind_res (sample_heap_allocations heap) (\<lambda>(heap, _).
    let k = k\<lparr>k_heap := heap, k_console := w\<rparr> in
    bind_res (threading_demo n (k_memory k) (pf_boxes_a pf) (pf_boxes_b pf) (pf_worker_a pf) (pf_worker_b pf)
        (k_thread k)) (\<lambda>r.
    case r of
      None \<Rightarrow> Inr None
    | Some (m, s) \<Rightarrow>
        let k = k\<lparr>k_memory := m, k_thread := s\<rparr> in
        bind_res (userland_demo (pf_page_of pf) (allocate_frame (pf_phys_frame pf)) (pf_map_to pf) Q process_pages
            (pf_report pf) \<lparr>sel_user_code = ucast (gs_user_code sels), sel_user_data = ucast (gs_user_data sels)\<rparr>
            (pf_start pf) (pf_boxes_user pf) (pf_user_entry pf) n n
            \<lparr>ld_mapper = mapper, ld_frames = frame_allocator, ld_kernel = k\<rparr>) (\<lambda>r.
        case r of
          None \<Rightarrow> Inr None
        | Some l \<Rightarrow>
            bind_res (start_executor T sels l) (\<lambda>b. Inr (Some b))))))))"

text \<open>
  The entry of the test kernel, which runs the tests after the heap has been initialised; their
  outcomes depend on the heap that they find.
\<close>

definition test_kernel_main ::
  "('m, 'g) platform \<Rightarrow> BootInfo \<Rightarrow> FixedSizeBlockAllocator \<Rightarrow> (FixedSizeBlockAllocator \<Rightarrow> test list) \<Rightarrow>
    (u8 list \<times> hw_op list) res" where
  "test_kernel_main pf boot_info heap tests =
    bind_res (GDT_init (pf_gdt_new pf) (pf_add_entry pf)) (\<lambda>(_, sels).
    bind_res (pf_virt_new pf (physical_memory_offset boot_info)) (\<lambda>phys_mem_offset.
    bind_res (memory_init pf phys_mem_offset) (\<lambda>mapper.
    bind_res (expect_heap (init_heap (pf_page_range pf) (allocate_frame (pf_phys_frame pf)) (pf_map_to pf)
      mapper (frame_allocator_init (boot_memory_map boot_info)) heap)) (\<lambda>(_, _, heap).
    case test_runner (tests heap) of (out, ops) \<Rightarrow> Inr (out, hardware_init sels @ ops @ [Hlt])))))"

section \<open>What the sequence relies on\<close>

text \<open>
  Addresses below \<open>2 ^ 47\<close> are canonical, so constructing and adding them does not panic; the
  pages, the stacks and the start of a thread are as in the components.
\<close>

definition platform_ok :: "('m, 'g) platform \<Rightarrow> bool" where
  "platform_ok pf \<longleftrightarrow>
    (\<forall>a < 2 ^ 47. pf_virt_new pf a = Inr a) \<and>
    (\<forall>a b. a + b < 2 ^ 47 \<longrightarrow> pf_virt_add pf a b = Inr (a + b)) \<and>
    page_of_ok (pf_page_of pf) \<and> page_range_ok (pf_page_range pf) \<and> start_ok (pf_start pf) \<and>
    boxes_ok (pf_boxes_a pf) \<and> boxes_ok (pf_boxes_b pf) \<and> boxes_ok (pf_boxes_user pf)"

text \<open>
  What the bootloader promises: the physical memory is mapped within the lower half, the map of
  its regions is well formed and has 111 usable frames, and the page tables it hands over leave the pages
  that the kernel is going to map free. The sequence takes at most three frames for the tables
  of the example mapping, four for each of the 25 heap pages, and four for each of the two
  pages of the process.
\<close>

abbreviation boot_tables_of :: "('m, 'g) platform \<Rightarrow> BootInfo \<Rightarrow> 'm" where
  "boot_tables_of pf boot_info \<equiv>
    pf_offset_page_table pf (physical_memory_offset boot_info + pf_cr3 pf) (physical_memory_offset boot_info)"

definition boot_pages :: "usize set" where
  "boot_pages = {0, CODE_PAGE, STACK_PAGE} \<union> set heap_pages"

definition boot_info_ok :: "('m, 'g) platform \<Rightarrow> BootInfo \<Rightarrow> bool" where
  "boot_info_ok pf boot_info \<longleftrightarrow> physical_memory_offset boot_info + pf_cr3 pf < 2 ^ 47 \<and>
    map_ok (boot_memory_map boot_info) \<and> length (boot_memory_map boot_info) < 2 ^ 64 \<and>
    111 \<le> length (usable_frames (boot_memory_map boot_info))"

definition free_pages ::
  "('m \<Rightarrow> usize \<Rightarrow> (usize \<times> PageTableFlags) option) \<Rightarrow> ('m \<Rightarrow> usize \<Rightarrow> bool) \<Rightarrow> usize set \<Rightarrow> 'm \<Rightarrow> bool" where
  "free_pages translate small ps m \<longleftrightarrow> (\<forall>p \<in> ps. translate m p = None \<and> small m p)"

lemma boot_pages_distinct:
  "0 \<notin> set heap_pages" "CODE_PAGE \<notin> set heap_pages" "STACK_PAGE \<notin> set heap_pages"
  "CODE_PAGE \<noteq> 0" "STACK_PAGE \<noteq> 0"
  by (auto simp: heap_pages_def HEAP_START_def CODE_PAGE_def STACK_PAGE_def USER_CODE_BASE_def USER_STACK_BASE_def)

abbreviation heap_entries :: "usize list \<Rightarrow> usize \<Rightarrow> (usize \<times> PageTableFlags) option" where
  "heap_entries frames \<equiv> map_of (zip heap_pages (map (\<lambda>f. (f, {PRESENT, WRITABLE})) frames))"

lemma heap_entries_dom: "length frames = 25 \<Longrightarrow> dom (heap_entries frames) = set heap_pages"
  by (simp add: heap_pages_facts)

lemma subseq_drop_trans: "subseq xs (drop n ys) \<Longrightarrow> subseq xs ys"
  using suffix_imp_subseq [OF suffix_drop] subseq_order.order_trans by blast

lemma boot_memory_ok:
  assumes pm: "page_mapper (allocate_frame (pf_phys_frame pf)) (\<lambda>a. map_ok (memory_map a)) remaining_frames
      (pf_map_to pf) translate small"
    and pf: "platform_ok pf" and bi: "boot_info_ok pf boot_info"
    and free: "free_pages translate small boot_pages (boot_tables_of pf boot_info)"
  shows "\<exists>m s heap frames. boot_memory pf boot_info fsb_empty = Inr (m, s, heap) \<and>
    fsb_init fsb_empty HEAP_START HEAP_SIZE = Inr heap \<and> map_ok (memory_map s) \<and>
    length frames = 25 \<and>
    (\<forall>gs. subseq gs (remaining_frames s) \<longrightarrow> subseq (frames @ gs) (usable_frames (boot_memory_map boot_info))) \<and>
    8 \<le> length (remaining_frames s) \<and> free_pages translate small {CODE_PAGE, STACK_PAGE} m \<and>
    translate m = (translate (boot_tables_of pf boot_info))(0 \<mapsto> (0xb8000, {PRESENT, WRITABLE})) ++ heap_entries frames"
proof -
  let ?m0 = "boot_tables_of pf boot_info" and ?s0 = "frame_allocator_init (boot_memory_map boot_info)"
  have off: "physical_memory_offset boot_info + pf_cr3 pf < 2 ^ 47" "map_ok (memory_map ?s0)"
    "111 \<le> length (remaining_frames ?s0)"
    using bi by (simp_all add: boot_info_ok_def remaining_frames_init) (simp add: frame_allocator_init_def)
  have pre: "translate ?m0 0 = None" "small ?m0 0" "3 \<le> length (remaining_frames ?s0)"
    using free off(3) by (simp_all add: free_pages_def boot_pages_def)
  obtain m1 s1 n where s1: "pf_map_to pf 0 0xb8000 {PRESENT, WRITABLE} {PRESENT, WRITABLE} ?m0 ?s0 = Inr (m1, s1, Inr ())"
    "map_ok (memory_map s1)" "n \<le> 3" "remaining_frames s1 = drop n (remaining_frames ?s0)" "small m1 = small ?m0"
    "translate m1 = (translate ?m0)(0 \<mapsto> (0xb8000, {PRESENT, WRITABLE}))"
    by (rule page_mapper.map_to_fresh [OF pm off(2) pre])
  have range: "page_range_ok (pf_page_range pf)" using pf by (simp add: platform_ok_def)
  have new: "translate m1 p = None \<and> small m1 p" if "p \<in> set heap_pages" for p
  proof -
    have "p \<noteq> 0" using that boot_pages_distinct(1) by metis
    then show ?thesis using free that s1(5,6) by (simp add: free_pages_def boot_pages_def)
  qed
  have "100 \<le> length (remaining_frames s1)" using off(3) s1(3,4) by simp
  from init_heap_ok [OF pm range s1(2) new this] obtain m2 s2 heap frames k where
    s2: "init_heap (pf_page_range pf) (allocate_frame (pf_phys_frame pf)) (pf_map_to pf) m1 s1 fsb_empty =
        Inr (m2, s2, heap, Inr ())" "map_ok (memory_map s2)" "length frames = 25"
    "subseq frames (take k (remaining_frames s1))" "remaining_frames s2 = drop k (remaining_frames s1)" "k \<le> 100"
    "small m2 = small m1" "translate m2 = translate m1 ++ heap_entries frames"
    "fsb_init fsb_empty HEAP_START HEAP_SIZE = Inr heap" by blast
  have "create_example_mapping (pf_map_to pf) (pf_page_of pf 0) ?m0 ?s0 = Inr (m1, s1)"
    using s1(1) pf by (simp add: create_example_mapping_def platform_ok_def page_of_ok_def)
  then have "boot_memory pf boot_info fsb_empty = Inr (m2, s2, heap)"
    using s2(1) pf off(1)
    by (simp add: boot_memory_def memory_init_def active_level_4_table_def platform_ok_def expect_heap_def Let_def)
  moreover have "subseq (frames @ gs) (usable_frames (boot_memory_map boot_info))" if "subseq gs (remaining_frames s2)" for gs
  proof -
    have "subseq (frames @ gs) (remaining_frames s1)"
      using list_emb_append_mono [OF s2(4) that] s2(5) by simp
    then show ?thesis using s1(4) subseq_drop_trans by (metis remaining_frames_init)
  qed
  moreover have "free_pages translate small {CODE_PAGE, STACK_PAGE} m2"
    using free s1(5,6) s2(3,7,8) boot_pages_distinct heap_entries_dom [OF s2(3)]
    by (auto simp: free_pages_def boot_pages_def map_add_None domIff)
  moreover have "8 \<le> length (remaining_frames s2)" using off(3) s1(3,4) s2(5,6) by simp
  ultimately show ?thesis using s1(6) s2 by (intro exI [of _ m2] exI [of _ s2] exI [of _ heap] exI [of _ frames]) simp
qed

text \<open>The part that the test kernels share: the page tables and the heap.\<close>

lemma test_boot_heap:
  assumes pm: "page_mapper (allocate_frame (pf_phys_frame pf)) (\<lambda>a. map_ok (memory_map a)) remaining_frames
      (pf_map_to pf) translate small"
    and pf: "platform_ok pf" and bi: "boot_info_ok pf boot_info"
    and free: "free_pages translate small (set heap_pages) (boot_tables_of pf boot_info)"
  shows "\<exists>m s heap frames. pf_virt_new pf (physical_memory_offset boot_info) = Inr (physical_memory_offset boot_info) \<and>
    memory_init pf (physical_memory_offset boot_info) = Inr (boot_tables_of pf boot_info) \<and>
    expect_heap (init_heap (pf_page_range pf) (allocate_frame (pf_phys_frame pf)) (pf_map_to pf)
      (boot_tables_of pf boot_info) (frame_allocator_init (boot_memory_map boot_info)) fsb_empty) = Inr (m, s, heap) \<and>
    fsb_init fsb_empty HEAP_START HEAP_SIZE = Inr heap \<and> map_ok (memory_map s) \<and>
    8 \<le> length (remaining_frames s) \<and> length frames = 25 \<and> small m = small (boot_tables_of pf boot_info) \<and>
    translate m = translate (boot_tables_of pf boot_info) ++ heap_entries frames"
proof -
  let ?m0 = "boot_tables_of pf boot_info" and ?s0 = "frame_allocator_init (boot_memory_map boot_info)"
  have off: "physical_memory_offset boot_info + pf_cr3 pf < 2 ^ 47" "map_ok (memory_map ?s0)"
    "111 \<le> length (remaining_frames ?s0)"
    using bi by (simp_all add: boot_info_ok_def remaining_frames_init) (simp add: frame_allocator_init_def)
  have range: "page_range_ok (pf_page_range pf)" using pf by (simp add: platform_ok_def)
  have new: "translate ?m0 p = None \<and> small ?m0 p" if "p \<in> set heap_pages" for p
    using free that by (simp add: free_pages_def)
  have "100 \<le> length (remaining_frames ?s0)" using off(3) by simp
  from init_heap_ok [OF pm range off(2) new this] obtain m s heap frames n where h:
    "init_heap (pf_page_range pf) (allocate_frame (pf_phys_frame pf)) (pf_map_to pf) ?m0 ?s0 fsb_empty = Inr (m, s, heap, Inr ())"
    "map_ok (memory_map s)" "length frames = 25" "remaining_frames s = drop n (remaining_frames ?s0)" "n \<le> 100"
    "small m = small ?m0" "translate m = translate ?m0 ++ heap_entries frames"
    "fsb_init fsb_empty HEAP_START HEAP_SIZE = Inr heap" by blast
  have "8 \<le> length (remaining_frames s)" using off(3) h(4,5) by simp
  then show ?thesis
    using h off(1) pf
    by (intro exI [of _ m] exI [of _ s] exI [of _ heap] exI [of _ frames])
      (simp add: memory_init_def active_level_4_table_def platform_ok_def expect_heap_def)
qed

section \<open>The demos\<close>

lemma greeting_shows:
  assumes "shows_lines rows ls w" and "console_write GREETING w = Inr (w', n)"
  shows "shows_lines rows (ls @ [ascii ''hello from ring 3!'']) w'"
proof -
  have "concat (map (\<lambda>b. utf8 (unat b)) GREETING) = lines_text [ascii ''hello from ring 3!'']"
    by (simp add: GREETING_def utf8_def ascii_def)
  then have "write_string (lines_text [ascii ''hello from ring 3!'']) w = Inr w'"
    using assms(2) by (auto simp: console_write_eq bind_res_eq_Inr)
  moreover have "\<forall>l \<in> set [ascii ''hello from ring 3!'']. printable l" by (simp add: printable_def ascii_def)
  ultimately show ?thesis using write_lines [OF assms(1)] by fastforce
qed

lemma tasks_inv:
  assumes "kernel_inv contents k"
  shows "kernel_inv contents (k\<lparr>k_thread := (k_thread k)\<lparr>SCHEDULER := note_task_spawned (note_task_spawned (SCHEDULER (k_thread k)))\<rparr>\<rparr>)"
proof (rule with_threads_inv [OF assms])
  have "thread_inv (k_thread k)" using assms by (simp add: kernel_inv_def)
  then show "thread_inv ((k_thread k)\<lparr>SCHEDULER := note_task_spawned (note_task_spawned (SCHEDULER (k_thread k)))\<rparr>)"
    by (simp add: thread_inv_cong counter_defs)
qed (simp_all add: counter_defs)

text \<open>The kernel after the threading demo.\<close>

lemma boot_threads:
  assumes "platform_ok pf" and "kernel_inv contents k" and "k_thread k = thread_init boot_ctx" and "10 \<le> n"
  shows "\<exists>m s. threading_demo n (k_memory k) (pf_boxes_a pf) (pf_boxes_b pf) (pf_worker_a pf) (pf_worker_b pf)
      (k_thread k) = Inr (Some (m, s)) \<and> kernel_inv contents (k\<lparr>k_memory := m, k_thread := s\<rparr>) \<and>
    current (THREADS s) = BOOTSTRAP_ID \<and> ready (THREADS s) = [] \<and> threads (THREADS s) = fmempty \<and> NEXT_TID s = 3"
proof -
  let ?s = "k_thread k"
  obtain ca sa cb sb where boxes: "pf_boxes_a pf = (ca, sa)" "pf_boxes_b pf = (cb, sb)"
    by (cases "pf_boxes_a pf", cases "pf_boxes_b pf")
  have inv: "thread_inv ?s" using assms(2) by (simp add: kernel_inv_def)
  have idle: "current_id ?s = BOOTSTRAP_ID" "ready_count ?s = 0" "unat (NEXT_TID ?s) + 2 < 2 ^ 64" "NEXT_TID ?s = 1"
    by (simp_all add: assms(3) current_id_def ready_count_def thread_init_def ThreadScheduler_new_def)
  have ok: "unat sa + STACK_SIZE < 2 ^ 64" "separate ca 8 sa STACK_SIZE"
    "unat sb + STACK_SIZE < 2 ^ 64" "separate cb 8 sb STACK_SIZE"
    using assms(1) boxes by (auto simp: platform_ok_def boxes_ok_def)
  obtain m s where s: "threading_demo n (k_memory k) (ca, sa) (cb, sb) (pf_worker_a pf) (pf_worker_b pf) ?s = Inr (Some (m, s))"
    "thread_inv s" "same_processes ?s s" "NEXT_TID s = NEXT_TID ?s + 2" "current_id s = BOOTSTRAP_ID" "ready_count s = 0"
    using threading_demo_ok [OF inv idle(1-3) assms(4) ok, of "k_memory k" "pf_worker_a pf" "pf_worker_b pf"] by blast
  have "kernel_inv contents (k\<lparr>k_thread := s\<rparr>)"
    using with_threads_inv [OF assms(2) s(2)] s(3) by (simp add: same_processes_def)
  moreover have "threads (THREADS s) = fmempty"
    using idle_no_threads [OF s(2,5,6)] by (metis fmdom'_empty fmrestrict_set_dom fmrestrict_set_null)
  ultimately show ?thesis
    using s boxes idle(4) by (auto simp: current_id_def ready_count_def kernel_inv_def)
qed

text \<open>The kernel when the banner is on the screen and the heap has passed its test.\<close>

lemma boot_kernel:
  assumes "vga_wf (WRITER_init screen)" and "boot_info_ok pf boot_info"
    and "fsb_init fsb_empty HEAP_START HEAP_SIZE = Inr heap"
  obtains w where "print_banner boot_info (WRITER_init screen) = Inr w"
    and "shows_lines screen (banner_lines boot_info) w" and "sample_heap_allocations heap = Inr (tested_heap, 2, 1)"
    and "kernel_inv contents ((Kernel_new boot_ctx W screen m)\<lparr>k_heap := tested_heap, k_console := w\<rparr>)"
proof -
  have buf: "buffer (WRITER_init screen) = screen" by (simp add: WRITER_init_def)
  have bi: "physical_memory_offset boot_info < 2 ^ 64" "length (boot_memory_map boot_info) < 2 ^ 64"
    using assms(2) by (simp_all add: boot_info_ok_def)
  obtain w where w: "print_banner boot_info (WRITER_init screen) = Inr w"
    "shows_lines screen (banner_lines boot_info) w"
    using print_banner_shows [OF assms(1) bi] buf by metis
  have s: "sample_heap_allocations heap = Inr (tested_heap, 2, 1)"
    using smoke_test_ok init_demo assms(3) by simp
  then have "fsb_inv tested_heap Map.empty" using sample_heap_inv heap_fresh [OF assms(3)] by blast
  from kernel_inv_start [OF assms(1) this, of contents boot_ctx W m]
  have "kernel_inv contents ((Kernel_new boot_ctx W screen m)\<lparr>k_heap := tested_heap, k_console := w\<rparr>)"
    using shows_lines_wf [OF w(2)] by (simp add: kernel_inv_def)
  with w s show ?thesis by (rule that)
qed

lemma boot_userland:
  assumes pm: "page_mapper (allocate_frame (pf_phys_frame pf)) (\<lambda>a. map_ok (memory_map a)) remaining_frames
      (pf_map_to pf) translate small"
    and pf: "platform_ok pf" and "map_ok (memory_map s)" and "8 \<le> length (remaining_frames s)"
    and free: "free_pages translate small {CODE_PAGE, STACK_PAGE} m"
    and k: "kernel_inv contents k" "current (THREADS (k_thread k)) = BOOTSTRAP_ID" "ready (THREADS (k_thread k)) = []"
      "NEXT_PID (k_process k) = 1" "NEXT_TID (k_thread k) = 3" and n: "10 \<le> n"
  shows "\<exists>l w f g. userland_demo (pf_page_of pf) (allocate_frame (pf_phys_frame pf)) (pf_map_to pf) Q process_pages
      (pf_report pf) sels (pf_start pf) (pf_boxes_user pf) (pf_user_entry pf) n n
      \<lparr>ld_mapper = m, ld_frames = s, ld_kernel = k\<rparr> = Inr (Some l) \<and>
    console_write GREETING (k_console k) = Inr (w, 19) \<and> k_console (ld_kernel l) = w \<and>
    processes (k_process (ld_kernel l)) = processes (k_process k) \<and>
    threads (THREADS (k_thread (ld_kernel l))) = threads (THREADS (k_thread k)) \<and>
    current (THREADS (k_thread (ld_kernel l))) = BOOTSTRAP_ID \<and> ready (THREADS (k_thread (ld_kernel l))) = [] \<and>
    kernel_inv contents (ld_kernel l) \<and> k_input (ld_kernel l) = k_input k \<and> k_heap (ld_kernel l) = k_heap k \<and>
    subseq [f, g] (remaining_frames s) \<and>
    translate (ld_mapper l) = (translate m)(CODE_PAGE \<mapsto> (f, USER_FLAGS), STACK_PAGE \<mapsto> (g, USER_FLAGS))"
proof -
  let ?l = "\<lparr>ld_mapper = m, ld_frames = s, ld_kernel = k\<rparr>"
  have pf': "page_of_ok (pf_page_of pf)" "boxes_ok (pf_boxes_user pf)" "start_ok (pf_start pf)"
    using pf by (simp_all add: platform_ok_def)
  have new: "translate (ld_mapper ?l) p = None \<and> small (ld_mapper ?l) p" if "p \<in> {CODE_PAGE, STACK_PAGE}" for p
    using free that by (auto simp: free_pages_def)
  have fuel: "n - 3 + 3 = n" "n - 8 + 8 = n" using n by simp_all
  have l: "map_ok (memory_map (ld_frames ?l))" "8 \<le> length (remaining_frames (ld_frames ?l))"
    "kernel_inv contents (ld_kernel ?l)" "current (THREADS (k_thread (ld_kernel ?l))) = BOOTSTRAP_ID"
    "ready (THREADS (k_thread (ld_kernel ?l))) = []" "NEXT_PID (k_process (ld_kernel ?l)) + 1 \<noteq> 0"
    "NEXT_TID (k_thread (ld_kernel ?l)) \<noteq> - 1"
    using assms(3,4) k by simp_all
  show ?thesis
    using userland_demo_ok [OF pm pf'(1) l(1,2) new l(3-7) pf'(2,3), of Q "pf_report pf" sels "pf_user_entry pf"
        "n - 3" "n - 8"] unfolding fuel by auto
qed

text \<open>Everything before the executor.\<close>

lemma kernel_main_demos:
  fixes W :: "('w, 's) waker_ops" and Q :: "(u8, 'q) queue_ops"
  assumes dt: "descriptor_table (pf_gdt_new pf) (pf_add_entry pf) used"
    and pm: "page_mapper (allocate_frame (pf_phys_frame pf)) (\<lambda>a. map_ok (memory_map a)) remaining_frames
      (pf_map_to pf) translate small"
    and pf: "platform_ok pf" and bi: "boot_info_ok pf boot_info"
    and free: "free_pages translate small boot_pages (boot_tables_of pf boot_info)"
    and screen: "vga_wf (WRITER_init screen)" and n: "10 \<le> n"
  shows "\<exists>sels (l :: ('m, MonotonicFrameAllocator, 'q, 's) loader) frames f g.
    kernel_main n T Q pf boot_info (Kernel_new boot_ctx W screen m) =
      bind_res (start_executor T sels l) (\<lambda>b. Inr (Some b)) \<and>
    subseq (frames @ [f, g]) (usable_frames (boot_memory_map boot_info)) \<and> length frames = 25 \<and>
    translate (ld_mapper l) =
      ((translate (boot_tables_of pf boot_info))(0 \<mapsto> (0xb8000, {PRESENT, WRITABLE})) ++ heap_entries frames)
      (CODE_PAGE \<mapsto> (f, USER_FLAGS), STACK_PAGE \<mapsto> (g, USER_FLAGS)) \<and>
    k_heap (ld_kernel l) = tested_heap \<and> k_input (ld_kernel l) = keyboard_init W \<and>
    shows_lines screen (banner_lines boot_info @ [ascii ''hello from ring 3!'']) (k_console (ld_kernel l)) \<and>
    processes (k_process (ld_kernel l)) = fmempty \<and> threads (THREADS (k_thread (ld_kernel l))) = fmempty \<and>
    current (THREADS (k_thread (ld_kernel l))) = BOOTSTRAP_ID \<and> ready (THREADS (k_thread (ld_kernel l))) = [] \<and>
    kernel_inv contents (ld_kernel l)"
proof -
  let ?k0 = "Kernel_new boot_ctx W screen m :: ('q, 's) kernel" and ?m0 = "boot_tables_of pf boot_info"
  obtain gdt sels where gdt: "GDT_init (pf_gdt_new pf) (pf_add_entry pf) = Inr (gdt, sels)"
    using descriptor_table.GDT_selectors [OF dt] by blast
  obtain m1 s1 heap frames where mem: "boot_memory pf boot_info fsb_empty = Inr (m1, s1, heap)"
    "fsb_init fsb_empty HEAP_START HEAP_SIZE = Inr heap" "map_ok (memory_map s1)" "length frames = 25"
    "\<And>gs. subseq gs (remaining_frames s1) \<Longrightarrow> subseq (frames @ gs) (usable_frames (boot_memory_map boot_info))"
    "8 \<le> length (remaining_frames s1)" "free_pages translate small {CODE_PAGE, STACK_PAGE} m1"
    "translate m1 = (translate ?m0)(0 \<mapsto> (0xb8000, {PRESENT, WRITABLE})) ++ heap_entries frames"
    using boot_memory_ok [OF pm pf bi free] by blast
  obtain w1 where w1: "print_banner boot_info (WRITER_init screen) = Inr w1"
    "shows_lines screen (banner_lines boot_info) w1" "sample_heap_allocations heap = Inr (tested_heap, 2, 1)"
    "kernel_inv contents (?k0\<lparr>k_heap := tested_heap, k_console := w1\<rparr>)"
    by (rule boot_kernel [OF screen bi mem(2)])
  let ?k1 = "?k0\<lparr>k_heap := tested_heap, k_console := w1\<rparr>"
  have k0: "k_thread ?k1 = thread_init boot_ctx" "k_heap ?k0 = fsb_empty" "k_console ?k0 = WRITER_init screen"
    "NEXT_PID (k_process ?k0) = 1" "processes (k_process ?k0) = fmempty" "k_input ?k0 = keyboard_init W"
    by (simp_all add: Kernel_new_def ProcessService_new_def)
  obtain m2 s2 where thr: "threading_demo n (k_memory ?k1) (pf_boxes_a pf) (pf_boxes_b pf) (pf_worker_a pf) (pf_worker_b pf)
      (k_thread ?k1) = Inr (Some (m2, s2))" "kernel_inv contents (?k1\<lparr>k_memory := m2, k_thread := s2\<rparr>)"
    "current (THREADS s2) = BOOTSTRAP_ID" "ready (THREADS s2) = []" "threads (THREADS s2) = fmempty" "NEXT_TID s2 = 3"
    using boot_threads [OF pf w1(4) k0(1) n] by blast
  let ?k2 = "?k1\<lparr>k_memory := m2, k_thread := s2\<rparr>"
  let ?sels = "\<lparr>sel_user_code = ucast (gs_user_code sels), sel_user_data = ucast (gs_user_data sels)\<rparr>"
  have k2: "current (THREADS (k_thread ?k2)) = BOOTSTRAP_ID" "ready (THREADS (k_thread ?k2)) = []"
    "NEXT_PID (k_process ?k2) = 1" "NEXT_TID (k_thread ?k2) = 3"
    using thr(3,4,6) k0(4) by simp_all
  obtain l w2 f g where usr: "userland_demo (pf_page_of pf) (allocate_frame (pf_phys_frame pf)) (pf_map_to pf) Q
      process_pages (pf_report pf) ?sels (pf_start pf) (pf_boxes_user pf) (pf_user_entry pf) n n
      \<lparr>ld_mapper = m1, ld_frames = s1, ld_kernel = ?k2\<rparr> = Inr (Some l)"
    "console_write GREETING w1 = Inr (w2, 19)" "k_console (ld_kernel l) = w2"
    "processes (k_process (ld_kernel l)) = fmempty" "threads (THREADS (k_thread (ld_kernel l))) = fmempty"
    "current (THREADS (k_thread (ld_kernel l))) = BOOTSTRAP_ID" "ready (THREADS (k_thread (ld_kernel l))) = []"
    "kernel_inv contents (ld_kernel l)" "k_input (ld_kernel l) = keyboard_init W" "k_heap (ld_kernel l) = tested_heap"
    "subseq [f, g] (remaining_frames s1)"
    "translate (ld_mapper l) = (translate m1)(CODE_PAGE \<mapsto> (f, USER_FLAGS), STACK_PAGE \<mapsto> (g, USER_FLAGS))"
    using boot_userland [OF pm pf mem(3,6,7) thr(2) k2 n, of Q ?sels] thr(5) k0(5,6) by auto
  have "kernel_main n T Q pf boot_info ?k0 = bind_res (start_executor T sels l) (\<lambda>b. Inr (Some b))"
    using gdt mem(1) w1(1,3) thr(1) usr(1) k0(2,3) by (simp add: kernel_main_def Let_def)
  then show ?thesis
    using mem(4,8) mem(5) [OF usr(11)] usr(3-10,12) greeting_shows [OF w1(2) usr(2)]
    by (intro exI [of _ sels] exI [of _ l] exI [of _ frames] exI [of _ f] exI [of _ g]) simp
qed

section \<open>Properties\<close>


text \<open>A platform with exact address arithmetic, empty page tables and one megabyte of usable memory.\<close>

definition small_platform :: "(page_tables, Descriptor option list) platform" where
  "small_platform =
    \<lparr>pf_virt_new = (\<lambda>a. if a < 2 ^ 47 then Inr a else Inl (Panicked ''VirtAddr::new'')),
     pf_virt_add = (\<lambda>a b. if a + b < 2 ^ 47 then Inr (a + b) else Inl (Panicked ''VirtAddr::add'')),
     pf_cr3 = 0x1000, pf_offset_page_table = (\<lambda>_ _. empty_tables), pf_gdt_new = [None],
     pf_add_entry = slot_add_entry, pf_page_of = exact_page_of, pf_page_range = exact_page_range,
     pf_phys_frame = exact_phys_frame, pf_map_to = four_level_map_to (allocate_frame exact_phys_frame),
     pf_report = [], pf_start = small_start, pf_boxes_a = (0x100, 0x8000), pf_boxes_b = (0x200, 0x20000),
     pf_boxes_user = (0x300, 0x30000), pf_worker_a = 0xCAFE, pf_worker_b = 0xBEEF, pf_user_entry = 0xABC\<rparr>"

definition small_boot_info :: BootInfo where
  "small_boot_info = \<lparr>physical_memory_offset = 0x18000000000,
    boot_memory_map = [\<lparr>range_start = 0x100000, range_end = 0x200000, region_type = Usable\<rparr>]\<rparr>"

lemma small_platform_ok:
  "platform_ok small_platform" "boot_info_ok small_platform small_boot_info"
  "free_pages pt_entries (\<lambda>_ _. True) boot_pages (boot_tables_of small_platform small_boot_info)"
  by (simp_all add: small_platform_def small_boot_info_def platform_ok_def boot_info_ok_def free_pages_def
      small_loader_facts page_range_ok_def exact_page_range_def empty_tables_def map_ok_def boxes_ok_def separate_def
      USER_CODE_BASE_def STACK_SIZE_def usable_frames_def usable_regions_def)


end
