(* ===== verification/Unit_Tests_Heap.thy ===== *)
theory Unit_Tests_Heap
  imports Bump_Allocator Fixed_Size_Block
begin

text \<open>
  The unit tests that the allocators carry (the \<open>tests\<close> modules of \<open>src/src/allocator/bump.rs\<close>,
  \<open>linkedlist.rs\<close>, \<open>fixed_size_block.rs\<close> and \<open>mod.rs\<close>), one definition per test. A test returns or
  panics: an assertion that fails and an \<open>unwrap\<close> of an error are panics. The address at which the
  linker puts the static test heap is a parameter, aligned to a page as its type demands.
\<close>

section \<open>Assertions\<close>

definition assert_that :: "bool \<Rightarrow> unit res" where
  "assert_that c = (if c then Inr () else Inl (Panicked ''assertion failed''))"

definition asserts :: "bool list \<Rightarrow> unit res" where
  "asserts cs = for_res (\<lambda>c _. assert_that c) cs ()"

definition test_layout :: "usize \<Rightarrow> usize \<Rightarrow> Layout res" where
  "test_layout sz al = expect (from_size_align sz al) ''layout''"

section \<open>The bump allocator\<close>

definition test_bump_allocator_empty :: "unit res" where
  "test_bump_allocator_empty =
    (let allocator = bump_empty in
     asserts [bump_heap_start allocator = 0, bump_heap_end allocator = 0, bump_next allocator = 0,
       bump_remaining allocator = 0])"

definition test_bump_allocator_init :: "unit res" where
  "test_bump_allocator_init =
    (let allocator = bump_init bump_empty 0x1000 4096 in
     asserts [bump_heap_start allocator = 0x1000, bump_heap_end allocator = 0x1000 + 4096,
       bump_cursor allocator = 0x1000, bump_remaining allocator = 4096, bump_heap_size allocator = 4096])"

definition assert_align_up :: "usize \<times> usize \<times> usize \<Rightarrow> unit \<Rightarrow> unit res" where
  "assert_align_up = (\<lambda>(addr, align, expected) _.
    bind_res (align_up addr align) (\<lambda>r. assert_that (r = expected)))"

definition test_align_up_function :: "unit res" where
  "test_align_up_function =
    for_res assert_align_up [(0, 8, 0), (1, 8, 8), (8, 8, 8), (9, 8, 16), (1000, 4096, 4096)] ()"

definition test_bump_allocator_alignment :: "unit res" where
  "test_bump_allocator_alignment =
    (let allocator = bump_init bump_empty 0x1000 4096 in
     bind_res (test_layout 8 16) (\<lambda>layout.
     bind_res (bump_alloc allocator layout) (\<lambda>(_, ptr).
     asserts [ptr \<noteq> 0, ptr mod 16 = 0])))"

definition test_bump_advances_monotonically :: "unit res" where
  "test_bump_advances_monotonically =
    (let allocator = bump_init bump_empty 0x1000 4096 in
     bind_res (test_layout 8 8) (\<lambda>layout.
     bind_res (bump_alloc allocator layout) (\<lambda>(allocator, a).
     bind_res (bump_alloc allocator layout) (\<lambda>(allocator, b).
     asserts [a \<noteq> 0 \<and> b \<noteq> 0, b \<ge> a + 8, bump_cursor allocator = b + 8]))))"

definition test_bump_dealloc_is_a_noop :: "unit res" where
  "test_bump_dealloc_is_a_noop =
    (let allocator = bump_init bump_empty 0x1000 4096 in
     bind_res (test_layout 32 8) (\<lambda>layout.
     bind_res (bump_alloc allocator layout) (\<lambda>(allocator, a).
     let cursor_after_a = bump_cursor allocator in
     bind_res (bump_alloc allocator layout) (\<lambda>(allocator, b).
     bind_res (bump_dealloc allocator a layout) (\<lambda>locked.
     asserts [bump_cursor locked = cursor_after_a + 32, a \<noteq> b])))))"

definition test_bump_exhaustion_returns_null :: "unit res" where
  "test_bump_exhaustion_returns_null =
    (let allocator = bump_init bump_empty 0x1000 64 in
     bind_res (test_layout 64 8) (\<lambda>large.
     bind_res (bump_alloc allocator large) (\<lambda>(allocator, a).
     bind_res (assert_that (a \<noteq> 0)) (\<lambda>_.
     bind_res (test_layout 8 8) (\<lambda>small.
     bind_res (bump_alloc allocator small) (\<lambda>(_, b). assert_that (b = 0)))))))"

section \<open>The linked-list allocator\<close>

definition TEST_HEAP_SIZE :: usize where
  "TEST_HEAP_SIZE = 4096"

definition test_allocator :: "usize \<Rightarrow> LinkedListAllocator res" where
  "test_allocator start = ll_init ll_empty start TEST_HEAP_SIZE"

definition test_list_node_layout :: "usize \<Rightarrow> unit res" where
  "test_list_node_layout addr =
    (let node = \<lparr>node_start = addr, node_size = 64\<rparr> in
     bind_res (assert_that (node_size node = 64)) (\<lambda>_.
     bind_res (end_addr node) (\<lambda>e.
     bind_res (usize_sub e (node_start node)) (\<lambda>d. assert_that (d = 64)))))"

definition test_init_creates_one_free_region :: "usize \<Rightarrow> unit res" where
  "test_init_creates_one_free_region start =
    bind_res (test_allocator start) (\<lambda>allocator.
    bind_res (free_region_count allocator) (\<lambda>n.
    bind_res (assert_that (n = 1)) (\<lambda>_.
    case ll_head allocator of
      [] \<Rightarrow> Inl (Panicked ''unwrap on None'')
    | head # _ \<Rightarrow>
        bind_res (assert_that (node_start head = start)) (\<lambda>_.
        bind_res (end_addr head) (\<lambda>e. assert_that (e = start + TEST_HEAP_SIZE))))))"

definition alloc_with_align :: "usize \<Rightarrow> LinkedListAllocator \<Rightarrow> LinkedListAllocator res" where
  "alloc_with_align align allocator =
    bind_res (test_layout 8 align) (\<lambda>l.
    bind_res (ll_alloc allocator l) (\<lambda>(allocator, ptr).
    bind_res (asserts [ptr \<noteq> 0, ptr mod align = 0, ptr mod NODE_ALIGN = 0]) (\<lambda>_.
    ll_dealloc allocator ptr l)))"

definition test_alloc_is_aligned :: "usize \<Rightarrow> unit res" where
  "test_alloc_is_aligned start =
    bind_res (test_allocator start) (\<lambda>allocator.
    bind_res (for_res alloc_with_align [1, 8, 16, 64, 256, 4096] allocator) (\<lambda>_. Inr ()))"

definition test_allocations_do_not_overlap :: "usize \<Rightarrow> unit res" where
  "test_allocations_do_not_overlap start =
    bind_res (test_allocator start) (\<lambda>allocator.
    bind_res (test_layout 64 8) (\<lambda>l.
    bind_res (ll_alloc allocator l) (\<lambda>(allocator, a).
    bind_res (ll_alloc allocator l) (\<lambda>(_, b).
    asserts [a \<noteq> 0 \<and> b \<noteq> 0, b \<ge> a + 64 \<or> a \<ge> b + 64]))))"

definition test_dealloc_reuses_the_freed_region :: "usize \<Rightarrow> unit res" where
  "test_dealloc_reuses_the_freed_region start =
    bind_res (test_allocator start) (\<lambda>allocator.
    bind_res (test_layout 128 8) (\<lambda>l.
    bind_res (ll_alloc allocator l) (\<lambda>(allocator, first).
    bind_res (assert_that (first \<noteq> 0)) (\<lambda>_.
    bind_res (ll_alloc allocator l) (\<lambda>(allocator, _).
    bind_res (ll_dealloc allocator first l) (\<lambda>allocator.
    bind_res (ll_alloc allocator l) (\<lambda>(_, reused). assert_that (reused = first))))))))"

definition test_adjacent_regions_coalesce :: "usize \<Rightarrow> unit res" where
  "test_adjacent_regions_coalesce start =
    bind_res (test_allocator start) (\<lambda>allocator.
    bind_res (test_layout 256 8) (\<lambda>l.
    bind_res (ll_alloc allocator l) (\<lambda>(allocator, a).
    bind_res (ll_alloc allocator l) (\<lambda>(allocator, b).
    bind_res (ll_alloc allocator l) (\<lambda>(allocator, c).
    bind_res (assert_that (a \<noteq> 0 \<and> b \<noteq> 0 \<and> c \<noteq> 0)) (\<lambda>_.
    bind_res (ll_dealloc allocator b l) (\<lambda>allocator.
    bind_res (ll_dealloc allocator a l) (\<lambda>allocator.
    bind_res (ll_dealloc allocator c l) (\<lambda>allocator.
    bind_res (free_region_count allocator) (\<lambda>n.
    bind_res (assert_that (n = 1)) (\<lambda>_.
    bind_res (test_layout 768 8) (\<lambda>large_layout.
    bind_res (ll_alloc allocator large_layout) (\<lambda>(_, large). assert_that (large = a))))))))))))))"

definition test_small_layouts_are_rounded_up_and_reusable :: "usize \<Rightarrow> unit res" where
  "test_small_layouts_are_rounded_up_and_reusable start =
    bind_res (test_allocator start) (\<lambda>allocator.
    bind_res (test_layout 1 1) (\<lambda>l.
    bind_res (ll_alloc allocator l) (\<lambda>(allocator, ptr).
    bind_res (assert_that (ptr \<noteq> 0)) (\<lambda>_.
    bind_res (ll_dealloc allocator ptr l) (\<lambda>allocator.
    bind_res (ll_alloc allocator l) (\<lambda>(_, reused). assert_that (reused = ptr)))))))"

definition test_odd_sizes_keep_free_regions_aligned :: "usize \<Rightarrow> unit res" where
  "test_odd_sizes_keep_free_regions_aligned start =
    bind_res (test_allocator start) (\<lambda>allocator.
    bind_res (test_layout 17 16) (\<lambda>l.
    bind_res (ll_alloc allocator l) (\<lambda>(allocator, a).
    bind_res (asserts [a \<noteq> 0, a mod 16 = 0]) (\<lambda>_.
    bind_res (ll_alloc allocator l) (\<lambda>(allocator, b).
    bind_res (asserts [b \<noteq> 0, b mod 16 = 0, b \<ge> a + 24]) (\<lambda>_.
    bind_res (ll_dealloc allocator a l) (\<lambda>allocator.
    bind_res (ll_dealloc allocator b l) (\<lambda>allocator.
    bind_res (free_region_count allocator) (\<lambda>n.
    bind_res (assert_that (n \<ge> 1)) (\<lambda>_.
    bind_res (test_layout 1024 8) (\<lambda>large_layout.
    bind_res (ll_alloc allocator large_layout) (\<lambda>(_, large). assert_that (large \<noteq> 0)))))))))))))"

text \<open>The loop allocates blocks of 64 bytes until it gets null; the heap holds 64 of them.\<close>

primrec exhaust :: "nat \<Rightarrow> Layout \<Rightarrow> LinkedListAllocator \<Rightarrow> LinkedListAllocator res" where
  "exhaust 0 l allocator = Inl (Panicked ''more blocks than the heap holds'')"
| "exhaust (Suc n) l allocator =
    bind_res (ll_alloc allocator l) (\<lambda>(allocator, ptr). if ptr = 0 then Inr allocator else exhaust n l allocator)"

definition test_exhaustion_returns_null :: "usize \<Rightarrow> unit res" where
  "test_exhaustion_returns_null start =
    bind_res (test_allocator start) (\<lambda>allocator.
    bind_res (test_layout (TEST_HEAP_SIZE * 2) 8) (\<lambda>huge.
    bind_res (ll_alloc allocator huge) (\<lambda>(allocator, too_big).
    bind_res (assert_that (too_big = 0)) (\<lambda>_.
    bind_res (test_layout 64 8) (\<lambda>l.
    bind_res (exhaust 65 l allocator) (\<lambda>allocator.
    bind_res (ll_alloc allocator l) (\<lambda>(_, ptr). assert_that (ptr = 0))))))))"

definition test_unlink_keeps_successor_regions :: "usize \<Rightarrow> unit res" where
  "test_unlink_keeps_successor_regions start =
    bind_res (test_allocator start) (\<lambda>allocator.
    bind_res (test_layout 128 8) (\<lambda>l.
    bind_res (ll_alloc allocator l) (\<lambda>(allocator, a).
    bind_res (assert_that (a \<noteq> 0)) (\<lambda>_.
    bind_res (free_region_count allocator) (\<lambda>n.
    bind_res (assert_that (n = 1)) (\<lambda>_.
    bind_res (ll_alloc allocator l) (\<lambda>(allocator, b).
    bind_res (asserts [b \<noteq> 0, b = a + 128]) (\<lambda>_.
    bind_res (test_layout (TEST_HEAP_SIZE - 256 - MIN_BLOCK) 8) (\<lambda>rest_layout.
    bind_res (ll_alloc allocator rest_layout) (\<lambda>(_, rest). asserts [rest \<noteq> 0, rest = b + 128]))))))))))"

definition alloc_block ::
  "Layout \<Rightarrow> nat \<Rightarrow> LinkedListAllocator \<times> usize list \<Rightarrow> (LinkedListAllocator \<times> usize list) res" where
  "alloc_block l _ = (\<lambda>(allocator, blocks).
    bind_res (ll_alloc allocator l) (\<lambda>(allocator, block).
    bind_res (assert_that (block \<noteq> 0)) (\<lambda>_. Inr (allocator, blocks @ [block]))))"

definition test_free_list_keeps_full_heap_after_release :: "usize \<Rightarrow> unit res" where
  "test_free_list_keeps_full_heap_after_release start =
    bind_res (test_allocator start) (\<lambda>allocator.
    bind_res (test_layout 128 8) (\<lambda>l.
    bind_res (for_res (alloc_block l) [0..<16] (allocator, [])) (\<lambda>(allocator, blocks).
    bind_res (for_res (\<lambda>block allocator. ll_dealloc allocator block l) blocks allocator) (\<lambda>allocator.
    bind_res (free_region_count allocator) (\<lambda>n.
    bind_res (ll_free_bytes allocator) (\<lambda>bytes.
    bind_res (asserts [n = 1, bytes = TEST_HEAP_SIZE]) (\<lambda>_.
    bind_res (test_layout (TEST_HEAP_SIZE - MIN_BLOCK) 8) (\<lambda>whole_layout.
    bind_res (ll_alloc allocator whole_layout) (\<lambda>(_, whole). assert_that (whole = start))))))))))"

section \<open>The fixed-size block allocator and the heap's constants\<close>

definition test_block_sizes_ascending_powers_of_two :: "unit res" where
  "test_block_sizes_ascending_powers_of_two =
    bind_res (asserts (map (\<lambda>(a, b). a < b) (zip BLOCK_SIZES (tl BLOCK_SIZES)))) (\<lambda>_.
    asserts (map is_power_of_two BLOCK_SIZES))"

definition assert_list_index :: "usize \<Rightarrow> usize \<Rightarrow> usize option \<Rightarrow> unit res" where
  "assert_list_index sz al index = bind_res (test_layout sz al) (\<lambda>layout. assert_that (list_index layout = index))"

definition test_list_index_smallest_fit :: "unit res" where
  "test_list_index_smallest_fit = assert_list_index 1 1 (Some 0)"

definition test_list_index_exact_match :: "unit res" where
  "test_list_index_exact_match = assert_list_index 64 1 (Some 3)"

definition test_list_index_uses_alignment_when_larger :: "unit res" where
  "test_list_index_uses_alignment_when_larger = assert_list_index 8 64 (Some 3)"

definition test_list_index_too_large_returns_none :: "unit res" where
  "test_list_index_too_large_returns_none = assert_list_index 8192 1 None"

definition test_some_block_can_hold_list_node :: "unit res" where
  "test_some_block_can_hold_list_node = assert_that (list_ex (\<lambda>s. s \<ge> MIN_BLOCK \<and> s \<ge> NODE_ALIGN) BLOCK_SIZES)"

definition test_empty_starts_with_no_cached_blocks :: "unit res" where
  "test_empty_starts_with_no_cached_blocks = asserts (map (\<lambda>head. head = []) (list_heads fsb_empty))"

definition test_heap_start_aligned :: "unit res" where
  "test_heap_start_aligned = assert_that (HEAP_START mod 4096 = 0)"

definition test_heap_size_multiple_of_page :: "unit res" where
  "test_heap_size_multiple_of_page = assert_that (HEAP_SIZE mod 4096 = 0)"

definition test_heap_size_100_kib :: "unit res" where
  "test_heap_size_100_kib = assert_that (HEAP_SIZE = 100 * 1024)"

definition test_heap_start_address_range :: "unit res" where
  "test_heap_start_address_range = assert_that (HEAP_START > 0x10000)"

section \<open>They pass\<close>

lemma assert_that_iff [simp]: "assert_that c = Inr () \<longleftrightarrow> c"
  by (simp add: assert_that_def)

lemma assert_that_True [simp]: "c \<Longrightarrow> assert_that c = Inr ()"
  by simp

lemma asserts_True [simp]: "list_all id cs \<Longrightarrow> asserts cs = Inr ()"
  unfolding asserts_def by (induction cs) simp_all

lemma test_layouts:
  "is_power_of_two 1" "is_power_of_two 8" "is_power_of_two 16" "is_power_of_two 32" "is_power_of_two 64"
  "is_power_of_two 128" "is_power_of_two 256" "is_power_of_two 512" "is_power_of_two 1024" "is_power_of_two 2048"
  "is_power_of_two 4096"
  by (simp_all add: is_power_of_two_def upt_rec)

lemmas test_eval = test_layout_def from_size_align_def test_layouts

lemma bump_tests_pass:
  "test_bump_allocator_empty = Inr ()" "test_bump_allocator_init = Inr ()" "test_align_up_function = Inr ()"
  "test_bump_allocator_alignment = Inr ()" "test_bump_advances_monotonically = Inr ()"
  "test_bump_dealloc_is_a_noop = Inr ()" "test_bump_exhaustion_returns_null = Inr ()"
  by (simp_all add: test_bump_allocator_empty_def test_bump_allocator_init_def test_align_up_function_def
      test_bump_allocator_alignment_def test_bump_advances_monotonically_def test_bump_dealloc_is_a_noop_def
      test_bump_exhaustion_returns_null_def assert_align_up_def bump_empty_def bump_init_def bump_remaining_def
      bump_cursor_def bump_heap_size_def bump_alloc_def bump_dealloc_def test_eval ll_eval Let_def)

lemma block_tests_pass:
  "test_block_sizes_ascending_powers_of_two = Inr ()" "test_list_index_smallest_fit = Inr ()"
  "test_list_index_exact_match = Inr ()" "test_list_index_uses_alignment_when_larger = Inr ()"
  "test_list_index_too_large_returns_none = Inr ()" "test_some_block_can_hold_list_node = Inr ()"
  "test_empty_starts_with_no_cached_blocks = Inr ()" "test_heap_start_aligned = Inr ()"
  "test_heap_size_multiple_of_page = Inr ()" "test_heap_size_100_kib = Inr ()" "test_heap_start_address_range = Inr ()"
  by (simp_all add: test_block_sizes_ascending_powers_of_two_def test_list_index_smallest_fit_def
      test_list_index_exact_match_def test_list_index_uses_alignment_when_larger_def
      test_list_index_too_large_returns_none_def test_some_block_can_hold_list_node_def
      test_empty_starts_with_no_cached_blocks_def test_heap_start_aligned_def test_heap_size_multiple_of_page_def
      test_heap_size_100_kib_def test_heap_start_address_range_def assert_list_index_def test_eval fsb_eval
      MIN_BLOCK_def NODE_ALIGN_def HEAP_START_def HEAP_SIZE_def)


text \<open>
  The tests on the static heap, for any page-aligned address of it: an address inside the heap is
  the start plus an offset, and rounding it up rounds the offset.
\<close>

definition test_heap_ok :: "usize \<Rightarrow> bool" where
  "test_heap_ok start \<longleftrightarrow> 0 < start \<and> start \<le> 2 ^ 62 \<and> 4096 dvd start"

lemma align_up_offset:
  assumes "test_heap_ok start" and "is_power_of_two al" and "al dvd 4096" and "c \<le> 2 ^ 62"
  shows "align_up (start + c) al = Inr (start + (c + al - 1) div al * al)"
proof -
  have al: "0 < al" "al \<le> 4096" using assms(2,3) is_power_of_two_pos by (auto dest: dvd_imp_le)
  have "al dvd start" using assms(1,3) dvd_trans by (auto simp: test_heap_ok_def)
  then obtain k where k: "start = al * k" by (rule dvdE)
  have "start + c + al - 1 = (c + al - 1) + al * k" using al(1) k by simp
  then have "(start + c + al - 1) div al * al = start + (c + al - 1) div al * al"
    using al(1) k by (simp only: div_mult_self2 add_mult_distrib) simp
  moreover have "start + c + al \<le> USIZE_MAX" using assms(1,4) al(2) by (simp add: test_heap_ok_def USIZE_MAX_def)
  ultimately show ?thesis using align_up_eq [OF assms(2), of "start + c"] by simp
qed

lemma align_up_offset':
  "test_heap_ok start \<Longrightarrow> is_power_of_two al \<Longrightarrow> al dvd 4096 \<Longrightarrow> c \<le> 2 ^ 62 \<Longrightarrow>
    align_up (c + start) al = Inr (start + (c + al - 1) div al * al)"
  using align_up_offset [of start al c] by (simp add: add.commute)

lemma align_up_start: "test_heap_ok start \<Longrightarrow> is_power_of_two al \<Longrightarrow> al dvd 4096 \<Longrightarrow> align_up start al = Inr start"
  using align_up_offset [of start al 0] is_power_of_two_pos [of al] by (simp add: div_less)

lemma test_sizes:
  "allocation_size \<lparr>layout_size = Suc 0, layout_align = a\<rparr> = Inr 16"
  "allocation_size \<lparr>layout_size = 8, layout_align = a\<rparr> = Inr 16"
  "allocation_size \<lparr>layout_size = 17, layout_align = a\<rparr> = Inr 24"
  "allocation_size \<lparr>layout_size = 64, layout_align = a\<rparr> = Inr 64"
  "allocation_size \<lparr>layout_size = 128, layout_align = a\<rparr> = Inr 128"
  "allocation_size \<lparr>layout_size = 256, layout_align = a\<rparr> = Inr 256"
  "allocation_size \<lparr>layout_size = 768, layout_align = a\<rparr> = Inr 768"
  "allocation_size \<lparr>layout_size = 1024, layout_align = a\<rparr> = Inr 1024"
  "allocation_size \<lparr>layout_size = 3824, layout_align = a\<rparr> = Inr 3824"
  "allocation_size \<lparr>layout_size = 4080, layout_align = a\<rparr> = Inr 4080"
  "allocation_size \<lparr>layout_size = 8192, layout_align = a\<rparr> = Inr 8192"
  by (simp_all add: ll_eval)

lemmas list_test_eval = ll_init_def ll_empty_def ll_alloc_def ll_dealloc_def find_region_def put_back_def
  add_free_region_def allocation_align_def end_addr_def usize_add_def usize_sub_def checked_add_def
  saturating_add_def USIZE_MAX_def MIN_BLOCK_def NODE_ALIGN_def ll_free_bytes_def
  test_sizes align_up_offset align_up_offset' align_up_start test_layouts

lemma test_heap_bounds: "test_heap_ok start \<Longrightarrow> 0 < start \<and> start \<le> 4611686018427387904"
  by (simp add: test_heap_ok_def)

text \<open>The allocator with one free region from an offset to the end of the heap.\<close>

definition test_tail :: "usize \<Rightarrow> usize \<Rightarrow> LinkedListAllocator" where
  "test_tail start c = \<lparr>ll_head = (if c < 4096 then [\<lparr>node_start = start + c, node_size = 4096 - c\<rparr>] else []),
    ll_heap_start = start, ll_heap_end = start + 4096\<rparr>"

lemma test_allocator_eq: "test_heap_ok start \<Longrightarrow> test_allocator start = Inr (test_tail start 0)"
  using test_heap_bounds [of start]
  by (simp add: test_allocator_def TEST_HEAP_SIZE_def test_tail_def list_test_eval)


lemma tail_alloc:
  assumes "test_heap_ok start" and "8 dvd c" and "8 dvd n" and "16 \<le> n" and "c + n = 4096 \<or> c + n + 16 \<le> 4096"
  shows "ll_alloc (test_tail start c) \<lparr>layout_size = n, layout_align = 8\<rparr> = Inr (test_tail start (c + n), start + c)"
proof -
  have size: "allocation_size \<lparr>layout_size = n, layout_align = 8\<rparr> = Inr n"
  proof -
    have "n + 8 \<le> USIZE_MAX" using assms(5) by (auto simp: USIZE_MAX_def)
    then have "align_up n 8 = Inr n" using align_up_id [of 8 n] assms(3) by (simp add: test_layouts)
    then show ?thesis using assms(4) by (simp add: allocation_size_def MIN_BLOCK_def NODE_ALIGN_def max_def)
  qed
  have up: "align_up (start + d) 8 = Inr (start + d)" if "8 dvd d" "d \<le> 4096" for d
  proof -
    have "(d + 8 - 1) div 8 * 8 = d" using that(1) by (auto simp: dvd_def)
    then show ?thesis using align_up_offset [OF assms(1), of 8 d] that(2) by (simp add: test_layouts)
  qed
  have "8 dvd c + n" using assms(2,3) by (rule dvd_add)
  then show ?thesis
    using assms(4,5) up [OF assms(2)] up [of "c + n"] test_heap_bounds [OF assms(1)]
    by (auto simp: ll_alloc_def size test_tail_def find_region_def put_back_def add_free_region_def end_addr_def
        usize_add_def usize_sub_def checked_add_def saturating_add_def USIZE_MAX_def MIN_BLOCK_def NODE_ALIGN_def
        allocation_align_def add.assoc Let_def)
qed

lemma list_tests_pass_1:
  assumes "test_heap_ok start"
  shows "test_list_node_layout start = Inr ()" and "test_init_creates_one_free_region start = Inr ()"
    and "test_allocations_do_not_overlap start = Inr ()"
    and "test_dealloc_reuses_the_freed_region start = Inr ()"
    and "test_small_layouts_are_rounded_up_and_reusable start = Inr ()"
  using assms test_heap_bounds [OF assms]
  by (simp_all add: test_list_node_layout_def test_init_creates_one_free_region_def test_allocations_do_not_overlap_def
      test_dealloc_reuses_the_freed_region_def test_small_layouts_are_rounded_up_and_reusable_def free_region_count_def
      test_allocator_eq test_tail_def TEST_HEAP_SIZE_def test_layout_def from_size_align_def list_test_eval)

lemma list_tests_pass_2:
  assumes "test_heap_ok start"
  shows "test_adjacent_regions_coalesce start = Inr ()"
    and "test_unlink_keeps_successor_regions start = Inr ()"
  using assms test_heap_bounds [OF assms]
  by (simp_all add: test_adjacent_regions_coalesce_def test_unlink_keeps_successor_regions_def free_region_count_def
      test_allocator_eq test_tail_def TEST_HEAP_SIZE_def test_layout_def from_size_align_def list_test_eval)


text \<open>Each alignment is served at the start of the heap, and the block comes back whole.\<close>

lemma alloc_with_align_ok:
  assumes "test_heap_ok start" and "align \<in> {1, 8, 16, 64, 256, 4096}"
  shows "alloc_with_align align (test_tail start 0) = Inr (test_tail start 0)"
proof -
  have al: "is_power_of_two align" "is_power_of_two (max align 8)" "max align 8 dvd 4096" "align \<le> 4096"
    using assms(2) by (auto simp: test_layouts max_def)
  have "align dvd start" "8 dvd start"
    using assms by (auto simp: test_heap_ok_def intro: dvd_trans [of _ 4096])
  then have aligned: "start mod align = 0" "start mod 8 = 0" by simp_all
  have up: "align_up start (max align 8) = Inr start" "align_up start 8 = Inr start"
    using align_up_start [OF assms(1)] al by (simp_all add: test_layouts)
  show ?thesis
    using al(1,4) aligned up test_heap_bounds [OF assms(1)] align_up_offset [OF assms(1), of 8 16]
    by (simp add: alloc_with_align_def test_tail_def test_layout_def from_size_align_def test_sizes ll_alloc_def
        ll_dealloc_def find_region_def put_back_def add_free_region_def end_addr_def usize_add_def usize_sub_def
        checked_add_def saturating_add_def USIZE_MAX_def MIN_BLOCK_def NODE_ALIGN_def allocation_align_def test_layouts)
qed

lemma exhaust_ok:
  assumes "test_heap_ok start" and "c = 64 * k" and "k + n = 64"
  shows "exhaust (Suc n) \<lparr>layout_size = 64, layout_align = 8\<rparr> (test_tail start c) = Inr (test_tail start 4096)"
  using assms(2,3)
proof (induction n arbitrary: c k)
  case 0
  then show ?case by (simp add: test_tail_def ll_alloc_def find_region_def test_sizes)
next
  case (Suc n)
  then have "ll_alloc (test_tail start c) \<lparr>layout_size = 64, layout_align = 8\<rparr> = Inr (test_tail start (c + 64), start + c)"
    by (intro tail_alloc [OF assms(1)]) auto
  moreover have "exhaust (Suc n) \<lparr>layout_size = 64, layout_align = 8\<rparr> (test_tail start (c + 64)) = Inr (test_tail start 4096)"
    using Suc.IH [of "c + 64" "Suc k"] Suc.prems by simp
  ultimately show ?case using test_heap_bounds [OF assms(1)] by simp
qed

lemma alloc_blocks_ok:
  assumes "test_heap_ok start" and "n \<le> 31"
  shows "for_res (alloc_block \<lparr>layout_size = 128, layout_align = 8\<rparr>) [0..<n] (test_tail start 0, []) =
    Inr (test_tail start (128 * n), map (\<lambda>i. start + 128 * i) [0..<n])"
  using assms(2)
proof (induction n)
  case (Suc n)
  have "ll_alloc (test_tail start (128 * n)) \<lparr>layout_size = 128, layout_align = 8\<rparr> =
      Inr (test_tail start (128 * n + 128), start + 128 * n)"
    using Suc.prems by (intro tail_alloc [OF assms(1)]) auto
  then show ?case
    using Suc test_heap_bounds [OF assms(1)] by (simp add: for_res_append alloc_block_def add.commute)
qed simp

text \<open>Freeing the blocks in order grows the region at the start; the last one closes the gap.\<close>

definition grown :: "usize \<Rightarrow> nat \<Rightarrow> LinkedListAllocator" where
  "grown start k = \<lparr>ll_head = (if k = 0 then [] else [\<lparr>node_start = start, node_size = 128 * k\<rparr>]) @
      [\<lparr>node_start = start + 2048, node_size = 2048\<rparr>], ll_heap_start = start, ll_heap_end = start + 4096\<rparr>"

lemma free_block_ok:
  assumes "test_heap_ok start" and "k < 16"
  shows "ll_dealloc (grown start k) (start + 128 * k) \<lparr>layout_size = 128, layout_align = 8\<rparr> =
    Inr (if k < 15 then grown start (Suc k) else test_tail start 0)"
proof -
  have "align_up (start + 128 * k) 8 = Inr (start + 128 * k)"
    using align_up_offset [OF assms(1), of 8 "128 * k"] assms(2) by (simp add: test_layouts)
  then show ?thesis
    using assms(2) test_heap_bounds [OF assms(1)]
    by (cases k) (auto simp: grown_def test_tail_def ll_dealloc_def add_free_region_def end_addr_def usize_add_def
        test_sizes saturating_add_def USIZE_MAX_def MIN_BLOCK_def NODE_ALIGN_def)
qed

lemma free_blocks_ok:
  assumes "test_heap_ok start" and "k < 16"
  shows "for_res (\<lambda>block allocator. ll_dealloc allocator block \<lparr>layout_size = 128, layout_align = 8\<rparr>)
      (map (\<lambda>i. start + 128 * i) [0..<k]) (test_tail start 2048) = Inr (grown start k)"
  using assms(2)
proof (induction k)
  case 0
  then show ?case by (simp add: test_tail_def grown_def)
next
  case (Suc k)
  then show ?case using free_block_ok [OF assms(1), of k] by (simp add: for_res_append)
qed

lemma list_tests_pass_3:
  assumes "test_heap_ok start"
  shows "test_alloc_is_aligned start = Inr ()"
    and "test_exhaustion_returns_null start = Inr ()"
    and "test_free_list_keeps_full_heap_after_release start = Inr ()"
proof -
  show "test_alloc_is_aligned start = Inr ()"
    using alloc_with_align_ok [OF assms] by (simp add: test_alloc_is_aligned_def test_allocator_eq [OF assms])
  have "ll_alloc (test_tail start 0) \<lparr>layout_size = 8192, layout_align = 8\<rparr> = Inr (test_tail start 0, 0)"
    using assms test_heap_bounds [OF assms] by (simp add: test_tail_def list_test_eval)
  moreover have "exhaust 65 \<lparr>layout_size = 64, layout_align = 8\<rparr> (test_tail start 0) = Inr (test_tail start 4096)"
    using exhaust_ok [OF assms, of 0 0 64] by (simp add: numeral_eq_Suc del: exhaust.simps)
  moreover have "ll_alloc (test_tail start 4096) \<lparr>layout_size = 64, layout_align = 8\<rparr> = Inr (test_tail start 4096, 0)"
    by (simp add: test_tail_def list_test_eval)
  ultimately show "test_exhaustion_returns_null start = Inr ()"
    by (simp add: test_exhaustion_returns_null_def test_allocator_eq [OF assms] TEST_HEAP_SIZE_def test_eval)
  have free: "for_res (\<lambda>block allocator. ll_dealloc allocator block \<lparr>layout_size = 128, layout_align = 8\<rparr>)
      (map (\<lambda>i. start + 128 * i) [0..<16]) (test_tail start 2048) = Inr (test_tail start 0)"
    using free_blocks_ok [OF assms, of 15] free_block_ok [OF assms, of 15]
    by (simp add: for_res_append upt_Suc_append [of 0 15, simplified])
  have "ll_alloc (test_tail start 0) \<lparr>layout_size = 4080, layout_align = 8\<rparr> = Inr (test_tail start (0 + 4080), start + 0)"
    by (rule tail_alloc [OF assms]) simp_all
  then show "test_free_list_keeps_full_heap_after_release start = Inr ()"
    using alloc_blocks_ok [OF assms, of 16] free
    by (simp add: test_free_list_keeps_full_heap_after_release_def test_allocator_eq [OF assms] TEST_HEAP_SIZE_def
        test_eval MIN_BLOCK_def free_region_count_def ll_free_bytes_def test_tail_def [of start 0] usize_add_def
        USIZE_MAX_def del: upt.simps)
qed

lemma list_tests_pass_4:
  assumes "test_heap_ok start"
  shows "test_odd_sizes_keep_free_regions_aligned start = Inr ()"
proof -
  have "16 dvd start" using assms by (auto simp: test_heap_ok_def intro: dvd_trans [of _ 4096])
  then show ?thesis
    using assms test_heap_bounds [OF assms]
    by (simp add: test_odd_sizes_keep_free_regions_aligned_def free_region_count_def mod_eq_0_iff_dvd
        test_allocator_eq test_tail_def TEST_HEAP_SIZE_def test_layout_def from_size_align_def list_test_eval)
qed

end
