(* ===== verification/Unit_Tests_Kernel.thy ===== *)
theory Unit_Tests_Kernel
  imports Boot Unit_Tests_Heap
begin

text \<open>
  The unit tests that the kernel's modules carry, apart from those of the allocators: one
  definition per test of \<open>scheduler.rs\<close>, \<open>process.rs\<close>, \<open>thread.rs\<close>, \<open>kernel/mod.rs\<close>, \<open>task/\<close>,
  \<open>vga_buffer.rs\<close>, \<open>logger.rs\<close>, \<open>gdt.rs\<close>, \<open>interrupts.rs\<close>, \<open>syscall.rs\<close>, \<open>userland.rs\<close>, \<open>memory.rs\<close>,
  \<open>serial.rs\<close> and \<open>lib.rs\<close>. The test kernel runs all of them in one address space, so a test
  that touches the statics is a function on \<open>test_state\<close>: the kernel, the counter of the task ids
  and the serial log. The addresses that the heap returns for the boxes of a thread are those of
  the platform. A loop that does not return fails its test, as the time limit of the emulator does.
\<close>

record ('q, 's) test_state =
  ts_kernel :: "('q, 's) kernel"
  ts_next_task :: u64
  ts_log :: serial_log

definition returns :: "'a res option \<Rightarrow> 'a res" where
  "returns r = (case r of None \<Rightarrow> Inl (Panicked ''time limit exceeded'') | Some r \<Rightarrow> r)"

definition on_kernel ::
  "(('q, 's) kernel \<Rightarrow> ('q, 's) kernel res) \<Rightarrow> ('q, 's) test_state \<Rightarrow> ('q, 's) test_state res" where
  "on_kernel f ts = bind_res (f (ts_kernel ts)) (\<lambda>k. Inr (ts\<lparr>ts_kernel := k\<rparr>))"

section \<open>Constants and tables\<close>

definition SERIAL_PORT_BASE :: u16 where
  "SERIAL_PORT_BASE = 0x3F8"

definition test_serial_port_base_address :: "unit res" where
  "test_serial_port_base_address = assert_that (SERIAL_PORT_BASE = 0x3F8)"

definition test_serial_port_base_valid_range :: "unit res" where
  "test_serial_port_base_valid_range = assert_that (SERIAL_PORT_BASE > 0)"

definition test_serial_port_base_standard_com1 :: "unit res" where
  "test_serial_port_base_standard_com1 = assert_that (SERIAL_PORT_BASE = 0x3F8)"

definition test_qemu_exit_code_values :: "unit res" where
  "test_qemu_exit_code_values = asserts [qemu_u32 Success = 0x10, qemu_u32 Failed = 0x11]"

definition test_qemu_exit_codes_are_distinct :: "unit res" where
  "test_qemu_exit_codes_are_distinct = assert_that (Success \<noteq> Failed)"

definition test_pic_offsets_are_standard :: "unit res" where
  "test_pic_offsets_are_standard = asserts [PIC_1_OFFSET = 32, PIC_2_OFFSET = 40]"

definition test_interrupt_index_values :: "unit res" where
  "test_interrupt_index_values =
    asserts [as_u8 InterruptIndex.Timer = PIC_1_OFFSET, as_u8 Keyboard = PIC_1_OFFSET + 1]"

definition test_syscall_vector_value :: "unit res" where
  "test_syscall_vector_value = assert_that (SYSCALL_VECTOR = 0x80)"

definition test_double_fault_ist_index_zero :: "unit res" where
  "test_double_fault_ist_index_zero = assert_that (DOUBLE_FAULT_IST_INDEX = 0)"

definition test_ist_index_within_bounds :: "unit res" where
  "test_ist_index_within_bounds = assert_that (DOUBLE_FAULT_IST_INDEX < 7)"

definition test_ist_stack_size_is_20_kib :: "unit res" where
  "test_ist_stack_size_is_20_kib = assert_that (IST_STACK_SIZE = 20480)"

definition test_user_selectors_have_rpl3 :: "('m, 'g) platform \<Rightarrow> unit res" where
  "test_user_selectors_have_rpl3 pf =
    bind_res (GDT_init (pf_gdt_new pf) (pf_add_entry pf)) (\<lambda>(_, s).
    asserts [gs_user_code s AND 3 = 3, gs_user_data s AND 3 = 3, gs_kernel_code s AND 3 = 0])"

definition frame_slots :: "SyscallFrame \<Rightarrow> u64 list" where
  "frame_slots f =
    [f_r15 f, f_r14 f, f_r13 f, f_r12 f, f_r11 f, f_r10 f, f_r9 f, f_r8 f, f_rdi f, f_rsi f, f_rbp f,
     f_rbx f, f_rdx f, f_rcx f, f_rax f, f_rip f, f_cs f, f_rflags f, f_user_rsp f, f_user_ss f]"

definition test_syscall_frame_layout_is_120_plus_40_bytes :: "unit res" where
  "test_syscall_frame_layout_is_120_plus_40_bytes =
    assert_that (length (frame_slots (read_frame (\<lambda>_. 0) 0)) * 8 = 160)"

definition test_user_buffer_validation_rejects_out_of_range :: "unit res" where
  "test_user_buffer_validation_rejects_out_of_range =
    asserts [user_bytes 0x1000 1 = None, user_bytes (USER_STACK_TOP - 1) 2 = None,
      user_bytes USER_CODE_BASE (of_nat MAX_USER_IO + 1) = None, user_bytes (- 1) 2 = None]"

definition test_user_addresses_are_page_aligned_and_distinct :: "unit res" where
  "test_user_addresses_are_page_aligned_and_distinct =
    asserts [USER_CODE_BASE mod 4096 = 0, USER_STACK_BASE mod 4096 = 0, USER_STACK_TOP mod 4096 = 0,
      USER_STACK_TOP > USER_STACK_BASE, USER_CODE_BASE \<noteq> USER_STACK_BASE]"

definition test_user_demo_fits_in_a_page :: "unit res" where
  "test_user_demo_fits_in_a_page = asserts [length USER_DEMO \<le> 4096, length USER_DEMO \<ge> 19]"

definition test_log_level_tags :: "unit res" where
  "test_log_level_tags =
    asserts [level_tag Trace = ascii ''TRC'', level_tag Debug = ascii ''DBG'', level_tag Info = ascii ''INF'',
      level_tag Warn = ascii ''WRN'', level_tag Error = ascii ''ERR'']"

definition test_scancode_queue_capacity_constant :: "unit res" where
  "test_scancode_queue_capacity_constant = assert_that (SCANCODE_QUEUE_CAPACITY \<ge> 32)"

definition test_request_service_mapping :: "unit res" where
  "test_request_service_mapping =
    asserts [request_service ProcessCount = ServiceId.Process, request_service ThreadYield = ServiceId.Thread,
      request_service SchedulerStats = ServiceId.Scheduler, request_service MemoryStats = ServiceId.Memory,
      request_service TimerTicks = ServiceId.Timer, request_service InputReadByte = ServiceId.Input,
      request_service (ConsoleWrite (ascii ''x'')) = ServiceId.Console]"

section \<open>Addresses\<close>

definition test_page_containing_address :: "('m, 'g) platform \<Rightarrow> unit res" where
  "test_page_containing_address pf =
    bind_res (pf_virt_new pf 0x8000) (\<lambda>addr.
    let page = pf_page_of pf addr in
    bind_res (pf_virt_new pf 0x8000) (\<lambda>expected. assert_that (page = expected)))"

definition test_page_range_inclusive :: "('m, 'g) platform \<Rightarrow> unit res" where
  "test_page_range_inclusive pf =
    bind_res (pf_virt_new pf 0x1000) (\<lambda>a.
    bind_res (pf_virt_new pf 0x3000) (\<lambda>b.
    let n = fold (\<lambda>_ n. n + 1) (pf_page_range pf (pf_page_of pf a) (pf_page_of pf b)) (0 :: nat) in
    assert_that (n = 3)))"

definition test_phys_frame_containing_address :: "('m, 'g) platform \<Rightarrow> unit res" where
  "test_phys_frame_containing_address pf =
    bind_res (pf_phys_frame pf 0xb8000) (\<lambda>fr. assert_that (fr = 0xb8000))"

definition test_page_table_flags_present_writable :: "unit res" where
  "test_page_table_flags_present_writable =
    (let flags = {PRESENT} \<union> {WRITABLE} in asserts [PRESENT \<in> flags, WRITABLE \<in> flags])"

definition test_vga_frame_address :: "('m, 'g) platform \<Rightarrow> unit res" where
  "test_vga_frame_address pf =
    (let vga_addr = 0xb8000 in
     bind_res (pf_phys_frame pf vga_addr) (\<lambda>fr. assert_that (fr = vga_addr)))"

section \<open>The runtime counters\<close>

definition test_new_scheduler_is_zeroed :: "unit res" where
  "test_new_scheduler_is_zeroed =
    (let s = Scheduler_new in
     asserts [ticks s = 0, threads_alive s = 0, threads_spawned s = 0, tasks_alive s = 0,
       tasks_spawned s = 0, tasks_completed s = 0])"

definition test_tick_increments_counter :: "unit res" where
  "test_tick_increments_counter =
    (let s = Scheduler_new in
     bind_res (tick s) (\<lambda>(s, _).
     bind_res (tick s) (\<lambda>(s, _).
     bind_res (tick s) (\<lambda>(s, _).
     assert_that (ticks s = 3)))))"

definition test_thread_spawn_and_exit_balance :: "unit res" where
  "test_thread_spawn_and_exit_balance =
    (let s = note_thread_spawned (note_thread_spawned Scheduler_new) in
     bind_res (asserts [threads_alive s = 2, threads_spawned s = 2]) (\<lambda>_.
     let s = note_thread_exited s in
     asserts [threads_alive s = 1, threads_spawned s = 2]))"

definition test_process_spawn_and_exit_balance :: "unit res" where
  "test_process_spawn_and_exit_balance =
    (let s = note_process_spawned (note_process_spawned Scheduler_new) in
     bind_res (asserts [processes_alive s = 2, processes_spawned s = 2]) (\<lambda>_.
     let s = note_process_exited s in
     asserts [processes_alive s = 1, processes_spawned s = 2]))"

definition test_task_spawn_and_complete_balance :: "unit res" where
  "test_task_spawn_and_complete_balance =
    (let s = note_task_spawned (note_task_spawned Scheduler_new) in
     bind_res (asserts [tasks_alive s = 2, tasks_spawned s = 2]) (\<lambda>_.
     let s = note_task_completed s in
     asserts [tasks_alive s = 1, tasks_completed s = 1, tasks_spawned s = 2]))"

section \<open>Processes\<close>

definition register :: "Process \<Rightarrow> ('q, 's) kernel \<Rightarrow> ('q, 's) kernel \<times> ProcessId" where
  "register p k = register_process p k"

definition exit :: "ProcessId \<Rightarrow> i32 \<Rightarrow> ('q, 's) kernel \<Rightarrow> ('q, 's) kernel" where
  "exit i code k = fst (exit_process i code k)"

definition snapshot :: "('q, 's) kernel \<Rightarrow> ProcessId \<Rightarrow> ProcessSnapshot option" where
  "snapshot k i = process_snapshot (k_process k) i"

definition test_kernel_pid_is_zero :: "unit res" where
  "test_kernel_pid_is_zero = assert_that (KERNEL_PID = 0)"

definition test_new_pids_unique_and_skip_zero :: "('q, 's) kernel \<Rightarrow> ('q, 's) kernel res" where
  "test_new_pids_unique_and_skip_zero k =
    (let (ps, a) = ProcessId_new (k_process k); (ps, b) = ProcessId_new ps in
     bind_res (asserts [a \<noteq> b, a \<ge> 1, b > a, a \<noteq> KERNEL_PID]) (\<lambda>_. Inr (k\<lparr>k_process := ps\<rparr>)))"

definition test_process_register_and_exit_round_trip :: "('q, 's) kernel \<Rightarrow> ('q, 's) kernel res" where
  "test_process_register_and_exit_round_trip k =
    (let before_alive = processes_alive (SCHEDULER (k_thread k));
         before_spawned = processes_spawned (SCHEDULER (k_thread k));
         (ps, p) = Process_new 0x400000000000 0x400000003000 (k_process k);
         i = pid p; (k, registered) = register p (k\<lparr>k_process := ps\<rparr>) in
     bind_res (asserts [registered = i, processes_alive (SCHEDULER (k_thread k)) = before_alive + 1,
       processes_spawned (SCHEDULER (k_thread k)) = before_spawned + 1]) (\<lambda>_.
     bind_res (expect (snapshot k i) ''registered process should be visible'') (\<lambda>snap.
     bind_res (asserts [snap_pid snap = i, snap_user_entry snap = 0x400000000000,
       snap_user_stack_top snap = 0x400000003000, snap_state snap = Ready]) (\<lambda>_.
     let k = exit i 0 k in
     bind_res (asserts [processes_alive (SCHEDULER (k_thread k)) = before_alive,
       processes_spawned (SCHEDULER (k_thread k)) = before_spawned + 1, snapshot k i = None]) (\<lambda>_.
     Inr k)))))"

section \<open>Requests\<close>

definition create ::
  "(u8, 'q) queue_ops \<Rightarrow> u64 \<times> u64 \<Rightarrow> u64 \<Rightarrow> u64 \<Rightarrow> ('q, 's) kernel \<Rightarrow> (('q, 's) kernel \<times> ProcessId) res" where
  "create Q boxes entry stack_top k =
    bind_res (call Q boxes Kernel (ProcessCreate entry stack_top) k) (\<lambda>(k, r).
    case r of
      Reply (Response.Process i) \<Rightarrow> Inr (k, i)
    | _ \<Rightarrow> Inl (Panicked ''unexpected create response''))"

definition test_process_lifecycle_through_call ::
  "(u8, 'q) queue_ops \<Rightarrow> u64 \<times> u64 \<Rightarrow> ('q, 's) kernel \<Rightarrow> ('q, 's) kernel res" where
  "test_process_lifecycle_through_call Q boxes k =
    (let before = process_count (k_process k) in
     bind_res (create Q boxes 0x400000000000 0x400000003000 k) (\<lambda>(k, i).
     bind_res (asserts [process_count (k_process k) = before + 1, process_snapshot (k_process k) i \<noteq> None]) (\<lambda>_.
     bind_res (call Q boxes (User i) (ProcessExit i 7) k) (\<lambda>(k, response).
     bind_res (asserts [response = Reply Ok, process_count (k_process k) = before,
       process_snapshot (k_process k) i = None]) (\<lambda>_.
     Inr k)))))"

definition test_user_cannot_exit_another_process ::
  "(u8, 'q) queue_ops \<Rightarrow> u64 \<times> u64 \<Rightarrow> ('q, 's) kernel \<Rightarrow> ('q, 's) kernel res" where
  "test_user_cannot_exit_another_process Q boxes k =
    bind_res (create Q boxes 0x400000000000 0x400000003000 k) (\<lambda>(k, first).
    bind_res (create Q boxes 0x400000000000 0x400000003000 k) (\<lambda>(k, second).
    bind_res (call Q boxes (User first) (ProcessExit second 0) k) (\<lambda>(k, response).
    bind_res (asserts [response = Reply (Err Denied), process_snapshot (k_process k) second \<noteq> None]) (\<lambda>_.
    Inr (fst (exit_process second 0 (fst (exit_process first 0 k))))))))"

definition test_user_cannot_create_processes ::
  "(u8, 'q) queue_ops \<Rightarrow> u64 \<times> u64 \<Rightarrow> ('q, 's) kernel \<Rightarrow> ('q, 's) kernel res" where
  "test_user_cannot_create_processes Q boxes k =
    bind_res (call Q boxes (User KERNEL_PID) (ProcessCreate 0x400000000000 0x400000003000) k) (\<lambda>(k, response).
    bind_res (assert_that (response = Reply (Err Denied))) (\<lambda>_. Inr k))"

definition test_memory_and_timer_requests ::
  "(u8, 'q) queue_ops \<Rightarrow> u64 \<times> u64 \<Rightarrow> ('q, 's) kernel \<Rightarrow> ('q, 's) kernel res" where
  "test_memory_and_timer_requests Q boxes k =
    bind_res (call Q boxes Kernel MemoryStats k) (\<lambda>(k, r).
    case r of
      Reply (Response.Memory memory) \<Rightarrow>
        bind_res (asserts [ms_heap_size memory = HEAP_SIZE, ms_heap_free memory \<le> ms_heap_size memory]) (\<lambda>_.
        bind_res (call Q boxes Kernel TimerTicks k) (\<lambda>(k, r).
        case r of
          Reply (Ticks t) \<Rightarrow>
            bind_res (call Q boxes Kernel TimerTicks k) (\<lambda>(k, r).
            case r of
              Reply (Ticks again) \<Rightarrow> bind_res (assert_that (again \<ge> t)) (\<lambda>_. Inr k)
            | _ \<Rightarrow> Inl (Panicked ''timer request failed''))
        | _ \<Rightarrow> Inl (Panicked ''timer request failed'')))
    | _ \<Rightarrow> Inl (Panicked ''memory stats request failed''))"

section \<open>Threads\<close>

definition ThreadId_new :: "thread_state \<Rightarrow> thread_state \<times> u64" where
  "ThreadId_new s = (s\<lparr>NEXT_TID := NEXT_TID s + 1\<rparr>, NEXT_TID s)"

definition test_thread_ids_are_unique_and_skip_zero :: "('q, 's) kernel \<Rightarrow> ('q, 's) kernel res" where
  "test_thread_ids_are_unique_and_skip_zero k =
    (let (s, a) = ThreadId_new (k_thread k); (s, b) = ThreadId_new s in
     bind_res (asserts [a \<noteq> b, a \<ge> 1, b > a, a \<noteq> BOOTSTRAP_ID]) (\<lambda>_. Inr (k\<lparr>k_thread := s\<rparr>)))"

definition test_kernel_thread_initial_state_and_stack_setup ::
  "u64 \<times> u64 \<Rightarrow> u64 \<Rightarrow> ('q, 's) kernel \<Rightarrow> ('q, 's) kernel res" where
  "test_kernel_thread_initial_state_and_stack_setup boxes dummy k =
    (let (s, i) = ThreadId_new (k_thread k) in
     bind_res (KernelThread_new (k_memory k) i (fst boxes) (snd boxes) dummy KERNEL_PID) (\<lambda>(m, thread).
     let sp = unat (read64 m (kt_context thread)); base = unat (kt_stack thread) in
     bind_res (asserts [kt_process thread = KERNEL_PID, sp > base, sp \<le> base + STACK_SIZE, sp mod 8 = 0]) (\<lambda>_.
     Inr (k\<lparr>k_memory := m, k_thread := s\<rparr>))))"

text \<open>
  A private scheduler next to the global one: the statics of the module are shared, so its spawn
  draws from the same ids and the same counters. It is dropped when the test returns.
\<close>

definition test_scheduler_spawn_inserts_and_queues ::
  "u64 \<times> u64 \<Rightarrow> u64 \<Rightarrow> u64 \<Rightarrow> ('q, 's) kernel \<Rightarrow> ('q, 's) kernel res" where
  "test_scheduler_spawn_inserts_and_queues boxes dummy boot_ctx k =
    (let s = k_thread k; sched = s\<lparr>THREADS := ThreadScheduler_new boot_ctx\<rparr> in
     bind_res (spawn (k_memory k) (fst boxes) (snd boxes) dummy KERNEL_PID sched) (\<lambda>(m, sched, i).
     let front = (case ready (THREADS sched) of [] \<Rightarrow> None | j # _ \<Rightarrow> Some j) in
     bind_res (asserts [thread_count sched = 1, ready_count sched = 1, front = Some i]) (\<lambda>_.
     Inr (k\<lparr>k_memory := m, k_thread := sched\<lparr>THREADS := THREADS s\<rparr>\<rparr>))))"

text \<open>
  The spawned thread of the last test, with the value of \<open>SWITCH_HITS\<close>: it yields after the first
  increment and exits after the second. \<open>test_yield\<close> is a \<open>yield_now\<close> of the test, which returns when
  the bootstrap thread runs again.
\<close>

definition ping_thread :: "nat \<times> thread_state \<Rightarrow> (nat \<times> thread_state) res" where
  "ping_thread = (\<lambda>(hits, s).
    if hits = 0 then bind_res (yield_now s) (\<lambda>(s, _). Inr (hits + 1, s))
    else bind_res (exit_thread s) (\<lambda>(s, _). Inr (hits + 1, s)))"

definition test_yield :: "nat \<times> thread_state \<Rightarrow> (nat \<times> thread_state) res" where
  "test_yield = (\<lambda>(hits, s).
    bind_res (yield_now s) (\<lambda>(s, _).
    if current_id s = BOOTSTRAP_ID then Inr (hits, s) else ping_thread (hits, s)))"

definition test_yield_round_trips_through_spawned_thread ::
  "u64 \<times> u64 \<Rightarrow> u64 \<Rightarrow> ('q, 's) kernel \<Rightarrow> ('q, 's) kernel res" where
  "test_yield_round_trips_through_spawned_thread boxes ping k =
    bind_res (spawn (k_memory k) (fst boxes) (snd boxes) ping KERNEL_PID (k_thread k)) (\<lambda>(m, s, _).
    bind_res (test_yield (0, s)) (\<lambda>(hits, s).
    bind_res (assert_that (hits = 1)) (\<lambda>_.
    bind_res (test_yield (hits, s)) (\<lambda>(hits, s).
    bind_res (assert_that (hits = 2)) (\<lambda>_.
    bind_res (test_yield (hits, s)) (\<lambda>(_, s).
    bind_res (asserts [thread_count s = 0, ready_count s = 0, reaper (THREADS s) = None,
      current_id s = BOOTSTRAP_ID]) (\<lambda>_.
    Inr (k\<lparr>k_memory := m, k_thread := s\<rparr>))))))))"

section \<open>Tasks\<close>

definition with_tasks :: "('q, 's) test_state \<Rightarrow> u64 \<Rightarrow> Scheduler \<Rightarrow> ('q, 's) test_state" where
  "with_tasks ts next_id sc =
    (let k = ts_kernel ts in
     ts\<lparr>ts_kernel := k\<lparr>k_thread := (k_thread k)\<lparr>SCHEDULER := sc\<rparr>\<rparr>, ts_next_task := next_id\<rparr>)"

abbreviation counters :: "('q, 's) test_state \<Rightarrow> Scheduler" where
  "counters ts \<equiv> SCHEDULER (k_thread (ts_kernel ts))"

definition test_task_ids_are_unique_and_monotonic :: "('q, 's) test_state \<Rightarrow> ('q, 's) test_state res" where
  "test_task_ids_are_unique_and_monotonic ts =
    (let (n, a) = TaskId_new (ts_next_task ts); (n, b) = TaskId_new n; (n, c) = TaskId_new n in
     bind_res (asserts [a \<noteq> b, b \<noteq> c, a < b, b < c]) (\<lambda>_. Inr (ts\<lparr>ts_next_task := n\<rparr>)))"

definition test_task_carries_its_id :: "('q, 's) test_state \<Rightarrow> ('q, 's) test_state res" where
  "test_task_carries_its_id ts =
    (let (n, task) = Task_new () (ts_next_task ts); reported = task_id task in
     bind_res (assert_that (reported = task_id task)) (\<lambda>_. Inr (ts\<lparr>ts_next_task := n\<rparr>)))"

text \<open>The futures of the tests: each stores to its static and is ready.\<close>

definition store_future :: "(unit, bool) poll" where
  "store_future _ f flag = Inr (True, f, True, [])"

definition count_future :: "(unit, nat) poll" where
  "count_future _ f n = Inr (True, f, n + 1, [])"

definition test_task_runs_future_side_effects :: "('q, 's) test_state \<Rightarrow> ('q, 's) test_state res" where
  "test_task_runs_future_side_effects ts =
    (let (n, task) = Task_new () (ts_next_task ts) in
     bind_res (store_future (task_id task) (future task) False) (\<lambda>(is_ready, _, stored, _).
     bind_res (asserts [is_ready, stored]) (\<lambda>_. Inr (ts\<lparr>ts_next_task := n\<rparr>))))"

definition test_new_executor_has_no_tasks :: "(TaskId, 't) queue_ops \<Rightarrow> unit res" where
  "test_new_executor_has_no_tasks T =
    (let exec = CoopExecutor_new T :: (unit, 't) CoopExecutor in assert_that (task_count exec = 0))"

definition test_spawn_inserts_task_and_enqueues_id ::
  "(TaskId, 't) queue_ops \<Rightarrow> ('q, 's) test_state \<Rightarrow> ('q, 's) test_state res" where
  "test_spawn_inserts_task_and_enqueues_id T ts =
    (let (n, task) = Task_new () (ts_next_task ts); i = task_id task in
     bind_res (spawn_task T task (CoopExecutor_new T, counters ts)) (\<lambda>(exec, sc).
     bind_res (asserts [task_count exec = 1, map_option fst (q_pop T (task_queue exec)) = Some i]) (\<lambda>_.
     Inr (with_tasks ts n sc))))"

definition spawn_counting ::
  "(TaskId, 't) queue_ops \<Rightarrow> nat \<Rightarrow> u64 \<times> (unit, 't) CoopExecutor \<times> Scheduler \<Rightarrow>
    (u64 \<times> (unit, 't) CoopExecutor \<times> Scheduler) res" where
  "spawn_counting T _ = (\<lambda>(n, exec, sc).
    let (n, task) = Task_new () n in
    bind_res (spawn_task T task (exec, sc)) (\<lambda>(exec, sc). Inr (n, exec, sc)))"

definition test_run_ready_tasks_completes_simple_futures ::
  "(TaskId, 't) queue_ops \<Rightarrow> ('q, 's) test_state \<Rightarrow> ('q, 's) test_state res" where
  "test_run_ready_tasks_completes_simple_futures T ts =
    bind_res (for_res (spawn_counting T) [0..<3] (ts_next_task ts, CoopExecutor_new T, counters ts)) (\<lambda>(n, exec, sc).
    bind_res (returns (run_ready_tasks T count_future (exec, sc, 0))) (\<lambda>(exec, sc, hits).
    bind_res (asserts [hits = 3, task_count exec = 0]) (\<lambda>_. Inr (with_tasks ts n sc))))"

definition test_task_waker_pushes_id_to_queue ::
  "(TaskId, 't) queue_ops \<Rightarrow> ('q, 's) test_state \<Rightarrow> ('q, 's) test_state res" where
  "test_task_waker_pushes_id_to_queue T ts =
    (let queue = q_new T 4; (n, i) = TaskId_new (ts_next_task ts) in
     bind_res (wake_task T i queue) (\<lambda>queue.
     bind_res (wake_task T i queue) (\<lambda>queue.
     case q_pop T queue of
       None \<Rightarrow> Inl (Panicked ''assertion failed'')
     | Some (a, queue) \<Rightarrow>
         (case q_pop T queue of
            None \<Rightarrow> Inl (Panicked ''assertion failed'')
          | Some (b, queue) \<Rightarrow>
              bind_res (asserts [a = i, b = i, q_pop T queue = None]) (\<lambda>_.
              Inr (ts\<lparr>ts_next_task := n\<rparr>))))))"

definition test_run_ready_tasks_ignores_unknown_ids ::
  "(TaskId, 't) queue_ops \<Rightarrow> ('q, 's) test_state \<Rightarrow> ('q, 's) test_state res" where
  "test_run_ready_tasks_ignores_unknown_ids T ts =
    (let exec = CoopExecutor_new T :: (unit, 't) CoopExecutor; (n, i) = TaskId_new (ts_next_task ts) in
     bind_res (expect (q_push T i (task_queue exec)) ''queue should accept push'') (\<lambda>q.
     bind_res (returns (run_ready_tasks T count_future (exec\<lparr>task_queue := q\<rparr>, counters ts, 0))) (\<lambda>(exec, sc, _).
     bind_res (assert_that (task_count exec = 0)) (\<lambda>_. Inr (with_tasks ts n sc)))))"

section \<open>Devices\<close>

definition test_add_scancode_does_not_panic_when_queue_uninitialized ::
  "(u8, 'q) queue_ops \<Rightarrow> ('w, 's) waker_ops \<Rightarrow> ('q, 's) kernel \<Rightarrow> ('q, 's) kernel res" where
  "test_add_scancode_does_not_panic_when_queue_uninitialized Q W k =
    (let (i, _) = add_scancode Q W 0xAB (k_input k) in Inr (k\<lparr>k_input := i\<rparr>))"

definition test_dropped_messages_is_monotonic :: "('q, 's) test_state \<Rightarrow> ('q, 's) test_state res" where
  "test_dropped_messages_is_monotonic ts =
    (let before = dropped_messages (ts_log ts);
         log = log_print False (ascii ''logger monotonic dropped counter test'' @ [0x0a]) (ts_log ts);
         after = dropped_messages log in
     bind_res (assert_that (after \<ge> before)) (\<lambda>_. Inr (ts\<lparr>ts_log := log\<rparr>)))"

definition on_console :: "(Writer \<Rightarrow> Writer res) \<Rightarrow> ('q, 's) kernel \<Rightarrow> ('q, 's) kernel res" where
  "on_console f k = bind_res (f (k_console k)) (\<lambda>w. Inr (k\<lparr>k_console := w\<rparr>))"

definition test_println_simple :: "Writer \<Rightarrow> Writer res" where
  "test_println_simple w = vga_println (ascii ''test_println_simple output'') w"

definition test_println_many :: "Writer \<Rightarrow> Writer res" where
  "test_println_many w = for_res (\<lambda>_. vga_println (ascii ''test_println_many output'')) [0..<200] w"

definition assert_cell :: "Buffer \<Rightarrow> nat \<times> u8 \<Rightarrow> unit \<Rightarrow> unit res" where
  "assert_cell b = (\<lambda>(i, c) _.
    bind_res (cell_read b (BUFFER_HEIGHT - 2) i) (\<lambda>screen_char. assert_that (ascii_character screen_char = c)))"

definition test_println_output :: "Writer \<Rightarrow> Writer res" where
  "test_println_output w =
    (let s = ascii ''Some test string that fits on a single line'' in
     bind_res (write_string ([0x0a] @ s @ [0x0a]) w) (\<lambda>w.
     bind_res (for_res (assert_cell (buffer w)) (zip [0..<length s] s) ()) (\<lambda>_. Inr w)))"

definition test_breakpoint_exception ::
  "(u8, 'q) queue_ops \<Rightarrow> ('m, 'g) platform \<Rightarrow> ('q, 's) kernel \<Rightarrow> ('q, 's) kernel res" where
  "test_breakpoint_exception Q pf k =
    bind_res (take_exception Q (pf_report pf) 0x08 3 k) (\<lambda>(k, _). Inr k)"

end
