(* ===== verification/Unit_Tests.thy ===== *)
theory Unit_Tests
  imports Unit_Tests_Kernel
begin

text \<open>
  The unit tests as a suite. \<open>kernel_ready\<close> describes the kernel between two tests: no process and
  no thread is left, the screen and the heap are well formed, and the id counters are far from
  wrapping around. Every test passes from every such state and leaves one behind, so the suite
  passes in whatever order the compiler collects the tests. The result is composed with the
  entry of the test kernel and its runner.

  The module of \<open>userland.rs\<close> declares one test twice, which the compiler rejects; the suite has
  that test once.
\<close>

section \<open>The suite\<close>

type_synonym ('q, 's) unit_test = "('q, 's) test_state \<Rightarrow> ('q, 's) test_state res"

definition stateless :: "unit res \<Rightarrow> ('q, 's) unit_test" where
  "stateless r ts = bind_res r (\<lambda>_. Inr ts)"

definition allocator_tests :: "usize \<Rightarrow> unit res list" where
  "allocator_tests start =
    [test_bump_allocator_empty, test_bump_allocator_init, test_align_up_function, test_bump_allocator_alignment,
     test_bump_advances_monotonically, test_bump_dealloc_is_a_noop, test_bump_exhaustion_returns_null,
     test_list_node_layout start, test_init_creates_one_free_region start, test_alloc_is_aligned start,
     test_allocations_do_not_overlap start, test_dealloc_reuses_the_freed_region start,
     test_adjacent_regions_coalesce start, test_small_layouts_are_rounded_up_and_reusable start,
     test_odd_sizes_keep_free_regions_aligned start, test_exhaustion_returns_null start,
     test_unlink_keeps_successor_regions start, test_free_list_keeps_full_heap_after_release start,
     test_block_sizes_ascending_powers_of_two, test_list_index_smallest_fit, test_list_index_exact_match,
     test_list_index_uses_alignment_when_larger, test_list_index_too_large_returns_none,
     test_some_block_can_hold_list_node, test_empty_starts_with_no_cached_blocks, test_heap_start_aligned,
     test_heap_size_multiple_of_page, test_heap_size_100_kib, test_heap_start_address_range]"

definition constant_tests :: "(TaskId, 't) queue_ops \<Rightarrow> ('m, 'g) platform \<Rightarrow> unit res list" where
  "constant_tests T pf =
    [test_serial_port_base_address, test_serial_port_base_valid_range, test_serial_port_base_standard_com1,
     test_qemu_exit_code_values, test_qemu_exit_codes_are_distinct, test_pic_offsets_are_standard,
     test_interrupt_index_values, test_syscall_vector_value, test_double_fault_ist_index_zero,
     test_ist_index_within_bounds, test_ist_stack_size_is_20_kib, test_user_selectors_have_rpl3 pf,
     test_syscall_frame_layout_is_120_plus_40_bytes, test_user_buffer_validation_rejects_out_of_range,
     test_user_addresses_are_page_aligned_and_distinct, test_user_demo_fits_in_a_page, test_log_level_tags,
     test_scancode_queue_capacity_constant, test_request_service_mapping, test_page_containing_address pf,
     test_page_range_inclusive pf, test_phys_frame_containing_address pf, test_page_table_flags_present_writable,
     test_vga_frame_address pf, test_new_scheduler_is_zeroed, test_tick_increments_counter,
     test_thread_spawn_and_exit_balance, test_process_spawn_and_exit_balance,
     test_task_spawn_and_complete_balance, test_kernel_pid_is_zero, test_new_executor_has_no_tasks T]"

definition kernel_tests ::
  "(u8, 'q) queue_ops \<Rightarrow> ('w, 's) waker_ops \<Rightarrow> ('m, 'g) platform \<Rightarrow> u64 \<Rightarrow>
    (('q, 's) kernel \<Rightarrow> ('q, 's) kernel res) list" where
  "kernel_tests Q W pf boot_ctx =
    (let boxes = pf_boxes_a pf; entry = pf_worker_a pf in
     [test_new_pids_unique_and_skip_zero, test_process_register_and_exit_round_trip,
      test_process_lifecycle_through_call Q boxes, test_user_cannot_exit_another_process Q boxes,
      test_user_cannot_create_processes Q boxes, test_memory_and_timer_requests Q boxes,
      test_thread_ids_are_unique_and_skip_zero, test_kernel_thread_initial_state_and_stack_setup boxes entry,
      test_scheduler_spawn_inserts_and_queues boxes entry boot_ctx,
      test_yield_round_trips_through_spawned_thread boxes entry,
      test_add_scancode_does_not_panic_when_queue_uninitialized Q W,
      on_console test_println_simple, on_console test_println_many, on_console test_println_output,
      test_breakpoint_exception Q pf])"

definition task_tests :: "(TaskId, 't) queue_ops \<Rightarrow> ('q, 's) unit_test list" where
  "task_tests T =
    [test_task_ids_are_unique_and_monotonic, test_task_carries_its_id, test_task_runs_future_side_effects,
     test_spawn_inserts_task_and_enqueues_id T, test_run_ready_tasks_completes_simple_futures T,
     test_task_waker_pushes_id_to_queue T, test_run_ready_tasks_ignores_unknown_ids T,
     test_dropped_messages_is_monotonic]"

definition unit_tests ::
  "(TaskId, 't) queue_ops \<Rightarrow> (u8, 'q) queue_ops \<Rightarrow> ('w, 's) waker_ops \<Rightarrow> ('m, 'g) platform \<Rightarrow> usize \<Rightarrow> u64 \<Rightarrow>
    ('q, 's) unit_test list" where
  "unit_tests T Q W pf start boot_ctx =
    map stateless (allocator_tests start @ constant_tests T pf) @
    map on_kernel (kernel_tests Q W pf boot_ctx) @ task_tests T"

text \<open>
  The outcomes that the runner reports: the tests run one after the other on the shared state,
  and after a panic none runs any more.
\<close>

fun suite_outcomes ::
  "(panic \<Rightarrow> u8 list) \<Rightarrow> (u8 list \<times> ('q, 's) unit_test) list \<Rightarrow> ('q, 's) test_state \<Rightarrow> test list" where
  "suite_outcomes info [] ts = []"
| "suite_outcomes info ((name, t) # suite) ts =
    (case t ts of
       Inr ts \<Rightarrow> (name, None) # suite_outcomes info suite ts
     | Inl p \<Rightarrow> (name, Some (info p)) # map (\<lambda>(name, _). (name, None)) suite)"

section \<open>Between two tests\<close>

definition kernel_ready :: "nat \<Rightarrow> ('q, 's) kernel \<Rightarrow> bool" where
  "kernel_ready n k \<longleftrightarrow>
    threads (THREADS (k_thread k)) = fmempty \<and> ready (THREADS (k_thread k)) = [] \<and>
    current (THREADS (k_thread k)) = BOOTSTRAP_ID \<and> reaper (THREADS (k_thread k)) = None \<and>
    0 < NEXT_TID (k_thread k) \<and> unat (NEXT_TID (k_thread k)) + 4 * n < 2 ^ 64 \<and>
    processes (k_process k) = fmempty \<and> 0 < NEXT_PID (k_process k) \<and> unat (NEXT_PID (k_process k)) + 4 * n < 2 ^ 64 \<and>
    vga_wf (k_console k) \<and> (\<exists>L. fsb_inv (k_heap k) L) \<and> fsb_hi (k_heap k) - fsb_lo (k_heap k) = HEAP_SIZE"

definition ready_for :: "nat \<Rightarrow> ('q, 's) test_state \<Rightarrow> bool" where
  "ready_for n ts \<longleftrightarrow> kernel_ready n (ts_kernel ts) \<and> unat (ts_next_task ts) + 4 * n < 2 ^ 64"

definition passes :: "('q, 's) unit_test \<Rightarrow> bool" where
  "passes t \<longleftrightarrow> (\<forall>n ts. ready_for (Suc n) ts \<longrightarrow> (\<exists>ts'. t ts = Inr ts' \<and> ready_for n ts'))"

definition kernel_passes :: "(('q, 's) kernel \<Rightarrow> ('q, 's) kernel res) \<Rightarrow> bool" where
  "kernel_passes f \<longleftrightarrow> (\<forall>n k. kernel_ready (Suc n) k \<longrightarrow> (\<exists>k'. f k = Inr k' \<and> kernel_ready n k'))"

lemma kernel_passesI: "(\<And>n k. kernel_ready (Suc n) k \<Longrightarrow> \<exists>k'. f k = Inr k' \<and> kernel_ready n k') \<Longrightarrow> kernel_passes f"
  by (simp add: kernel_passes_def)

lemma passesI: "(\<And>n ts. ready_for (Suc n) ts \<Longrightarrow> \<exists>ts'. t ts = Inr ts' \<and> ready_for n ts') \<Longrightarrow> passes t"
  by (simp add: passes_def)

lemma passes_stateless: "r = Inr () \<Longrightarrow> passes (stateless r)"
  by (auto simp: passes_def stateless_def ready_for_def kernel_ready_def)

lemma passes_on_kernel: "kernel_passes f \<Longrightarrow> passes (on_kernel f)"
  by (fastforce simp: passes_def kernel_passes_def on_kernel_def ready_for_def)

lemma suite_passes:
  assumes "\<forall>t \<in> set suite. passes (snd t)" and "ready_for (length suite) ts"
  shows "\<forall>t \<in> set (suite_outcomes info suite ts). snd t = None"
  using assms
proof (induction suite arbitrary: ts)
  case (Cons t suite)
  obtain name test where t: "t = (name, test)" by (cases t)
  have "passes test" using Cons.prems(1) t by simp
  then obtain ts' where "test ts = Inr ts'" "ready_for (length suite) ts'"
    using Cons.prems(2) by (auto simp: passes_def)
  then show ?case using Cons.IH [of ts'] Cons.prems(1) t by simp
qed simp

text \<open>Ids drawn from a counter that has room for four more.\<close>

lemma next_ids:
  assumes "unat (x :: u64) + 4 * Suc n < 2 ^ 64"
  shows "unat (x + 1) = unat x + 1" "unat (x + 2) = unat x + 2" "unat (x + 3) = unat x + 3"
  using assms by (simp_all add: unat_word_ariths)

lemma next_id_facts:
  assumes "unat (x :: u64) + 4 * Suc n < 2 ^ 64"
  shows "x < x + 1" "x + 1 < x + 2" "x + 2 < x + 3" "x + 1 \<noteq> x" "x + 2 \<noteq> x + 1" "0 < x + 1" "0 < x + 2"
    "unat (x + 1) + 4 * n < 2 ^ 64" "unat (x + 2) + 4 * n < 2 ^ 64" "unat (x + 3) + 4 * n < 2 ^ 64"
  using assms next_ids [OF assms]
  by (simp_all add: word_less_nat_alt)

section \<open>The tests without state\<close>

lemma allocator_tests_pass: "test_heap_ok start \<Longrightarrow> \<forall>r \<in> set (allocator_tests start). r = Inr ()"
  by (simp add: allocator_tests_def bump_tests_pass block_tests_pass list_tests_pass_1 list_tests_pass_2
      list_tests_pass_3 list_tests_pass_4)

lemmas constant_test_defs =
  test_serial_port_base_address_def test_serial_port_base_valid_range_def test_serial_port_base_standard_com1_def
  SERIAL_PORT_BASE_def test_qemu_exit_code_values_def test_qemu_exit_codes_are_distinct_def
  test_pic_offsets_are_standard_def test_interrupt_index_values_def test_syscall_vector_value_def
  PIC_1_OFFSET_def PIC_2_OFFSET_def SYSCALL_VECTOR_def test_double_fault_ist_index_zero_def
  test_ist_index_within_bounds_def test_ist_stack_size_is_20_kib_def DOUBLE_FAULT_IST_INDEX_def IST_STACK_SIZE_def
  test_syscall_frame_layout_is_120_plus_40_bytes_def frame_slots_def test_log_level_tags_def ascii_def
  test_scancode_queue_capacity_constant_def SCANCODE_QUEUE_CAPACITY_def test_request_service_mapping_def
  test_page_table_flags_present_writable_def test_kernel_pid_is_zero_def KERNEL_PID_def

lemma constants_pass:
  "test_serial_port_base_address = Inr ()" "test_serial_port_base_valid_range = Inr ()"
  "test_serial_port_base_standard_com1 = Inr ()" "test_qemu_exit_code_values = Inr ()"
  "test_qemu_exit_codes_are_distinct = Inr ()" "test_pic_offsets_are_standard = Inr ()"
  "test_interrupt_index_values = Inr ()" "test_syscall_vector_value = Inr ()"
  "test_double_fault_ist_index_zero = Inr ()" "test_ist_index_within_bounds = Inr ()"
  "test_ist_stack_size_is_20_kib = Inr ()" "test_syscall_frame_layout_is_120_plus_40_bytes = Inr ()"
  "test_log_level_tags = Inr ()" "test_scancode_queue_capacity_constant = Inr ()"
  "test_request_service_mapping = Inr ()" "test_page_table_flags_present_writable = Inr ()"
  "test_kernel_pid_is_zero = Inr ()"
  by (simp_all add: constant_test_defs)

lemma user_constants_pass:
  "test_user_buffer_validation_rejects_out_of_range = Inr ()"
  "test_user_addresses_are_page_aligned_and_distinct = Inr ()" "test_user_demo_fits_in_a_page = Inr ()"
  by (simp_all add: test_user_buffer_validation_rejects_out_of_range_def user_bytes_def u64_checked_add_def
      test_user_addresses_are_page_aligned_and_distinct_def USER_CODE_BASE_def USER_STACK_BASE_def USER_STACK_TOP_def
      MAX_USER_IO_def test_user_demo_fits_in_a_page_def USER_DEMO_def word_less_nat_alt unsigned_minus_1_eq_mask mask_eq_exp_minus_1)

lemma counters_pass:
  "test_new_scheduler_is_zeroed = Inr ()" "test_tick_increments_counter = Inr ()"
  "test_thread_spawn_and_exit_balance = Inr ()" "test_process_spawn_and_exit_balance = Inr ()"
  "test_task_spawn_and_complete_balance = Inr ()"
  by (simp_all add: test_new_scheduler_is_zeroed_def test_tick_increments_counter_def
      test_thread_spawn_and_exit_balance_def test_process_spawn_and_exit_balance_def
      test_task_spawn_and_complete_balance_def Scheduler_new_def ticks_def tick_def counter_defs Let_def)

lemma count_loop: "fold (\<lambda>_ n. n + 1) xs (n :: nat) = n + length xs"
  by (induction xs arbitrary: n) simp_all

lemma address_tests_pass:
  assumes "platform_ok pf" and "phys_frame_ok (pf_phys_frame pf)"
  shows "test_page_containing_address pf = Inr ()" "test_page_range_inclusive pf = Inr ()"
    "test_phys_frame_containing_address pf = Inr ()" "test_vga_frame_address pf = Inr ()"
proof -
  have pf: "\<forall>a < 2 ^ 47. pf_virt_new pf a = Inr a" "page_of_ok (pf_page_of pf)" "page_range_ok (pf_page_range pf)"
    using assms(1) by (simp_all add: platform_ok_def)
  then show "test_page_containing_address pf = Inr ()"
    by (simp add: test_page_containing_address_def page_of_ok_def)
  show "test_page_range_inclusive pf = Inr ()"
    using pf unfolding test_page_range_inclusive_def count_loop by (simp add: page_of_ok_def page_range_ok_def)
  show "test_phys_frame_containing_address pf = Inr ()" "test_vga_frame_address pf = Inr ()"
    using assms(2) by (simp_all add: test_phys_frame_containing_address_def test_vga_frame_address_def phys_frame_ok_def)
qed

lemma selectors_pass:
  assumes "descriptor_table (pf_gdt_new pf) (pf_add_entry pf) used"
  shows "test_user_selectors_have_rpl3 pf = Inr ()"
  using descriptor_table.GDT_selectors [OF assms] by (auto simp: test_user_selectors_have_rpl3_def)

lemma constant_tests_pass:
  assumes "platform_ok pf" and "phys_frame_ok (pf_phys_frame pf)"
    and "descriptor_table (pf_gdt_new pf) (pf_add_entry pf) used"
  shows "\<forall>r \<in> set (constant_tests T pf). r = Inr ()"
proof -
  have "test_new_executor_has_no_tasks T = Inr ()"
    by (simp add: test_new_executor_has_no_tasks_def task_count_def CoopExecutor_new_def)
  then show ?thesis
    by (simp add: constant_tests_def constants_pass user_constants_pass counters_pass address_tests_pass [OF assms(1,2)]
        selectors_pass [OF assms(3)])
qed

section \<open>The tests of processes and requests\<close>

lemma kernel_ready_mono: "kernel_ready (Suc n) k \<Longrightarrow> kernel_ready n k"
  by (simp add: kernel_ready_def)

lemma kernel_ready_ids:
  assumes "kernel_ready (Suc n) k"
  shows "unat (NEXT_TID (k_thread k)) + 4 * Suc n < 2 ^ 64" and "unat (NEXT_PID (k_process k)) + 4 * Suc n < 2 ^ 64"
    and "1 \<le> NEXT_TID (k_thread k)" and "1 \<le> NEXT_PID (k_process k)"
  using assms by (simp_all add: kernel_ready_def word_le_nat_alt word_less_nat_alt)

lemma pid_test_passes:
  assumes k: "kernel_ready (Suc n) k"
  shows "\<exists>k'. test_new_pids_unique_and_skip_zero k = Inr k' \<and> kernel_ready n k'"
  using kernel_ready_ids [OF k] next_id_facts [OF kernel_ready_ids(2) [OF k]] kernel_ready_mono [OF k]
  by (auto simp: test_new_pids_unique_and_skip_zero_def ProcessId_new_def kernel_ready_def KERNEL_PID_def add.assoc)

lemma tid_test_passes:
  assumes k: "kernel_ready (Suc n) k"
  shows "\<exists>k'. test_thread_ids_are_unique_and_skip_zero k = Inr k' \<and> kernel_ready n k'"
  using kernel_ready_ids [OF k] next_id_facts [OF kernel_ready_ids(1) [OF k]] kernel_ready_mono [OF k]
  by (auto simp: test_thread_ids_are_unique_and_skip_zero_def ThreadId_new_def kernel_ready_def BOOTSTRAP_ID_def add.assoc)

lemma only_process [simp]: "fmdrop i (fmupd i p fmempty) = fmempty"
  by (rule fmap_ext) simp

lemma only_processes [simp]: "fmdrop j (fmdrop i (fmupd j q (fmupd i p fmempty))) = fmempty"
  by (rule fmap_ext) simp

lemmas process_test_defs = Process_new_def ProcessId_new_def register_process_def process_register_def
  exit_process_def process_exit_def process_snapshot_def process_create_def process_count_def with_processes_def
  register_def exit_def snapshot_def create_def counter_defs Let_def

lemma register_test_passes:
  assumes k: "kernel_ready (Suc n) k"
  shows "\<exists>k'. test_process_register_and_exit_round_trip k = Inr k' \<and> kernel_ready n k'"
  using next_id_facts [OF kernel_ready_ids(2) [OF k]] kernel_ready_mono [OF k]
  by (auto simp: test_process_register_and_exit_round_trip_def process_test_defs kernel_ready_def)

lemma lifecycle_test_passes:
  assumes k: "kernel_ready (Suc n) k"
  shows "\<exists>k'. test_process_lifecycle_through_call Q boxes k = Inr k' \<and> kernel_ready n k'"
  using next_id_facts [OF kernel_ready_ids(2) [OF k]] kernel_ready_mono [OF k]
  by (auto simp: test_process_lifecycle_through_call_def process_test_defs kernel_ready_def)

lemma denied_test_passes:
  assumes k: "kernel_ready (Suc n) k"
  shows "\<exists>k'. test_user_cannot_exit_another_process Q boxes k = Inr k' \<and> kernel_ready n k'"
  using next_id_facts [OF kernel_ready_ids(2) [OF k]] kernel_ready_mono [OF k]
  by (auto simp: test_user_cannot_exit_another_process_def process_test_defs kernel_ready_def add.assoc)

lemma create_denied_test_passes:
  assumes k: "kernel_ready (Suc n) k"
  shows "\<exists>k'. test_user_cannot_create_processes Q boxes k = Inr k' \<and> kernel_ready n k'"
  using kernel_ready_mono [OF k] by (simp add: test_user_cannot_create_processes_def)

lemma stats_test_passes:
  assumes k: "kernel_ready (Suc n) k"
  shows "\<exists>k'. test_memory_and_timer_requests Q boxes k = Inr k' \<and> kernel_ready n k'"
proof -
  obtain L where L: "fsb_inv (k_heap k) L" "fsb_hi (k_heap k) - fsb_lo (k_heap k) = HEAP_SIZE"
    using k by (auto simp: kernel_ready_def)
  let ?F = "ll_free (fallback_allocator (k_heap k)) \<union> cached_bytes (k_heap k)"
  have "card ?F \<le> HEAP_SIZE" using card_mono [OF _ fsb_stats_eq(2) [OF L(1)]] L(2) by simp
  then show ?thesis
    using kernel_ready_mono [OF k] fsb_stats_eq(1) [OF L(1)] L(2)
    by (simp add: test_memory_and_timer_requests_def memory_stats_def allocator_stats_def)
qed

section \<open>The tests of threads\<close>

lemma stack_test_passes:
  assumes k: "kernel_ready (Suc n) k" and "boxes_ok boxes"
  shows "\<exists>k'. test_kernel_thread_initial_state_and_stack_setup boxes dummy k = Inr k' \<and> kernel_ready n k'"
proof -
  obtain ctx stack where b: "boxes = (ctx, stack)" by (cases boxes)
  have ok: "unat stack + STACK_SIZE < 2 ^ 64" "separate ctx 8 stack STACK_SIZE"
    using assms(2) by (auto simp: boxes_ok_def b)
  obtain m where m: "KernelThread_new (k_memory k) (NEXT_TID (k_thread k)) ctx stack dummy KERNEL_PID =
      Inr (m, \<lparr>kt_id = NEXT_TID (k_thread k), kt_process = KERNEL_PID, kt_context = ctx, kt_stack = stack\<rparr>)"
    "suspended m ctx (initial_sp stack - 56) (replicate 6 0) dummy"
    using KernelThread_new_suspended [OF ok] by metis
  note sp = initial_sp_bounds [OF ok(1)]
  have "unat (initial_sp stack - 56) = unat (initial_sp stack) - 56"
    using sp(1) unat_sub [of 56 "initial_sp stack"] by (simp add: STACK_SIZE_def word_le_nat_alt)
  moreover have "(unat (initial_sp stack) - 56) mod 8 = 0" using sp(3) by presburger
  ultimately have "unat stack < unat (read64 m ctx)" "unat (read64 m ctx) \<le> unat stack + STACK_SIZE"
    "unat (read64 m ctx) mod 8 = 0"
    using m(2) sp(1,2) by (simp_all add: suspended_def STACK_SIZE_def)
  then show ?thesis
    using m(1) next_id_facts [OF kernel_ready_ids(1) [OF k]] kernel_ready_mono [OF k]
    by (simp add: test_kernel_thread_initial_state_and_stack_setup_def ThreadId_new_def b kernel_ready_def)
qed

lemma spawn_on_idle:
  assumes "boxes_ok boxes" and "threads (THREADS s) = fmempty"
  shows "\<exists>m' t. spawn m (fst boxes) (snd boxes) entry process s =
    Inr (m', s\<lparr>THREADS := (THREADS s)\<lparr>threads := fmupd (NEXT_TID s) t fmempty, ready := ready (THREADS s) @ [NEXT_TID s]\<rparr>,
      NEXT_TID := NEXT_TID s + 1, SCHEDULER := note_thread_spawned (SCHEDULER s)\<rparr>, NEXT_TID s)"
proof -
  obtain ctx stack where b: "boxes = (ctx, stack)" by (cases boxes)
  have ok: "unat stack + STACK_SIZE < 2 ^ 64" "separate ctx 8 stack STACK_SIZE"
    using assms(1) by (auto simp: boxes_ok_def b)
  obtain m' where "KernelThread_new m (NEXT_TID s) ctx stack entry process =
      Inr (m', \<lparr>kt_id = NEXT_TID s, kt_process = process, kt_context = ctx, kt_stack = stack\<rparr>)"
    using KernelThread_new_suspended [OF ok] by metis
  then show ?thesis using assms(2) by (auto simp: spawn_def b Let_def)
qed

lemma private_spawn_test_passes:
  assumes k: "kernel_ready (Suc n) k" and "boxes_ok boxes"
  shows "\<exists>k'. test_scheduler_spawn_inserts_and_queues boxes dummy boot_ctx k = Inr k' \<and> kernel_ready n k'"
proof -
  let ?s = "(k_thread k)\<lparr>THREADS := ThreadScheduler_new boot_ctx\<rparr>"
  have "threads (THREADS ?s) = fmempty" by (simp add: ThreadScheduler_new_def)
  from spawn_on_idle [OF assms(2) this, of "k_memory k" dummy KERNEL_PID]
  show ?thesis
    using next_id_facts [OF kernel_ready_ids(1) [OF k]] kernel_ready_mono [OF k]
    by (auto simp: test_scheduler_spawn_inserts_and_queues_def ThreadScheduler_new_def thread_count_def ready_count_def
        kernel_ready_def Let_def)
qed

lemma yield_test_passes:
  assumes k: "kernel_ready (Suc n) k" and "boxes_ok boxes"
  shows "\<exists>k'. test_yield_round_trips_through_spawned_thread boxes ping k = Inr k' \<and> kernel_ready n k'"
proof -
  have idle: "threads (THREADS (k_thread k)) = fmempty" "ready (THREADS (k_thread k)) = []"
    "current (THREADS (k_thread k)) = BOOTSTRAP_ID" "reaper (THREADS (k_thread k)) = None"
    "NEXT_TID (k_thread k) \<noteq> BOOTSTRAP_ID"
    using k by (auto simp: kernel_ready_def BOOTSTRAP_ID_def)
  show ?thesis
    using spawn_on_idle [OF assms(2) idle(1), of "k_memory k" ping KERNEL_PID] idle
      next_id_facts [OF kernel_ready_ids(1) [OF k]] kernel_ready_mono [OF k]
    by (auto simp: test_yield_round_trips_through_spawned_thread_def test_yield_def ping_thread_def yield_now_def
        drain_reaper_def context_of_def exit_thread_def park_def current_id_def thread_count_def ready_count_def
        kernel_ready_def Let_def)
qed

section \<open>The tests of devices\<close>

lemma console_test_passes:
  assumes "kernel_ready (Suc n) k" and "\<And>w. vga_wf w \<Longrightarrow> \<exists>w'. f w = Inr w' \<and> vga_wf w'"
  shows "\<exists>k'. on_console f k = Inr k' \<and> kernel_ready n k'"
proof -
  obtain w where "f (k_console k) = Inr w" "vga_wf w" using assms by (auto simp: kernel_ready_def)
  then show ?thesis using kernel_ready_mono [OF assms(1)] by (simp add: on_console_def kernel_ready_def)
qed

lemma println_tests_pass:
  assumes "vga_wf w"
  shows "\<exists>w'. test_println_simple w = Inr w' \<and> vga_wf w'" and "\<exists>w'. test_println_many w = Inr w' \<and> vga_wf w'"
proof -
  have line: "\<exists>w'. vga_println s w = Inr w' \<and> vga_wf w'" if "vga_wf w" for s w
    using vga_println_ok [OF that] by metis
  show "\<exists>w'. test_println_simple w = Inr w' \<and> vga_wf w'" using line [OF assms] by (simp add: test_println_simple_def)
  have "\<exists>w'. for_res (\<lambda>_. vga_println s) xs w = Inr w' \<and> vga_wf w'" if "vga_wf w" for s w and xs :: "nat list"
    using that
  proof (induction xs arbitrary: w)
    case (Cons x xs)
    then show ?case using line [OF Cons.prems, of s] by auto
  qed simp
  from this [OF assms] show "\<exists>w'. test_println_many w = Inr w' \<and> vga_wf w'" by (simp add: test_println_many_def)
qed

lemma assert_cells:
  assumes "length b = 25" and "\<forall>(i, c) \<in> set ps. i < length (b ! 23) \<and> ascii_character (b ! 23 ! i) = c"
  shows "for_res (assert_cell b) ps () = Inr ()"
  using assms(2)
  by (induction ps) (auto simp: assms(1) assert_cell_def cell_read_def index_res_def BUFFER_HEIGHT_def)

lemma output_test_passes:
  assumes "vga_wf w"
  shows "\<exists>w'. test_println_output w = Inr w' \<and> vga_wf w'"
proof -
  let ?s = "ascii ''Some test string that fits on a single line''"
  obtain w1 where w1: "write_string [0x0a] w = Inr w1" "shows_lines (buffer w) [] w1"
    using start_lines [OF assms] by blast
  have "\<forall>l \<in> set [?s]. printable l" by (simp add: printable_def ascii_def)
  then obtain w2 where w2: "write_string (lines_text [?s]) w1 = Inr w2" "shows_lines (buffer w) [?s] w2"
    using write_lines [OF w1(2)] by fastforce
  have wf: "vga_wf w2" by (rule shows_lines_wf [OF w2(2)])
  have rows: "map row_text (drop 23 (buffer w2)) = map padded [?s, []]"
    using shows_lines_rows [OF w2(2)] assms by (simp add: vga_wf_def)
  moreover have "drop 23 (buffer w2) = buffer w2 ! 23 # drop 24 (buffer w2)"
    using wf by (simp add: vga_wf_def Cons_nth_drop_Suc [symmetric])
  ultimately have shown: "map ascii_character (buffer w2 ! 23) = padded ?s" by (simp add: row_text_def)
  have "ascii_character (buffer w2 ! 23 ! i) = c \<and> i < length (buffer w2 ! 23)" if "(i, c) \<in> set (zip [0..<length ?s] ?s)" for i c
  proof -
    have i: "i < length ?s" "?s ! i = c" using that by (auto simp: set_zip)
    moreover have "length (buffer w2 ! 23) = 80" using wf by (simp add: vga_wf_def)
    moreover have "length ?s \<le> 80" by (simp add: ascii_def)
    ultimately show ?thesis
      using arg_cong [OF shown, of "\<lambda>l. l ! i"] by (simp add: padded_def nth_append)
  qed
  then have "for_res (assert_cell (buffer w2)) (zip [0..<length ?s] ?s) () = Inr ()"
    using wf by (intro assert_cells) (auto simp: vga_wf_def)
  moreover have "write_string ([0x0a] @ ?s @ [0x0a]) w = Inr w2"
    using w1(1) w2(1) write_string_append [of "[0x0a]" "?s @ [0x0a]" w] by simp
  ultimately show ?thesis using wf by (simp add: test_println_output_def Let_def)
qed

lemma breakpoint_test_passes:
  assumes k: "kernel_ready (Suc n) k"
  shows "\<exists>k'. test_breakpoint_exception Q pf k = Inr k' \<and> kernel_ready n k'"
proof -
  obtain w where "vga_println (pf_report pf) (k_console k) = Inr w" "vga_wf w"
    using vga_println_ok k by (metis kernel_ready_def)
  then show ?thesis
    using kernel_ready_mono [OF k]
    by (simp add: test_breakpoint_exception_def take_exception_def exception_target_def IDT_def breakpoint_handler_def
        kernel_ready_def)
qed

lemma scancode_test_passes:
  assumes k: "kernel_ready (Suc n) k"
  shows "\<exists>k'. test_add_scancode_does_not_panic_when_queue_uninitialized Q W k = Inr k' \<and> kernel_ready n k'"
  using kernel_ready_mono [OF k]
  by (simp add: test_add_scancode_does_not_panic_when_queue_uninitialized_def kernel_ready_def case_prod_unfold Let_def)

lemma kernel_tests_pass:
  assumes "platform_ok pf"
  shows "\<forall>f \<in> set (kernel_tests Q W pf boot_ctx). kernel_passes f"
proof -
  have b: "boxes_ok (pf_boxes_a pf)" using assms by (simp add: platform_ok_def)
  show ?thesis
    by (simp only: kernel_tests_def Let_def list.set Set.ball_simps simp_thms)
      (intro conjI TrueI kernel_passesI pid_test_passes tid_test_passes register_test_passes lifecycle_test_passes
        denied_test_passes create_denied_test_passes stats_test_passes stack_test_passes [OF _ b]
        private_spawn_test_passes [OF _ b] yield_test_passes [OF _ b] scancode_test_passes breakpoint_test_passes
        console_test_passes println_tests_pass output_test_passes)
qed

section \<open>The tests of tasks\<close>

lemma ready_for_ids: "ready_for (Suc n) ts \<Longrightarrow> unat (ts_next_task ts) + 4 * Suc n < 2 ^ 64"
  by (simp add: ready_for_def)

lemma ready_for_task_ids:
  assumes "ready_for (Suc n) ts" and "unat i + 4 * n < 2 ^ 64"
  shows "ready_for n (ts\<lparr>ts_next_task := i\<rparr>)" and "ready_for n (with_tasks ts i sc)"
  using assms by (simp_all add: ready_for_def kernel_ready_def with_tasks_def Let_def)

lemma task_id_tests_pass:
  assumes ts: "ready_for (Suc n) ts"
  shows "\<exists>ts'. test_task_ids_are_unique_and_monotonic ts = Inr ts' \<and> ready_for n ts'"
    and "\<exists>ts'. test_task_carries_its_id ts = Inr ts' \<and> ready_for n ts'"
    and "\<exists>ts'. test_task_runs_future_side_effects ts = Inr ts' \<and> ready_for n ts'"
proof -
  note ids = next_id_facts [OF ready_for_ids [OF ts]] and keeps = ready_for_task_ids [OF ts]
  show "\<exists>ts'. test_task_ids_are_unique_and_monotonic ts = Inr ts' \<and> ready_for n ts'"
    using ids keeps(1) by (simp add: test_task_ids_are_unique_and_monotonic_def TaskId_new_def add.assoc less_imp_neq)
  show "\<exists>ts'. test_task_carries_its_id ts = Inr ts' \<and> ready_for n ts'"
    "\<exists>ts'. test_task_runs_future_side_effects ts = Inr ts' \<and> ready_for n ts'"
    using ids keeps(1)
    by (simp_all add: test_task_carries_its_id_def test_task_runs_future_side_effects_def Task_new_def TaskId_new_def
        store_future_def)
qed

lemma log_test_passes:
  "ready_for (Suc n) ts \<Longrightarrow> \<exists>ts'. test_dropped_messages_is_monotonic ts = Inr ts' \<and> ready_for n ts'"
  by (simp add: test_dropped_messages_is_monotonic_def log_print_def dropped_messages_def ready_for_def kernel_ready_def
      Let_def)

lemma queue_popE:
  assumes "array_queue T cap con" and "con q = x # xs"
  obtains q' where "q_pop T q = Some (x, q')" and "con q' = xs" and "cap q' = cap q"
proof -
  have "q_pop T q \<noteq> None" using array_queue.pop_None_iff [OF assms(1)] assms(2) by simp
  then obtain y q' where "q_pop T q = Some (y, q')" by auto
  then show ?thesis using that array_queue.pop_Some_D [OF assms(1)] assms(2) by fastforce
qed

lemma spawn_counting_ok:
  assumes "array_queue T cap con" and "length (con (task_queue e)) < cap (task_queue e)" and "fmlookup (tasks e) n = None"
  shows "\<exists>e'. spawn_counting T j (n, e, sc) = Inr (n + 1, e', note_task_spawned sc) \<and>
    con (task_queue e') = con (task_queue e) @ [n] \<and> cap (task_queue e') = cap (task_queue e) \<and>
    fmdom' (tasks e') = insert n (fmdom' (tasks e))"
proof -
  obtain q where "q_push T n (task_queue e) = Some q" "con q = con (task_queue e) @ [n]" "cap q = cap (task_queue e)"
    by (rule array_queue.pushE [OF assms(1,2)])
  then show ?thesis
    using assms(3) by (simp add: spawn_counting_def spawn_task_def Task_new_def TaskId_new_def Let_def)
qed

lemma run_counting:
  assumes "array_queue T cap con" and "con (task_queue e) = ids" and "distinct ids" and "fmdom' (tasks e) = set ids"
  shows "\<exists>e' sc'. run_ready_tasks T count_future (e, sc, n) = Some (Inr (e', sc', n + length ids)) \<and> task_count e' = 0"
  using assms(2-)
proof (induction ids arbitrary: e sc n)
  case Nil
  then have "run_one T count_future (e, sc, n) = Inr None"
    using array_queue.pop_None_iff [OF assms(1), of "task_queue e"] by (simp add: run_one_def)
  then show ?case using Nil by (subst run_ready_tasks.simps) (simp add: task_count_def)
next
  case (Cons i ids)
  obtain q where q: "q_pop T (task_queue e) = Some (i, q)" "con q = ids"
    by (rule queue_popE [OF assms(1) Cons.prems(1)])
  obtain task where "fmlookup (tasks e) i = Some task"
    using Cons.prems(3) by (metis fmlookup_dom'_iff list.set_intros(1))
  with q(1) obtain e1 where e1: "run_one T count_future (e, sc, n) = Inr (Some (e1, note_task_completed sc, n + 1))"
    "task_queue e1 = q" "tasks e1 = fmdrop i (tasks e)"
    by (simp add: run_one_def count_future_def Let_def)
  have "fmdom' (tasks e1) = set ids" using e1(3) Cons.prems(2,3) by auto
  then obtain e' sc' where "run_ready_tasks T count_future (e1, note_task_completed sc, n + 1) =
      Some (Inr (e', sc', n + 1 + length ids))" "task_count e' = 0"
    using Cons.IH [of e1 "note_task_completed sc" "n + 1"] q(2) e1(2) Cons.prems(2) by auto
  then show ?case using e1(1) by (subst run_ready_tasks.simps) simp
qed

lemma new_executor:
  assumes "array_queue T cap con"
  shows "con (task_queue (CoopExecutor_new T)) = []" "cap (task_queue (CoopExecutor_new T)) = 100"
    "tasks (CoopExecutor_new T) = fmempty"
  using array_queue.new_contents [OF assms, of 100] by (simp_all add: CoopExecutor_new_def TASK_QUEUE_CAPACITY_def)

lemma spawn_test_passes:
  assumes q: "array_queue T cap con" and ts: "ready_for (Suc n) ts"
  shows "\<exists>ts'. test_spawn_inserts_task_and_enqueues_id T ts = Inr ts' \<and> ready_for n ts'"
proof -
  let ?e = "CoopExecutor_new T :: (unit, 'a) CoopExecutor" and ?i = "ts_next_task ts"
  have room: "length (con (task_queue ?e)) < cap (task_queue ?e)" by (simp add: new_executor [OF q])
  obtain p where p: "q_push T ?i (task_queue ?e) = Some p" "con p = [?i]"
    using array_queue.pushE [OF q room] new_executor [OF q] by (metis append_Nil)
  obtain p' where "q_pop T p = Some (?i, p')" by (rule queue_popE [OF q p(2)])
  then show ?thesis
    using p(1) ready_for_task_ids(2) [OF ts] next_id_facts [OF ready_for_ids [OF ts]]
    by (simp add: test_spawn_inserts_task_and_enqueues_id_def spawn_task_def Task_new_def TaskId_new_def Let_def
        new_executor [OF q] task_count_def)
qed

lemma run_test_passes:
  assumes q: "array_queue T cap con" and ts: "ready_for (Suc n) ts"
  shows "\<exists>ts'. test_run_ready_tasks_completes_simple_futures T ts = Inr ts' \<and> ready_for n ts'"
proof -
  let ?i = "ts_next_task ts" and ?sc = "counters ts"
  note ids = next_id_facts [OF ready_for_ids [OF ts]] and new = new_executor [OF q]
  have less: "?i < ?i + 2" using ids by (meson less_trans)
  obtain e1 where e1: "spawn_counting T 0 (?i, CoopExecutor_new T, ?sc) = Inr (?i + 1, e1, note_task_spawned ?sc)"
    "con (task_queue e1) = [?i]" "cap (task_queue e1) = 100" "fmdom' (tasks e1) = {?i}"
    using spawn_counting_ok [OF q, of "CoopExecutor_new T" ?i 0 ?sc] by (auto simp: new)
  have f1: "fmlookup (tasks e1) (?i + 1) = None" using e1(4) ids(4) by (intro fmdom'_notD) simp
  obtain e2 where e2: "spawn_counting T 1 (?i + 1, e1, note_task_spawned ?sc) =
      Inr (?i + 2, e2, note_task_spawned (note_task_spawned ?sc))"
    "con (task_queue e2) = [?i, ?i + 1]" "cap (task_queue e2) = 100" "fmdom' (tasks e2) = {?i, ?i + 1}"
    using spawn_counting_ok [OF q _ f1, of 1 "note_task_spawned ?sc"] e1 by (auto simp: add.assoc)
  have f2: "fmlookup (tasks e2) (?i + 2) = None" using e2(4) ids(5) less by (intro fmdom'_notD) auto
  obtain e3 where e3: "spawn_counting T 2 (?i + 2, e2, note_task_spawned (note_task_spawned ?sc)) =
      Inr (?i + 3, e3, note_task_spawned (note_task_spawned (note_task_spawned ?sc)))"
    "con (task_queue e3) = [?i, ?i + 1, ?i + 2]" "fmdom' (tasks e3) = set [?i, ?i + 1, ?i + 2]"
    using spawn_counting_ok [OF q _ f2, of 2 "note_task_spawned (note_task_spawned ?sc)"] e2 by (auto simp: add.assoc)
  have "distinct [?i, ?i + 1, ?i + 2]" using ids(4,5) less by auto
  then obtain e' sc' where "run_ready_tasks T count_future (e3, note_task_spawned (note_task_spawned (note_task_spawned ?sc)), 0) =
      Some (Inr (e', sc', 3))" "task_count e' = 0"
    using run_counting [OF q e3(2) _ e3(3), of "note_task_spawned (note_task_spawned (note_task_spawned ?sc))" 0]
    by (auto simp: numeral_3_eq_3)
  moreover have "[0..<3] = [0, 1, 2 :: nat]" by (simp add: upt_rec)
  ultimately show ?thesis
    using e1(1) e2(1) e3(1) ready_for_task_ids(2) [OF ts ids(10)]
    by (simp add: test_run_ready_tasks_completes_simple_futures_def returns_def)
qed

lemma waker_test_passes:
  assumes q: "array_queue T cap con" and ts: "ready_for (Suc n) ts"
  shows "\<exists>ts'. test_task_waker_pushes_id_to_queue T ts = Inr ts' \<and> ready_for n ts'"
proof -
  let ?i = "ts_next_task ts"
  have new: "con (q_new T 4) = []" "cap (q_new T 4) = 4" using array_queue.new_contents [OF q, of 4] by simp_all
  obtain p1 where p1: "q_push T ?i (q_new T 4) = Some p1" "con p1 = [?i]" "cap p1 = 4"
    using array_queue.pushE [OF q, of "q_new T 4" ?i] new by (metis append_Nil list.size(3) zero_less_numeral)
  have "length (con p1) < cap p1" by (simp add: p1)
  then obtain p2 where p2: "q_push T ?i p1 = Some p2" "con p2 = [?i, ?i]"
    using array_queue.pushE [OF q, of p1 ?i] p1(2) by (metis append_Cons append_Nil)
  obtain p3 where p3: "q_pop T p2 = Some (?i, p3)" "con p3 = [?i]" by (rule queue_popE [OF q p2(2)])
  obtain p4 where p4: "q_pop T p3 = Some (?i, p4)" "con p4 = []" by (rule queue_popE [OF q p3(2)])
  have "q_pop T p4 = None" using array_queue.pop_None_iff [OF q] p4(2) by simp
  then show ?thesis
    using p1(1) p2(1) p3(1) p4(1) ready_for_task_ids(1) [OF ts] next_id_facts [OF ready_for_ids [OF ts]]
    by (simp add: test_task_waker_pushes_id_to_queue_def TaskId_new_def wake_task_def)
qed

lemma unknown_test_passes:
  assumes q: "array_queue T cap con" and ts: "ready_for (Suc n) ts"
  shows "\<exists>ts'. test_run_ready_tasks_ignores_unknown_ids T ts = Inr ts' \<and> ready_for n ts'"
proof -
  let ?e = "CoopExecutor_new T :: (unit, 'a) CoopExecutor" and ?i = "ts_next_task ts"
  have room: "length (con (task_queue ?e)) < cap (task_queue ?e)" by (simp add: new_executor [OF q])
  obtain p where p: "q_push T ?i (task_queue ?e) = Some p" "con p = [?i]"
    using array_queue.pushE [OF q room] new_executor [OF q] by (metis append_Nil)
  obtain p' where p': "q_pop T p = Some (?i, p')" "con p' = []" by (rule queue_popE [OF q p(2)])
  let ?e' = "?e\<lparr>task_queue := p'\<rparr>"
  obtain e sc where "run_ready_tasks T count_future (?e', counters ts, 0) = Some (Inr (e, sc, 0))" "task_count e = 0"
    using run_counting [OF q, of ?e' "[]" "counters ts" 0] p'(2) by (auto simp: new_executor(3) [OF q])
  moreover have "run_one T count_future (?e\<lparr>task_queue := p\<rparr>, counters ts, 0) = Inr (Some (?e', counters ts, 0))"
    using p'(1) by (simp add: run_one_def new_executor(3) [OF q])
  ultimately have "run_ready_tasks T count_future (?e\<lparr>task_queue := p\<rparr>, counters ts, 0) = Some (Inr (e, sc, 0))"
    by (subst run_ready_tasks.simps) simp
  with \<open>task_count e = 0\<close> show ?thesis
    using p(1) ready_for_task_ids(2) [OF ts] next_id_facts [OF ready_for_ids [OF ts]]
    by (simp add: test_run_ready_tasks_ignores_unknown_ids_def TaskId_new_def returns_def)
qed

lemma task_tests_pass:
  assumes "array_queue T cap con"
  shows "\<forall>t \<in> set (task_tests T). passes t"
  by (simp only: task_tests_def list.set Set.ball_simps simp_thms)
    (intro conjI passesI task_id_tests_pass spawn_test_passes [OF assms] run_test_passes [OF assms]
      waker_test_passes [OF assms] unknown_test_passes [OF assms] log_test_passes)

lemma unit_tests_all_pass:
  assumes "array_queue T cap con" and "platform_ok pf" and "phys_frame_ok (pf_phys_frame pf)"
    and "descriptor_table (pf_gdt_new pf) (pf_add_entry pf) used" and "test_heap_ok start"
  shows "\<forall>t \<in> set (unit_tests T Q W pf start boot_ctx). passes t"
  using allocator_tests_pass [OF assms(5)] constant_tests_pass [OF assms(2-4), of T]
    kernel_tests_pass [OF assms(2), of Q W boot_ctx] task_tests_pass [OF assms(1)]
  by (auto simp: unit_tests_def intro: passes_stateless passes_on_kernel)

section \<open>The test kernel\<close>

definition test_start ::
  "u64 \<Rightarrow> ('w, 's) waker_ops \<Rightarrow> Buffer \<Rightarrow> memory \<Rightarrow> FixedSizeBlockAllocator \<Rightarrow> ('q, 's) test_state" where
  "test_start boot_ctx W screen m heap =
    \<lparr>ts_kernel = (Kernel_new boot_ctx W screen m)\<lparr>k_heap := heap\<rparr>, ts_next_task = 0,
     ts_log = \<lparr>sent = [], DROPPED_MESSAGES = 0\<rparr>\<rparr>"

lemma test_start_ready:
  assumes "vga_wf (WRITER_init screen)" and "fsb_init fsb_empty HEAP_START HEAP_SIZE = Inr heap" and "n < 2 ^ 60"
  shows "ready_for n (test_start boot_ctx W screen m heap)"
  using assms(1,3) heap_fresh [OF assms(2)]
  by (auto simp: ready_for_def kernel_ready_def test_start_def Kernel_new_def thread_init_def ThreadScheduler_new_def
      ProcessService_new_def)

section \<open>Properties\<close>


text \<open>The whole suite on the small platform.\<close>

definition small_suite :: "(u8 list \<times> (nat \<times> u8 list, TaskId option) unit_test) list" where
  "small_suite = map (\<lambda>t. (ascii ''test'', t)) (unit_tests (list_queue :: (TaskId, nat \<times> TaskId list) queue_ops)
    list_queue option_waker small_platform 0x10000 0x9100)"

lemma small_suite_length: "length small_suite = 83"
  by (simp add: small_suite_def unit_tests_def allocator_tests_def constant_tests_def kernel_tests_def task_tests_def
      Let_def)


end
