(* ===== verification/Fault_Recovery.thy ===== *)
theory Fault_Recovery
  imports Boot Unit_Tests_Heap
begin

text \<open>
  The two integration tests of fault recovery (\<open>src/tests/fault_recovery_pf.rs\<close> and
  \<open>src/tests/fault_recovery_gpf.rs\<close>). Each is a kernel of its own: it initialises the hardware,
  the page tables and the heap, loads a program that faults, runs it in ring 3, and checks that the
  process is gone. A panic anywhere would end in the panic handler and fail the test.
\<close>

section \<open>The model\<close>

definition fault_recovery ::
  "nat \<Rightarrow> (u8, 'q) queue_ops \<Rightarrow> ('m, 'g) platform \<Rightarrow> BootInfo \<Rightarrow> u8 list \<Rightarrow> u8 list \<Rightarrow> ('q, 's) kernel \<Rightarrow>
    (u8 list \<times> hw_op list \<times> ('q, 's) kernel) option res" where
  "fault_recovery n Q pf boot_info name program k =
    bind_res (GDT_init (pf_gdt_new pf) (pf_add_entry pf)) (\<lambda>(_, sels).
    bind_res (pf_virt_new pf (physical_memory_offset boot_info)) (\<lambda>phys_mem_offset.
    bind_res (memory_init pf phys_mem_offset) (\<lambda>mapper.
    bind_res (expect_heap (init_heap (pf_page_range pf) (allocate_frame (pf_phys_frame pf)) (pf_map_to pf)
      mapper (frame_allocator_init (boot_memory_map boot_info)) (k_heap k))) (\<lambda>(mapper, frame_allocator, heap).
    let k = k\<lparr>k_heap := heap\<rparr>; before_alive = processes_alive (SCHEDULER (k_thread k)) in
    bind_res (create_process_from_program (pf_page_of pf) (allocate_frame (pf_phys_frame pf)) (pf_map_to pf) Q program
      \<lparr>ld_mapper = mapper, ld_frames = frame_allocator, ld_kernel = k\<rparr>) (\<lambda>(l, r).
    case r of
      Inl _ \<Rightarrow> Inl (ExpectFailed ''failed to create crash-demo process'')
    | Inr i \<Rightarrow>
        bind_res (spawn_user_thread (pf_boxes_user pf) (pf_user_entry pf) i (ld_kernel l)) (\<lambda>k.
        bind_res (userland_drive n Q process_pages (pf_report pf)
          \<lparr>sel_user_code = ucast (gs_user_code sels), sel_user_data = ucast (gs_user_data sels)\<rparr> (pf_start pf) n k) (\<lambda>r.
        case r of
          None \<Rightarrow> Inr None
        | Some k \<Rightarrow>
            bind_res (yield_now (k_thread k)) (\<lambda>(s, _).
            let k = k\<lparr>k_thread := s\<rparr> in
            bind_res (asserts [processes_alive (SCHEDULER (k_thread k)) = before_alive,
              \<not> is_registered (k_process k) i]) (\<lambda>_.
            Inr (Some (name @ serial_println (ascii ''[ok]''),
              hardware_init sels @ exit_qemu Success @ [Hlt], k)))))))))))"

definition fault_recovery_pf ::
  "nat \<Rightarrow> (u8, 'q) queue_ops \<Rightarrow> ('m, 'g) platform \<Rightarrow> BootInfo \<Rightarrow> ('q, 's) kernel \<Rightarrow>
    (u8 list \<times> hw_op list \<times> ('q, 's) kernel) option res" where
  "fault_recovery_pf n Q pf boot_info =
    fault_recovery n Q pf boot_info (ascii ''fault_recovery_pf::page_fault_kills_ring3_process...'' @ [0x09]) CRASH_PF_DEMO"

definition fault_recovery_gpf ::
  "nat \<Rightarrow> (u8, 'q) queue_ops \<Rightarrow> ('m, 'g) platform \<Rightarrow> BootInfo \<Rightarrow> ('q, 's) kernel \<Rightarrow>
    (u8 list \<times> hw_op list \<times> ('q, 's) kernel) option res" where
  "fault_recovery_gpf n Q pf boot_info =
    fault_recovery n Q pf boot_info
      (ascii ''fault_recovery_gpf::general_protection_fault_kills_ring3_process...'' @ [0x09]) CRASH_GPF_DEMO"

section \<open>Driving a process that faults\<close>

lemma no_threads_idle:
  assumes "thread_inv s" and "threads (THREADS s) = fmempty"
  shows "current (THREADS s) = BOOTSTRAP_ID" and "ready (THREADS s) = []"
proof -
  have q: "distinct (run_queue s)" "set (run_queue s) = {BOOTSTRAP_ID}"
    using thread_invD(1,2) [OF assms(1)] assms(2) by simp_all
  then show "current (THREADS s) = BOOTSTRAP_ID" by (auto simp: run_queue_def)
  with q show "ready (THREADS s) = []" by (cases "ready (THREADS s)") (auto simp: run_queue_def)
qed

lemma run_crash_thread:
  assumes "kernel_inv contents k" and "current (THREADS (k_thread k)) \<noteq> BOOTSTRAP_ID"
    and "current_process (k_thread k) \<noteq> KERNEL_PID" and "program \<in> {CRASH_PF_DEMO, CRASH_GPF_DEMO}"
    and "loaded program (k_memory k)" and "start_ok start"
    and "fmlookup (processes (k_process k)) (current_process (k_thread k)) = Some p"
    and "user_entry p = USER_CODE_BASE" and "sel_user_code sels AND 3 = 3" and "2 \<le> n"
  shows "\<exists>k'. run_user_thread Q process_pages report sels start n k = Inr (Some k') \<and> kernel_inv contents k' \<and>
    processes (k_process k') = fmdrop (current_process (k_thread k)) (processes (k_process k)) \<and>
    threads (THREADS (k_thread k')) = fmdrop (current (THREADS (k_thread k))) (threads (THREADS (k_thread k)))"
proof -
  have len: "length program \<le> 4096" "program \<noteq> []"
    using assms(4) by (auto simp: CRASH_GPF_DEMO_def CRASH_PF_DEMO_def)
  obtain c where c: "run_user_thread Q process_pages report sels start n k =
      bind_res (user_run Q process_pages report n c (k\<lparr>k_memory := mem c\<rparr>)) (\<lambda>r.
      Inr (case r of Left _ k \<Rightarrow> Some k | _ \<Rightarrow> None))"
    "loaded program (mem c)" "rip c = USER_CODE_BASE" "cs c = sel_user_code sels"
    using enter_user_thread [OF assms(1,5) len assms(6-8)] by metis
  let ?k = "k\<lparr>k_memory := mem c\<rparr>"
  define steps where "steps = (if program = CRASH_PF_DEMO then 2 else 1 :: nat)"
  have steps: "loaded CRASH_PF_DEMO (mem c) \<and> steps = 2 \<or> loaded CRASH_GPF_DEMO (mem c) \<and> steps = 1"
    using assms(4) c(2) by (auto simp: steps_def)
  have n: "n - steps + steps = n" using assms(10) by (simp add: steps_def)
  have k: "kernel_inv contents ?k" "current (THREADS (k_thread ?k)) \<noteq> BOOTSTRAP_ID"
    "current_process (k_thread ?k) \<noteq> KERNEL_PID" "cs c AND 3 = 3" "mem c = k_memory ?k"
    using assms(1-3,9) c(4) by (simp_all add: kernel_inv_def)
  obtain k' ctx where "user_run Q process_pages report n c ?k = Inr (Left ctx k')" "kernel_inv contents k'" "killed ?k k'"
    using crash_demos_kill_their_process [OF k(1-4) c(3) k(5) steps, of Q report "n - steps"] unfolding n by blast
  moreover from this(3) have "processes (k_process k') = fmdrop (current_process (k_thread k)) (processes (k_process k))"
    by (intro fmap_ext) (simp add: killed_def)
  ultimately show ?thesis by (auto simp: c(1) killed_def)
qed

lemma drive_crash:
  assumes "kernel_inv contents k" and "current (THREADS (k_thread k)) = BOOTSTRAP_ID"
    and "ready (THREADS (k_thread k)) = [tid]" and "threads (THREADS (k_thread k)) = fmupd tid t fmempty"
    and "processes (k_process k) = fmupd (kt_process t) p fmempty" and "kt_process t \<noteq> KERNEL_PID"
    and "program \<in> {CRASH_PF_DEMO, CRASH_GPF_DEMO}" and "loaded program (k_memory k)" and "start_ok start"
    and "user_entry p = USER_CODE_BASE" and "sel_user_code sels AND 3 = 3" and "2 \<le> n"
  shows "\<exists>k'. userland_drive (m + 3) Q process_pages report sels start n k = Inr (Some k') \<and> kernel_inv contents k' \<and>
    processes (k_process k') = fmempty \<and> threads (THREADS (k_thread k')) = fmempty"
proof -
  let ?s1 = "turned (drain_reaper (k_thread k))"
  let ?k1 = "k\<lparr>k_thread := ?s1\<rparr>"
  have t: "thread_inv (k_thread k)" using assms(1) by (simp add: kernel_inv_def)
  have tid: "tid \<noteq> BOOTSTRAP_ID" using thread_invD(1) [OF t] assms(2,3) by (auto simp: run_queue_def)
  have s1: "current (THREADS ?s1) = tid" "threads (THREADS ?s1) = fmupd tid t fmempty"
    using assms(2-4) by (simp_all add: turned_def run_queue_def drain_reaper_facts)
  have cp: "current_process ?s1 = kt_process t" using s1 tid by (simp add: current_process_def)
  have k1: "kernel_inv contents ?k1"
    using with_threads_inv [OF assms(1) turned_inv [OF drain_reaper_inv [OF t]]]
    by (simp add: thread_calls_processes drain_reaper_processes)
  obtain k2 where k2: "run_user_thread Q process_pages report sels start n ?k1 = Inr (Some k2)" "kernel_inv contents k2"
    "processes (k_process k2) = fmdrop (kt_process t) (fmupd (kt_process t) p fmempty)"
    "threads (THREADS (k_thread k2)) = fmdrop tid (fmupd tid t fmempty)"
    using run_crash_thread [OF k1 _ _ assms(7), of start p sels n Q report] assms(5,6,8-12) s1 tid cp by auto
  have none: "processes (k_process k2) = fmempty" "threads (THREADS (k_thread k2)) = fmempty"
    unfolding k2(3,4) by (rule fmap_ext, simp)+
  have "thread_inv (k_thread k2)" using k2(2) by (simp add: kernel_inv_def)
  from no_threads_idle [OF this none(2)]
  have "userland_drive (Suc (Suc (Suc m))) Q process_pages report sels start n k = Inr (Some k2)"
    using assms(2,3) yield_now_eq [OF t] k2(1) s1(1) tid by (auto simp: current_id_def ready_count_def)
  then show ?thesis using k2(2) none by (simp add: numeral_3_eq_3)
qed

text \<open>The kernel of the test when the heap has been initialised.\<close>

abbreviation heap_kernel :: "u64 \<Rightarrow> ('w, 's) waker_ops \<Rightarrow> Buffer \<Rightarrow> memory \<Rightarrow> FixedSizeBlockAllocator \<Rightarrow> ('q, 's) kernel" where
  "heap_kernel boot_ctx W screen m heap \<equiv> (Kernel_new boot_ctx W screen m)\<lparr>k_heap := heap\<rparr>"

lemma heap_kernel_facts:
  "current (THREADS (k_thread (heap_kernel boot_ctx W screen m heap))) = BOOTSTRAP_ID"
  "ready (THREADS (k_thread (heap_kernel boot_ctx W screen m heap))) = []"
  "threads (THREADS (k_thread (heap_kernel boot_ctx W screen m heap))) = fmempty"
  "NEXT_TID (k_thread (heap_kernel boot_ctx W screen m heap)) = 1"
  "NEXT_PID (k_process (heap_kernel boot_ctx W screen m heap)) = 1"
  "processes (k_process (heap_kernel boot_ctx W screen m heap)) = fmempty"
  "processes_alive (SCHEDULER (k_thread (heap_kernel boot_ctx W screen m heap))) = 0"
  by (simp_all add: Kernel_new_def thread_init_def ThreadScheduler_new_def ProcessService_new_def Scheduler_new_def)

lemma crash_process_killed:
  fixes Q :: "(u8, 'q) queue_ops" and W :: "('w, 's) waker_ops"
  assumes pm: "page_mapper (allocate_frame (pf_phys_frame pf)) (\<lambda>a. map_ok (memory_map a)) remaining_frames
      (pf_map_to pf) translate small"
    and pf: "platform_ok pf" and s: "map_ok (memory_map s)" "8 \<le> length (remaining_frames s)"
    and free: "free_pages translate small {CODE_PAGE, STACK_PAGE} mapper"
    and k: "kernel_inv contents (heap_kernel boot_ctx W screen m heap :: ('q, 's) kernel)"
    and program: "program \<in> {CRASH_PF_DEMO, CRASH_GPF_DEMO}" and sels: "sel_user_code sels AND 3 = 3" and n: "3 \<le> n"
  shows "\<exists>l k1 k2 k3. create_process_from_program (pf_page_of pf) (allocate_frame (pf_phys_frame pf)) (pf_map_to pf) Q program
      \<lparr>ld_mapper = mapper, ld_frames = s, ld_kernel = heap_kernel boot_ctx W screen m heap :: ('q, 's) kernel\<rparr> = Inr (l, Inr 1) \<and>
    spawn_user_thread (pf_boxes_user pf) (pf_user_entry pf) 1 (ld_kernel l) = Inr k1 \<and>
    userland_drive n Q process_pages (pf_report pf) sels (pf_start pf) n k1 = Inr (Some k2) \<and>
    (\<exists>sw. yield_now (k_thread k2) = Inr (k_thread k3, sw)) \<and> k3 = k2\<lparr>k_thread := k_thread k3\<rparr> \<and>
    kernel_inv contents k3 \<and> processes (k_process k3) = fmempty \<and> threads (THREADS (k_thread k3)) = fmempty"
proof -
  let ?k = "heap_kernel boot_ctx W screen m heap :: ('q, 's) kernel"
  let ?l = "\<lparr>ld_mapper = mapper, ld_frames = s, ld_kernel = ?k\<rparr>"
  have f: "current (THREADS (k_thread ?k)) = BOOTSTRAP_ID" "ready (THREADS (k_thread ?k)) = []"
    "threads (THREADS (k_thread ?k)) = fmempty" "NEXT_TID (k_thread ?k) = 1" "NEXT_PID (k_process ?k) = 1"
    "processes (k_process ?k) = fmempty"
    by (rule heap_kernel_facts)+
  have pf': "page_of_ok (pf_page_of pf)" "boxes_ok (pf_boxes_user pf)" "start_ok (pf_start pf)"
    using pf by (simp_all add: platform_ok_def)
  have len: "length program \<le> 4096" using program by (auto simp: CRASH_GPF_DEMO_def CRASH_PF_DEMO_def)
  have new: "translate (ld_mapper ?l) p = None \<and> small (ld_mapper ?l) p" if "p \<in> {CODE_PAGE, STACK_PAGE}" for p
    using free that by (auto simp: free_pages_def)
  obtain l where l: "create_process_from_program (pf_page_of pf) (allocate_frame (pf_phys_frame pf)) (pf_map_to pf) Q program ?l =
      Inr (l, Inr (NEXT_PID (k_process ?k)))" "ld_kernel l = after_load program ?k"
    using create_process_ok [OF pm pf'(1) _ _ len new, of Q] s by auto
  obtain k1 t where k1: "spawn_user_thread (pf_boxes_user pf) (pf_user_entry pf) (NEXT_PID (k_process ?k)) (after_load program ?k) = Inr k1"
    "kernel_inv contents k1" "loaded program (k_memory k1)" "current (THREADS (k_thread k1)) = BOOTSTRAP_ID"
    "ready (THREADS (k_thread k1)) = [NEXT_TID (k_thread ?k)]"
    "threads (THREADS (k_thread k1)) = fmupd (NEXT_TID (k_thread ?k)) t (threads (THREADS (k_thread ?k)))"
    "processes (k_process k1) = fmupd (NEXT_PID (k_process ?k)) (demo_process (NEXT_PID (k_process ?k))) (processes (k_process ?k))"
    "kt_process t = NEXT_PID (k_process ?k)"
    by (rule demo_spawned [OF k f(1,2) _ _ pf'(2) len]) (use f(4,5) in simp_all)
  have "kt_process t \<noteq> KERNEL_PID" using k1(8) f(5) by (simp add: KERNEL_PID_def)
  moreover have "user_entry (demo_process 1) = USER_CODE_BASE" by (simp add: demo_process_def)
  ultimately obtain k2 where k2: "userland_drive (n - 3 + 3) Q process_pages (pf_report pf) sels (pf_start pf) n k1 = Inr (Some k2)"
    "kernel_inv contents k2" "processes (k_process k2) = fmempty" "threads (THREADS (k_thread k2)) = fmempty"
    using drive_crash [OF k1(2,4,5) _ _ _ program k1(3) pf'(3) _ sels, of t "demo_process 1" n "n - 3" Q "pf_report pf"]
      k1(6-8) f(3-6) n by auto
  let ?k3 = "k2\<lparr>k_thread := drain_reaper (k_thread k2)\<rparr>"
  have t2: "thread_inv (k_thread k2)" using k2(2) by (simp add: kernel_inv_def)
  have y: "yield_now (k_thread k2) = Inr (k_thread ?k3, None)"
    using yield_now_eq [OF t2] no_threads_idle(2) [OF t2 k2(4)] by (simp add: turned_idle drain_reaper_facts)
  have "kernel_inv contents ?k3"
    using with_threads_inv [OF k2(2) drain_reaper_inv [OF t2]] by (simp add: drain_reaper_processes)
  then show ?thesis
    using l k1(1) k2 n y f(5)
    by (intro exI [of _ l] exI [of _ k1] exI [of _ k2] exI [of _ ?k3]) (auto simp: drain_reaper_facts)
qed

section \<open>Properties\<close>

text \<open>
  C15: Faults in ring 3 are survived, from the power-on of the test kernel to its exit status. On a platform that
  keeps its contracts, the kernel that loads the program storing outside the user pages and the
  one that loads the program executing a privileged instruction both run without a panic: the
  process is killed, its thread reaped, no process and no thread is left, the kernel's invariant
  holds, and the success code is written to the exit port of the emulator.
\<close>

theorem fault_recovery_succeeds:
  fixes Q :: "(u8, 'q) queue_ops" and W :: "('w, 's) waker_ops"
  assumes "descriptor_table (pf_gdt_new pf) (pf_add_entry pf) used"
    and "page_mapper (allocate_frame (pf_phys_frame pf)) (\<lambda>a. map_ok (memory_map a)) remaining_frames
      (pf_map_to pf) translate small"
    and "platform_ok pf" and "boot_info_ok pf boot_info"
    and "free_pages translate small boot_pages (boot_tables_of pf boot_info)"
    and "vga_wf (WRITER_init screen)" and "3 \<le> n"
    and "test \<in> {fault_recovery_pf, fault_recovery_gpf}"
  shows "\<exists>out sels k'. test n Q pf boot_info (Kernel_new boot_ctx W screen m) =
      Inr (Some (out, hardware_init sels @ [PortWrite 0xf4 0x10, Hlt], k')) \<and>
    processes (k_process k') = fmempty \<and> threads (THREADS (k_thread k')) = fmempty \<and> kernel_inv con k'"
proof -
  let ?m0 = "boot_tables_of pf boot_info"
  obtain name program where test: "test n Q pf boot_info = fault_recovery n Q pf boot_info name program"
    and program: "program \<in> {CRASH_PF_DEMO, CRASH_GPF_DEMO}"
    using assms(8) by (auto simp: fault_recovery_pf_def fault_recovery_gpf_def)
  have "free_pages translate small (set heap_pages) ?m0" using assms(5) by (simp add: free_pages_def boot_pages_def)
  from test_boot_heap [OF assms(2-4) this] obtain m1 s1 heap frames where h:
    "pf_virt_new pf (physical_memory_offset boot_info) = Inr (physical_memory_offset boot_info)"
    "memory_init pf (physical_memory_offset boot_info) = Inr ?m0"
    "expect_heap (init_heap (pf_page_range pf) (allocate_frame (pf_phys_frame pf)) (pf_map_to pf) ?m0
      (frame_allocator_init (boot_memory_map boot_info)) fsb_empty) = Inr (m1, s1, heap)"
    "fsb_init fsb_empty HEAP_START HEAP_SIZE = Inr heap" "map_ok (memory_map s1)" "8 \<le> length (remaining_frames s1)"
    "length frames = 25" "small m1 = small ?m0" "translate m1 = translate ?m0 ++ heap_entries frames" by blast
  have free: "free_pages translate small {CODE_PAGE, STACK_PAGE} m1"
    using assms(5) h(8,9) boot_pages_distinct heap_entries_dom [OF h(7)]
    by (auto simp: free_pages_def boot_pages_def map_add_None domIff)
  have k: "kernel_inv con (heap_kernel boot_ctx W screen m heap :: ('q, 's) kernel)"
    using kernel_inv_start [OF assms(6)] heap_fresh [OF h(4)] by blast
  obtain g sels where gdt: "GDT_init (pf_gdt_new pf) (pf_add_entry pf) = Inr (g, sels)" "gs_user_code sels = 0x33"
    using descriptor_table.GDT_selectors [OF assms(1)] by force
  let ?sels = "\<lparr>sel_user_code = ucast (gs_user_code sels), sel_user_data = ucast (gs_user_data sels)\<rparr>"
  have "sel_user_code ?sels AND 3 = 3" using gdt(2) by simp
  from crash_process_killed [OF assms(2,3) h(5,6) free k program this assms(7), of Q] obtain l k1 k2 k3 sw where r:
    "create_process_from_program (pf_page_of pf) (allocate_frame (pf_phys_frame pf)) (pf_map_to pf) Q program
      \<lparr>ld_mapper = m1, ld_frames = s1, ld_kernel = heap_kernel boot_ctx W screen m heap :: ('q, 's) kernel\<rparr> = Inr (l, Inr 1)"
    "spawn_user_thread (pf_boxes_user pf) (pf_user_entry pf) 1 (ld_kernel l) = Inr k1"
    "userland_drive n Q process_pages (pf_report pf) ?sels (pf_start pf) n k1 = Inr (Some k2)"
    "yield_now (k_thread k2) = Inr (k_thread k3, sw)" "k3 = k2\<lparr>k_thread := k_thread k3\<rparr>" "kernel_inv con k3"
    "processes (k_process k3) = fmempty" "threads (THREADS (k_thread k3)) = fmempty"
    by blast
  have "k_process k3 = k_process k2" by (subst r(5)) simp
  then have "processes_alive (SCHEDULER (k_thread k3)) = 0" "\<not> is_registered (k_process k2) 1"
    using r(6,7) by (simp_all add: kernel_inv_def process_inv_def process_count_def is_registered_def process_snapshot_def)
  moreover have "k_heap (Kernel_new boot_ctx W screen m :: ('q, 's) kernel) = fsb_empty"
    "processes_alive (SCHEDULER (k_thread (Kernel_new boot_ctx W screen m :: ('q, 's) kernel))) = 0"
    by (simp_all add: Kernel_new_def thread_init_def Scheduler_new_def)
  ultimately show ?thesis using gdt(1) h(1-3) r by (auto simp: test fault_recovery_def Let_def exit_qemu_def)
qed

theorem fault_recovery_succeeds_witness:
  "\<exists>out sels k'. fault_recovery_pf 3 list_queue small_platform small_boot_info
      (Kernel_new 0x9000 option_waker (replicate 25 (blank_row 7)) (\<lambda>_. 0) :: (nat \<times> u8 list, TaskId option) kernel) =
    Inr (Some (out, hardware_init sels @ [PortWrite 0xf4 0x10, Hlt], k')) \<and> processes (k_process k') = fmempty"
proof -
  have gdt: "descriptor_table (pf_gdt_new small_platform) (pf_add_entry small_platform) length"
    using sg.descriptor_table_axioms by (simp add: small_platform_def)
  have pm: "page_mapper (allocate_frame (pf_phys_frame small_platform)) (\<lambda>a. map_ok (memory_map a)) remaining_frames
      (pf_map_to small_platform) pt_entries (\<lambda>_ _. True)"
    using flm.page_mapper_axioms by (simp add: small_platform_def)
  have wf: "vga_wf (WRITER_init (replicate 25 (blank_row 7)))"
    by (simp add: vga_wf_def WRITER_init_def blank_row_def)
  have "fault_recovery_pf \<in> {fault_recovery_pf, fault_recovery_gpf}" by simp
  from fault_recovery_succeeds [OF gdt pm small_platform_ok wf order_refl this, of list_queue "0x9000" option_waker "\<lambda>_. 0" snd]
  show ?thesis by blast
qed

end
