(* ===== verification/Spin_Locks.thy ===== *)
theory Spin_Locks
  imports Apogee_Prelude
begin

text \<open>
  The spin locks of the kernel and the interrupts that arrive while they are held.

  There is one core, so an acquisition that finds its lock taken spins for ever: the holder is
  the code that was interrupted, or the acquiring code itself. What matters about an operation is
  therefore the tree of its lock scopes, which is written down for every operation that takes a
  lock: \<open>Locked::lock\<close> of \<open>allocator/mod.rs\<close>, \<open>_print\<close> and \<open>set_color\<close> of \<open>vga_buffer.rs\<close>,
  \<open>_print\<close> of \<open>serial.rs\<close>, \<open>_print\<close> and \<open>_log\<close> of \<open>logger.rs\<close>, the operations of \<open>thread.rs\<close> and of the process service,
  and the two interrupt handlers. \<open>lock_step\<close> runs a sequence of operations, and between any two
  steps an enabled interrupt may push its handler. A context switch is a step of its own: the
  code that follows it is that of another thread, so the operations of all threads form one
  sequence. The switch does not save the interrupt flag, and neither does the model.

  \<open>spin::Mutex\<close> and \<open>without_interrupts\<close> have their documented behaviour: \<open>lock\<close> takes a free lock,
  \<open>try_lock\<close> fails on a taken one, a guard releases at the end of its scope, and
  \<open>without_interrupts\<close> restores the flag that it found.
\<close>

section \<open>The model\<close>

datatype lock = WRITER_lock | SERIAL1_lock | ALLOCATOR_lock | THREADS_lock | PROCESSES_lock | PICS_lock

text \<open>\<open>Release\<close> and \<open>Set_if\<close> also stand for the ends of the scopes when a scope has been entered.\<close>

datatype action =
    With_lock lock "action list"
  | Try_lock lock "action list"
  | Without_interrupts "action list"
  | Release lock
  | Set_if bool
  | Switch

subsection \<open>The operations\<close>

definition Locked_lock :: "action list \<Rightarrow> action list" where
  "Locked_lock body = [With_lock ALLOCATOR_lock body]"

text \<open>A run of \<open>n\<close> allocations and deallocations, as collections and boxes make them.\<close>

definition heap_locks :: "nat \<Rightarrow> action list" where
  "heap_locks n = concat (replicate n (Locked_lock []))"

definition vga_print_locks :: "action list" where
  "vga_print_locks = [Without_interrupts [With_lock WRITER_lock []]]"

definition set_color_locks :: "action list" where
  "set_color_locks = [Without_interrupts [With_lock WRITER_lock []]]"

definition serial_print_locks :: "action list" where
  "serial_print_locks = [Without_interrupts [With_lock SERIAL1_lock []]]"

definition log_print_locks :: "action list" where
  "log_print_locks = [Try_lock SERIAL1_lock []]"

definition log_message_locks :: "action list" where
  "log_message_locks = [Try_lock SERIAL1_lock []]"

definition thread_spawn_locks :: "nat \<Rightarrow> action list" where
  "thread_spawn_locks n = [With_lock THREADS_lock (heap_locks n)]"

definition drain_reaper_locks :: "nat \<Rightarrow> action list" where
  "drain_reaper_locks n = [Without_interrupts [With_lock THREADS_lock []]] @ heap_locks n"

definition yield_now_locks :: "nat \<Rightarrow> nat \<Rightarrow> bool \<Rightarrow> action list" where
  "yield_now_locks n m switches =
    drain_reaper_locks n @ [Without_interrupts [With_lock THREADS_lock (heap_locks m)]] @
    (if switches then [Switch] else [])"

definition exit_thread_locks :: "nat \<Rightarrow> nat \<Rightarrow> action list" where
  "exit_thread_locks n m =
    drain_reaper_locks n @ [Without_interrupts [With_lock THREADS_lock (heap_locks m)], Switch]"

definition thread_query_locks :: "action list" where
  "thread_query_locks = [With_lock THREADS_lock []]"

definition process_register_locks :: "nat \<Rightarrow> action list" where
  "process_register_locks n = [With_lock PROCESSES_lock (heap_locks n)]"

definition process_exit_locks :: "nat \<Rightarrow> action list" where
  "process_exit_locks n = [With_lock PROCESSES_lock (heap_locks n)]"

definition process_query_locks :: "action list" where
  "process_query_locks = [With_lock PROCESSES_lock []]"

definition pics_init_locks :: "action list" where
  "pics_init_locks = [With_lock PICS_lock [], Set_if True]"

text \<open>
  The handlers of the maskable interrupts: the tick may log a heartbeat, a scan code may log a
  warning, and both acknowledge the interrupt.
\<close>

definition timer_handler_locks :: "bool \<Rightarrow> action list" where
  "timer_handler_locks heartbeat =
    (if heartbeat then log_message_locks else []) @ [With_lock PICS_lock []]"

definition keyboard_handler_locks :: "bool \<Rightarrow> action list" where
  "keyboard_handler_locks warns =
    (if warns then log_message_locks else []) @ [With_lock PICS_lock []]"

text \<open>
  Code that a handler may be made of: it may log, print on the screen and acknowledge, in any
  order. The two handlers are of this form; neither prints, but the console is built so that
  it could.
\<close>

datatype handler_part = Logs | Prints | Acknowledges

fun part_locks :: "handler_part \<Rightarrow> action list" where
  "part_locks Logs = log_message_locks"
| "part_locks Prints = vga_print_locks"
| "part_locks Acknowledges = [With_lock PICS_lock []]"

definition handler_codes :: "action list set" where
  "handler_codes = range (\<lambda>parts. concat (map part_locks parts))"

text \<open>
  What threads can do. A system call or a fault enters the kernel through an interrupt gate, which
  clears the interrupt flag, and \<open>iretq\<close> brings it back; \<open>sleep_if_idle\<close> of the executor clears and sets it.
\<close>

datatype operation =
    Heap nat | Vga_print | Set_color | Serial_print | Log_print | Log_message
  | Spawn nat | Yield nat nat bool | Exit_thread nat nat | Thread_query
  | Register nat | Exit nat | Process_query | Enter_kernel | Leave_kernel

fun operation_locks :: "operation \<Rightarrow> action list" where
  "operation_locks (Heap n) = heap_locks n"
| "operation_locks Vga_print = vga_print_locks"
| "operation_locks Set_color = set_color_locks"
| "operation_locks Serial_print = serial_print_locks"
| "operation_locks Log_print = log_print_locks"
| "operation_locks Log_message = log_message_locks"
| "operation_locks (Spawn n) = thread_spawn_locks n"
| "operation_locks (Yield n m switches) = yield_now_locks n m switches"
| "operation_locks (Exit_thread n m) = exit_thread_locks n m"
| "operation_locks Thread_query = thread_query_locks"
| "operation_locks (Register n) = process_register_locks n"
| "operation_locks (Exit n) = process_exit_locks n"
| "operation_locks Process_query = process_query_locks"
| "operation_locks Enter_kernel = [Set_if False]"
| "operation_locks Leave_kernel = [Set_if True]"

definition kernel_locks :: "operation list \<Rightarrow> action list" where
  "kernel_locks ops = pics_init_locks @ concat (map operation_locks ops)"

subsection \<open>Execution\<close>

text \<open>
  The code still to be run, the innermost handler first and the interrupted code last, the locks
  that are taken, and the interrupt flag.
\<close>

record lock_state =
  frames :: "action list list"
  taken :: "lock set"
  if_flag :: bool

inductive lock_step :: "action list set \<Rightarrow> lock_state \<Rightarrow> lock_state \<Rightarrow> bool" for H where
  lock: "l \<notin> T \<Longrightarrow>
    lock_step H \<lparr>frames = (With_lock l body # rest) # fs, taken = T, if_flag = i\<rparr>
      \<lparr>frames = (body @ Release l # rest) # fs, taken = insert l T, if_flag = i\<rparr>"
| try_lock: "l \<notin> T \<Longrightarrow>
    lock_step H \<lparr>frames = (Try_lock l body # rest) # fs, taken = T, if_flag = i\<rparr>
      \<lparr>frames = (body @ Release l # rest) # fs, taken = insert l T, if_flag = i\<rparr>"
| try_lock_fails: "l \<in> T \<Longrightarrow>
    lock_step H \<lparr>frames = (Try_lock l body # rest) # fs, taken = T, if_flag = i\<rparr>
      \<lparr>frames = rest # fs, taken = T, if_flag = i\<rparr>"
| release:
    "lock_step H \<lparr>frames = (Release l # rest) # fs, taken = T, if_flag = i\<rparr>
      \<lparr>frames = rest # fs, taken = T - {l}, if_flag = i\<rparr>"
| without_interrupts:
    "lock_step H \<lparr>frames = (Without_interrupts body # rest) # fs, taken = T, if_flag = i\<rparr>
      \<lparr>frames = (body @ Set_if i # rest) # fs, taken = T, if_flag = False\<rparr>"
| set_if:
    "lock_step H \<lparr>frames = (Set_if b # rest) # fs, taken = T, if_flag = i\<rparr>
      \<lparr>frames = rest # fs, taken = T, if_flag = b\<rparr>"
| switch:
    "lock_step H \<lparr>frames = (Switch # rest) # fs, taken = T, if_flag = i\<rparr>
      \<lparr>frames = rest # fs, taken = T, if_flag = i\<rparr>"
| interrupt: "h \<in> H \<Longrightarrow>
    lock_step H \<lparr>frames = f # fs, taken = T, if_flag = True\<rparr>
      \<lparr>frames = (h @ [Set_if True]) # f # fs, taken = T, if_flag = False\<rparr>"
| iret:
    "lock_step H \<lparr>frames = [] # f # fs, taken = T, if_flag = i\<rparr>
      \<lparr>frames = f # fs, taken = T, if_flag = i\<rparr>"

text \<open>The same without interrupts, as a function.\<close>

definition lock_next :: "lock_state \<Rightarrow> lock_state option" where
  "lock_next s =
    (case frames s of
       [] \<Rightarrow> None
     | f # fs \<Rightarrow>
         (case f of
            [] \<Rightarrow> if fs = [] then None else Some (s\<lparr>frames := fs\<rparr>)
          | a # rest \<Rightarrow>
              (case a of
                 With_lock l body \<Rightarrow>
                   if l \<in> taken s then None
                   else Some (s\<lparr>frames := (body @ Release l # rest) # fs, taken := insert l (taken s)\<rparr>)
               | Try_lock l body \<Rightarrow>
                   if l \<in> taken s then Some (s\<lparr>frames := rest # fs\<rparr>)
                   else Some (s\<lparr>frames := (body @ Release l # rest) # fs, taken := insert l (taken s)\<rparr>)
               | Without_interrupts body \<Rightarrow>
                   Some (s\<lparr>frames := (body @ Set_if (if_flag s) # rest) # fs, if_flag := False\<rparr>)
               | Release l \<Rightarrow> Some (s\<lparr>frames := rest # fs, taken := taken s - {l}\<rparr>)
               | Set_if b \<Rightarrow> Some (s\<lparr>frames := rest # fs, if_flag := b\<rparr>)
               | Switch \<Rightarrow> Some (s\<lparr>frames := rest # fs\<rparr>))))"

primrec lock_run :: "nat \<Rightarrow> lock_state \<Rightarrow> lock_state option" where
  "lock_run 0 s = Some s"
| "lock_run (Suc n) s = (case lock_next s of None \<Rightarrow> None | Some s' \<Rightarrow> lock_run n s')"

definition spins :: "lock_state \<Rightarrow> bool" where
  "spins s \<longleftrightarrow> (\<exists>l body rest fs. frames s = (With_lock l body # rest) # fs \<and> l \<in> taken s)"

definition at_switch :: "lock_state \<Rightarrow> bool" where
  "at_switch s \<longleftrightarrow> (\<exists>rest fs. frames s = (Switch # rest) # fs)"

definition lock_start :: "action list \<Rightarrow> lock_state" where
  "lock_start code = \<lparr>frames = [code], taken = {}, if_flag = False\<rparr>"

lemma lock_next_step:
  assumes "lock_next s = Some s'"
  shows "lock_step H s s'"
proof -
  obtain fr T i where s: "s = \<lparr>frames = fr, taken = T, if_flag = i\<rparr>" by (cases s)
  then show ?thesis
    using assms
    by (auto simp: lock_next_def neq_Nil_conv intro: lock_step.intros split: list.splits action.splits if_splits)
qed

lemma lock_run_steps: "lock_run n s = Some s' \<Longrightarrow> (lock_step H)\<^sup>*\<^sup>* s s'"
proof (induction n arbitrary: s)
  case (Suc n)
  then obtain s1 where "lock_next s = Some s1" "lock_run n s1 = Some s'" by (auto split: option.splits)
  then show ?case using Suc.IH lock_next_step by (meson converse_rtranclp_into_rtranclp)
qed simp

section \<open>The discipline\<close>

text \<open>
  \<open>disciplined B S i code\<close> checks code that holds the locks \<open>S\<close> with the interrupt flag \<open>i\<close>: it never takes a lock
  it holds, it holds a lock of \<open>B\<close>, which handlers wait for, only with interrupts off, it releases
  what it holds and nothing else, and holds nothing when it switches or ends.
\<close>

function disciplined :: "lock set \<Rightarrow> lock set \<Rightarrow> bool \<Rightarrow> action list \<Rightarrow> bool" where
  "disciplined B S i [] \<longleftrightarrow> S = {}"
| "disciplined B S i (With_lock l body # rest) \<longleftrightarrow>
    l \<notin> S \<and> (i \<longrightarrow> l \<notin> B) \<and> disciplined B (insert l S) i (body @ Release l # rest)"
| "disciplined B S i (Try_lock l body # rest) \<longleftrightarrow>
    (i \<longrightarrow> l \<notin> B) \<and> (l \<notin> S \<longrightarrow> disciplined B (insert l S) i (body @ Release l # rest)) \<and>
    disciplined B S i rest"
| "disciplined B S i (Without_interrupts body # rest) \<longleftrightarrow> disciplined B S False (body @ Set_if i # rest)"
| "disciplined B S i (Release l # rest) \<longleftrightarrow> l \<in> S \<and> disciplined B (S - {l}) i rest"
| "disciplined B S i (Set_if b # rest) \<longleftrightarrow> (b \<longrightarrow> S \<inter> B = {}) \<and> disciplined B S b rest"
| "disciplined B S i (Switch # rest) \<longleftrightarrow> S = {} \<and> disciplined B S i rest"
  by pat_completeness auto
termination
  by (relation "measure (\<lambda>(B, S, i, code). size_list size code)") auto


fun handler_code :: "lock set \<Rightarrow> action list \<Rightarrow> bool" where
  "handler_code B [] \<longleftrightarrow> True"
| "handler_code B (With_lock l body # rest) \<longleftrightarrow> l \<in> B \<and> handler_code B body \<and> handler_code B rest"
| "handler_code B (Try_lock l body # rest) \<longleftrightarrow> handler_code B body \<and> handler_code B rest"
| "handler_code B (Without_interrupts body # rest) \<longleftrightarrow> handler_code B body \<and> handler_code B rest"
| "handler_code B (Switch # rest) \<longleftrightarrow> False"
| "handler_code B (_ # rest) \<longleftrightarrow> handler_code B rest"

lemma handler_code_append [simp]: "handler_code B (xs @ ys) \<longleftrightarrow> handler_code B xs \<and> handler_code B ys"
  by (induction B xs rule: handler_code.induct) auto

text \<open>
  A frame is in order when its code is disciplined for the locks it holds. A frame above the bottom is the
  rest of a handler, which ends by bringing the interrupt flag back. Frames below the top were interrupted, so
  they hold nothing that a handler waits for.
\<close>

definition frame_ok :: "lock set \<Rightarrow> lock set \<Rightarrow> bool \<Rightarrow> action list \<Rightarrow> bool" where
  "frame_ok B S i f \<longleftrightarrow> disciplined B S i f \<and> (i \<longrightarrow> S \<inter> B = {})"

definition handler_frame :: "lock set \<Rightarrow> bool \<Rightarrow> action list \<Rightarrow> bool" where
  "handler_frame B i f \<longleftrightarrow> handler_code B f \<and> (if f = [] then i else last f = Set_if True)"

inductive stacked :: "lock set \<Rightarrow> bool \<Rightarrow> lock set list \<Rightarrow> action list list \<Rightarrow> bool" for B where
  bottom: "frame_ok B S i f \<Longrightarrow> stacked B i [S] [f]"
| above: "frame_ok B S i f \<Longrightarrow> handler_frame B i f \<Longrightarrow> S \<inter> \<Union>(set Ss) = {} \<Longrightarrow> stacked B True Ss fs \<Longrightarrow>
    stacked B i (S # Ss) (f # fs)"

inductive_cases stacked_Cons_ConsE: "stacked B i Ss (f # g # fs)"
inductive_cases stacked_NilE [elim!]: "stacked B i [] fs" "stacked B i Ss []"

definition lock_inv :: "lock set \<Rightarrow> lock_state \<Rightarrow> bool" where
  "lock_inv B s \<longleftrightarrow> (\<exists>Ss. stacked B (if_flag s) Ss (frames s) \<and> taken s = \<Union>(set Ss))"

lemma stacked_free: "stacked B i Ss fs \<Longrightarrow> i \<Longrightarrow> \<Union>(set Ss) \<inter> B = {}"
  by (induction rule: stacked.induct) (auto simp: frame_ok_def)

text \<open>The top frame, what it may assume of the frames below, and what may take its place.\<close>

lemma lock_inv_top:
  assumes "lock_inv B \<lparr>frames = f # fs, taken = T, if_flag = i\<rparr>"
  obtains S U where "frame_ok B S i f" and "T = S \<union> U" and "S \<inter> U = {}" and "U \<inter> B = {}"
    and "fs \<noteq> [] \<Longrightarrow> handler_frame B i f" and "fs = [] \<Longrightarrow> U = {}"
    and "\<And>S' i' f' T'. frame_ok B S' i' f' \<Longrightarrow> (handler_frame B i f \<Longrightarrow> handler_frame B i' f') \<Longrightarrow>
      S' \<inter> U = {} \<Longrightarrow> T' = S' \<union> U \<Longrightarrow> lock_inv B \<lparr>frames = f' # fs, taken = T', if_flag = i'\<rparr>"
proof -
  obtain Ss where "stacked B i Ss (f # fs)" and T: "T = \<Union>(set Ss)" using assms by (auto simp: lock_inv_def)
  from this(1) show ?thesis
  proof (cases rule: stacked.cases)
    case (bottom S)
    then show ?thesis using T by (intro that [of S "{}"]) (auto simp: lock_inv_def intro: stacked.bottom)
  next
    case (above S Rs)
    have "lock_inv B \<lparr>frames = f' # fs, taken = T', if_flag = i'\<rparr>"
      if "frame_ok B S' i' f'" "handler_frame B i' f'" "S' \<inter> \<Union>(set Rs) = {}" "T' = S' \<union> \<Union>(set Rs)" for S' i' f' T'
      using stacked.above [OF that(1-3) above(5)] that(4) by (auto simp: lock_inv_def intro!: exI [of _ "S' # Rs"])
    then show ?thesis
      using above T stacked_free [OF above(5)] by (intro that [of S "\<Union>(set Rs)"]) auto
  qed
qed

lemma replace_top:
  assumes "lock_inv B \<lparr>frames = f # fs, taken = T, if_flag = i\<rparr>"
    and "\<And>S U. frame_ok B S i f \<Longrightarrow> T = S \<union> U \<Longrightarrow> S \<inter> U = {} \<Longrightarrow> frame_ok B (g S) i' f' \<and> g S \<inter> U = {} \<and> T' = g S \<union> U"
    and "handler_frame B i f \<Longrightarrow> handler_frame B i' f'"
  shows "lock_inv B \<lparr>frames = f' # fs, taken = T', if_flag = i'\<rparr>"
proof (rule lock_inv_top [OF assms(1)])
  fix S U
  assume top: "frame_ok B S i f" "T = S \<union> U" "S \<inter> U = {}"
    and put: "\<And>S' i' f' T'. frame_ok B S' i' f' \<Longrightarrow> (handler_frame B i f \<Longrightarrow> handler_frame B i' f') \<Longrightarrow>
      S' \<inter> U = {} \<Longrightarrow> T' = S' \<union> U \<Longrightarrow> lock_inv B \<lparr>frames = f' # fs, taken = T', if_flag = i'\<rparr>"
  show ?thesis using assms(2) [OF top] assms(3) by (intro put [of "g S"]) simp_all
qed

lemma handler_frame_step:
  "handler_frame B i (With_lock l body # rest) \<Longrightarrow> handler_frame B i' (body @ Release l # rest)"
  "handler_frame B i (Try_lock l body # rest) \<Longrightarrow> handler_frame B i' (body @ Release l # rest)"
  "handler_frame B i (Try_lock l body # rest) \<Longrightarrow> handler_frame B i' rest"
  "handler_frame B i (Without_interrupts body # rest) \<Longrightarrow> handler_frame B i' (body @ Set_if b # rest)"
  "handler_frame B i (Release l # rest) \<Longrightarrow> handler_frame B i' rest"
  "handler_frame B i (Set_if b # rest) \<Longrightarrow> handler_frame B b rest"
  by (auto simp: handler_frame_def split: if_splits)

definition handlers_ok :: "lock set \<Rightarrow> action list set \<Rightarrow> bool" where
  "handlers_ok B H \<longleftrightarrow> (\<forall>h \<in> H. handler_code B h \<and> disciplined B {} False (h @ [Set_if True]))"

lemma lock_step_inv:
  assumes "lock_step H s s'" and "handlers_ok B H" and "lock_inv B s"
  shows "lock_inv B s'"
  using assms
proof (induction rule: lock_step.induct)
  case (lock l T body rest fs i)
  show ?case
    by (rule replace_top [OF lock.prems(2), where g = "insert l"])
      (use lock.hyps in \<open>auto simp: frame_ok_def intro: handler_frame_step\<close>)
next
  case (try_lock l T body rest fs i)
  show ?case
    by (rule replace_top [OF try_lock.prems(2), where g = "insert l"])
      (use try_lock.hyps in \<open>auto simp: frame_ok_def intro: handler_frame_step\<close>)
next
  case (try_lock_fails l T body rest fs i)
  show ?case
    by (rule replace_top [OF try_lock_fails.prems(2), where g = id])
      (auto simp: frame_ok_def intro: handler_frame_step)
next
  case (release l rest fs T i)
  show ?case
    by (rule replace_top [OF release.prems(2), where g = "\<lambda>S. S - {l}"])
      (auto simp: frame_ok_def intro: handler_frame_step)
next
  case (without_interrupts body rest fs T i)
  show ?case
    by (rule replace_top [OF without_interrupts.prems(2), where g = id])
      (auto simp: frame_ok_def intro: handler_frame_step)
next
  case (set_if b rest fs T i)
  show ?case
    by (rule replace_top [OF set_if.prems(2), where g = id]) (auto simp: frame_ok_def intro: handler_frame_step)
next
  case (switch rest fs T i)
  show ?case
    by (rule replace_top [OF switch.prems(2), where g = id]) (auto simp: frame_ok_def handler_frame_def)
next
  case (interrupt h f fs T)
  obtain Ss where Ss: "stacked B True Ss (f # fs)" "T = \<Union>(set Ss)" using interrupt.prems(2) by (auto simp: lock_inv_def)
  have "frame_ok B {} False (h @ [Set_if True])" "handler_frame B False (h @ [Set_if True])"
    using interrupt by (auto simp: handlers_ok_def frame_ok_def handler_frame_def)
  then have "stacked B False ({} # Ss) ((h @ [Set_if True]) # f # fs)" using Ss(1) by (intro stacked.above) simp_all
  then show ?case using Ss(2) by (auto simp: lock_inv_def intro!: exI [of _ "{} # Ss"])
next
  case (iret f fs T i)
  then obtain Ss where "stacked B i Ss ([] # f # fs)" "T = \<Union>(set Ss)" by (auto simp: lock_inv_def)
  then show ?case
    by (auto elim!: stacked_Cons_ConsE simp: lock_inv_def frame_ok_def handler_frame_def)
qed

section \<open>What the discipline gives\<close>

lemma lock_inv_no_spin: "lock_inv B s \<Longrightarrow> \<not> spins s"
proof
  assume inv: "lock_inv B s" and "spins s"
  then obtain l body rest fs where f: "frames s = (With_lock l body # rest) # fs" "l \<in> taken s" by (auto simp: spins_def)
  have "lock_inv B \<lparr>frames = (With_lock l body # rest) # fs, taken = taken s, if_flag = if_flag s\<rparr>"
    using inv f(1) by (simp add: lock_inv_def)
  then show False
    by (rule lock_inv_top) (use f(2) in \<open>cases fs; auto simp: frame_ok_def handler_frame_def\<close>)
qed

lemma lock_inv_switch: "lock_inv B s \<Longrightarrow> at_switch s \<Longrightarrow> taken s = {}"
proof -
  assume inv: "lock_inv B s" and "at_switch s"
  then obtain rest fs where f: "frames s = (Switch # rest) # fs" by (auto simp: at_switch_def)
  have "lock_inv B \<lparr>frames = (Switch # rest) # fs, taken = taken s, if_flag = if_flag s\<rparr>"
    using inv f(1) by (simp add: lock_inv_def)
  then show "taken s = {}"
    by (rule lock_inv_top) (cases fs; auto simp: frame_ok_def handler_frame_def)
qed

lemma lock_inv_end: "lock_inv B s \<Longrightarrow> frames s = [[]] \<Longrightarrow> taken s = {}"
  by (auto simp: lock_inv_def frame_ok_def elim: stacked.cases)

definition remaining_code :: "lock_state \<Rightarrow> nat" where
  "remaining_code s = (\<Sum>f \<leftarrow> frames s. Suc (size_list size f))"

lemma action_progress:
  assumes "\<And>l body. a = With_lock l body \<Longrightarrow> l \<notin> T"
  shows "\<exists>s'. lock_step {} \<lparr>frames = (a # rest) # fs, taken = T, if_flag = i\<rparr> s' \<and>
    remaining_code s' < remaining_code \<lparr>frames = (a # rest) # fs, taken = T, if_flag = i\<rparr>"
proof (cases a)
  case (With_lock l body)
  then show ?thesis using lock_step.lock [of l T "{}" body rest fs i] assms by (fastforce simp: remaining_code_def)
next
  case (Try_lock l body)
  then show ?thesis
    using lock_step.try_lock [of l T "{}" body rest fs i] lock_step.try_lock_fails [of l T "{}" body rest fs i]
    by (cases "l \<in> T") (fastforce simp: remaining_code_def)+
next
  case (Without_interrupts body)
  then show ?thesis using lock_step.without_interrupts [of "{}" body rest fs T i] by (fastforce simp: remaining_code_def)
next
  case (Release l)
  then show ?thesis using lock_step.release [of "{}" l rest fs T i] by (fastforce simp: remaining_code_def)
next
  case (Set_if b)
  then show ?thesis using lock_step.set_if [of "{}" b rest fs T i] by (fastforce simp: remaining_code_def)
next
  case Switch
  then show ?thesis using lock_step.switch [of "{}" rest fs T i] by (fastforce simp: remaining_code_def)
qed

lemma lock_progress:
  assumes "lock_inv B s" and "frames s \<noteq> [[]]"
  shows "\<exists>s'. lock_step {} s s' \<and> remaining_code s' < remaining_code s"
proof -
  obtain f fs where f: "frames s = f # fs" using assms(1) by (cases "frames s") (auto simp: lock_inv_def)
  then obtain T i where s: "s = \<lparr>frames = f # fs, taken = T, if_flag = i\<rparr>" by (cases s) simp
  show ?thesis
  proof (cases f)
    case Nil
    then obtain g gs where "fs = g # gs" using assms(2) f by (cases fs) auto
    then show ?thesis
      using lock_step.iret [of "{}" g gs T i] s Nil by (fastforce simp: remaining_code_def)
  next
    case (Cons a rest)
    have "l \<notin> T" if "a = With_lock l body" for l body
      using lock_inv_no_spin [OF assms(1)] s Cons that by (auto simp: spins_def)
    then show ?thesis using action_progress [of a T rest fs i] s Cons by metis
  qed
qed

lemma lock_completes:
  assumes "lock_inv B s"
  shows "\<exists>s'. (lock_step {})\<^sup>*\<^sup>* s s' \<and> frames s' = [[]] \<and> taken s' = {}"
  using assms
proof (induction "remaining_code s" arbitrary: s rule: less_induct)
  case less
  show ?case
  proof (cases "frames s = [[]]")
    case True
    then show ?thesis using lock_inv_end [OF less.prems] by blast
  next
    case False
    then obtain s1 where s1: "lock_step {} s s1" "remaining_code s1 < remaining_code s"
      using lock_progress [OF less.prems] by blast
    moreover have "lock_inv B s1" by (rule lock_step_inv [OF s1(1) _ less.prems]) (simp add: handlers_ok_def)
    ultimately show ?thesis using less.hyps by (meson converse_rtranclp_into_rtranclp)
  qed
qed

section \<open>The kernel's operations are disciplined\<close>

abbreviation handler_locks :: "lock set" where
  "handler_locks \<equiv> {WRITER_lock, PICS_lock}"

lemmas lock_defs = Locked_lock_def vga_print_locks_def set_color_locks_def serial_print_locks_def
  log_print_locks_def log_message_locks_def thread_spawn_locks_def drain_reaper_locks_def yield_now_locks_def
  exit_thread_locks_def thread_query_locks_def process_register_locks_def process_exit_locks_def
  process_query_locks_def pics_init_locks_def timer_handler_locks_def keyboard_handler_locks_def

lemma disciplined_heap [simp]:
  "ALLOCATOR_lock \<notin> S \<Longrightarrow> disciplined handler_locks S i (heap_locks n @ rest) \<longleftrightarrow> disciplined handler_locks S i rest"
  by (induction n) (simp_all add: heap_locks_def Locked_lock_def)

lemma disciplined_heap_end [simp]: "disciplined handler_locks {} i (heap_locks n)"
  using disciplined_heap [of "{}" i n "[]"] by simp

lemma disciplined_operation:
  assumes "\<And>i. disciplined handler_locks {} i rest"
  shows "disciplined handler_locks {} i (operation_locks op @ rest)"
  using assms by (cases op) (simp_all add: lock_defs insert_Diff_if)

lemma disciplined_kernel: "disciplined handler_locks {} False (kernel_locks ops)"
proof -
  have "disciplined handler_locks {} i (concat (map operation_locks ops))" for i
    by (induction ops arbitrary: i) (simp_all add: disciplined_operation)
  then show ?thesis by (simp add: kernel_locks_def lock_defs)
qed

lemma handlers_disciplined: "handlers_ok handler_locks handler_codes"
proof -
  have "handler_code handler_locks (concat (map part_locks parts))" for parts
  proof (induction parts)
    case (Cons p parts)
    then show ?case by (cases p) (simp_all add: lock_defs)
  qed simp
  moreover have "disciplined handler_locks {} False (concat (map part_locks parts) @ [Set_if True])" for parts
  proof (induction parts)
    case (Cons p parts)
    then show ?case by (cases p) (simp_all add: lock_defs)
  qed simp
  ultimately show ?thesis by (auto simp: handlers_ok_def handler_codes_def)
qed

lemma actual_handlers: "timer_handler_locks b \<in> handler_codes" "keyboard_handler_locks b \<in> handler_codes"
  unfolding handler_codes_def
  by (auto simp: lock_defs intro!: range_eqI [of _ _ "if b then [Logs, Acknowledges] else [Acknowledges]"])

lemma kernel_lock_inv:
  assumes "(lock_step handler_codes)\<^sup>*\<^sup>* (lock_start (kernel_locks ops)) s"
  shows "lock_inv handler_locks s"
  using assms
proof (induction rule: rtranclp_induct)
  case base
  show ?case
    using disciplined_kernel
    by (auto simp: lock_inv_def lock_start_def frame_ok_def intro!: exI [of _ "[{}]"] stacked.bottom)
next
  case (step s s')
  then show ?case using lock_step_inv handlers_disciplined by blast
qed

text \<open>
  A thread that yields in a system call switches with interrupts off, and the thread it switches to
  goes on with them off: neither \<open>yield_now\<close> nor \<open>switch_context\<close> touches the flag.
\<close>

lemma switch_with_interrupts_off:
  "\<exists>s. (lock_step H)\<^sup>*\<^sup>* (lock_start (kernel_locks [Enter_kernel, Yield 0 0 True, Heap 1])) s \<and> at_switch s \<and> \<not> if_flag s"
proof -
  let ?s = "\<lparr>frames = [[Switch, With_lock ALLOCATOR_lock []]], taken = {}, if_flag = False\<rparr>"
  have "lock_run 12 (lock_start (kernel_locks [Enter_kernel, Yield 0 0 True, Heap 1])) = Some ?s"
    by (simp add: lock_start_def kernel_locks_def lock_defs heap_locks_def lock_next_def eval_nat_numeral)
  then have "(lock_step H)\<^sup>*\<^sup>* (lock_start (kernel_locks [Enter_kernel, Yield 0 0 True, Heap 1])) ?s"
    by (rule lock_run_steps)
  then show ?thesis by (auto simp: at_switch_def)
qed

section \<open>Properties\<close>

text \<open>
  C14: The locks never deadlock. Whatever operations the threads perform, from the initialisation of the
  interrupt controllers on, and wherever interrupts arrive whose handlers log, print on the screen and
  acknowledge, as the timer and the keyboard handler do: no acquisition ever finds its lock taken, so none
  spins; no lock is held across a context switch; and from every state the code runs to its end, with
  all locks released, once no further interrupt arrives.
\<close>

theorem locks_never_deadlock:
  assumes "(lock_step handler_codes)\<^sup>*\<^sup>* (lock_start (kernel_locks ops)) s"
  shows "\<not> spins s \<and> (at_switch s \<longrightarrow> taken s = {}) \<and>
    (\<exists>s'. (lock_step {})\<^sup>*\<^sup>* s s' \<and> frames s' = [[]] \<and> taken s' = {}) \<and>
    {timer_handler_locks b, keyboard_handler_locks b} \<subseteq> handler_codes"
  using kernel_lock_inv [OF assms] lock_inv_no_spin lock_inv_switch lock_completes actual_handlers by blast

text \<open>A timer interrupt that arrives while the heap's lock is held.\<close>

theorem locks_never_deadlock_witness:
  "\<not> spins \<lparr>frames = [timer_handler_locks False @ [Set_if True], [Release ALLOCATOR_lock]],
      taken = {ALLOCATOR_lock}, if_flag = False\<rparr>"
proof -
  let ?s = "\<lparr>frames = [[Release ALLOCATOR_lock]], taken = {ALLOCATOR_lock}, if_flag = True\<rparr>"
  have "lock_run 4 (lock_start (kernel_locks [Heap 1])) = Some ?s"
    by (simp add: lock_start_def kernel_locks_def lock_defs heap_locks_def lock_next_def eval_nat_numeral)
  then have "(lock_step handler_codes)\<^sup>*\<^sup>* (lock_start (kernel_locks [Heap 1])) ?s" by (rule lock_run_steps)
  from rtranclp.rtrancl_into_rtrancl [OF this lock_step.interrupt [OF actual_handlers(1)]]
  show ?thesis by (rule locks_never_deadlock [THEN conjunct1])
qed

end
