(* ===== verification/Spec2Isabelle.thy ===== *)
theory Spec2Isabelle
  imports Bump_Allocator Unit_Tests Fault_Recovery Spin_Locks
begin

text \<open>
  A verification development of apogee, a kernel for the x86-64 written in Rust (\<open>src/src/\<close>).

  \<^bold>\<open>The program.\<close> \<open>kernel_main\<close> sets up segments, interrupt table and interrupt controllers, takes over
  the page tables of the bootloader, maps a heap and installs the allocator. It runs three demos:
  heap allocations, kernel threads, and a process in ring 3. Then it drives two asynchronous tasks
  for ever. Interrupts feed a tick counter and the keyboard queue; processes enter the kernel by
  \<open>int 0x80\<close> or by a fault, and every service sits behind \<open>Kernel::call\<close>.

  \<^bold>\<open>Conventions\<close> (\<open>Apogee_Prelude\<close>). A computation that may panic has the type \<open>'a res\<close>; overflow of
  checked arithmetic, a failed \<open>debug_assert!\<close>, an index out of bounds and \<open>expect\<close> are panics. Statics
  are fields of a state record that every operation takes and returns. Heap addresses and byte counts are
  natural numbers with the 64-bit bound written out; identifiers, counters and registers are words.

  \<^bold>\<open>The parts.\<close> Source files are below \<open>src/src/\<close> unless the path says otherwise.

  \<^item> Heap. \<open>Heap_Interface\<close> (\<open>allocator/mod.rs\<close>) has \<open>align_up\<close>, the layouts and the contract \<open>global_alloc\<close>
    of an allocator. \<open>Bump_Allocator\<close> (\<open>bump.rs\<close>), \<open>Linked_List_Allocator\<close> (\<open>linkedlist.rs\<close>) and
    \<open>Fixed_Size_Block\<close> (\<open>fixed_size_block.rs\<close>) interpret it: live blocks stay aligned, disjoint and inside
    the heap, and no client request panics. The linked list refines first fit on the set of free bytes,
    deallocation returns exactly the block, and the statistics are exact. \<open>Heap_Demo\<close> runs
    \<open>sample_heap_allocations\<close> of \<open>demos.rs\<close>.

  \<^item> Memory. \<open>Frame_Allocator\<close> (\<open>memory.rs\<close>) hands out every usable frame once and in order. \<open>Paging\<close>
    (\<open>init_heap\<close>, \<open>create_example_mapping\<close>) maps exactly the heap's pages to fresh frames.

  \<^item> Threads and processes. \<open>Machine\<close> has the instructions of the assembly; \<open>Context_Switch\<close> and
    \<open>Thread_Scheduler\<close> (\<open>thread.rs\<close>) show that a switch resumes the other thread where it stopped, that the
    queue is round robin, that no sequence of operations panics and that a stack is released only when
    another thread runs. \<open>Scheduler_Counters\<close> (\<open>scheduler.rs\<close>) and \<open>Process_Registry\<close> (\<open>process.rs\<close>,
    \<open>kernel/service.rs\<close>) keep exact counts. \<open>Demos\<close> drives any finite set of worker threads to the end.

  \<^item> Devices. \<open>Vga_Buffer\<close> (\<open>vga_buffer.rs\<close>) refines a scrolling terminal. \<open>Keyboard\<close> (\<open>task/keyboard.rs\<close>)
    loses no wake-up wherever the interrupt falls. \<open>Logger\<close> (\<open>logger.rs\<close>) sends a line whole or counts it
    as dropped. \<open>Format\<close> has the digits of printed numbers. \<open>External_Interfaces\<close> has the contracts of the
    queue and of the waker slot.

  \<^item> Tasks. \<open>Task_Executor\<close> (\<open>task/mod.rs\<close>, \<open>task/executor.rs\<close>) drains its queue; \<open>Startup_Tasks\<close>
    runs \<open>example_task\<close> and \<open>print_keypresses\<close>, and every scan code reaches the screen.

  \<^item> Kernel boundary. \<open>Kernel_Call\<close> (\<open>kernel/mod.rs\<close>, \<open>kernel/abi.rs\<close>, \<open>kernel/service.rs\<close>) joins the states in
    the record \<open>kernel\<close>; \<open>Syscall\<close> (\<open>syscall.rs\<close>) has the interrupt routine as machine code and the dispatch of
    the four calls on every branch; \<open>Interrupts\<close> (\<open>interrupts.rs\<close>) has the handlers and the table, \<open>Gdt\<close>
    (\<open>gdt.rs\<close>) the selectors. A process can only write, read, yield and
    exit, and its fault kills it alone.

  \<^item> User land. \<open>Userland\<close> (\<open>userland.rs\<close>) loads the embedded programs and interprets them instruction
    by instruction through the kernel to their end.

  \<^item> Boot. \<open>Hardware_Init\<close> (\<open>lib.rs\<close>, \<open>gdt.rs\<close>, \<open>interrupts.rs\<close>), \<open>Boot_Screen\<close> and \<open>Boot\<close> (\<open>main.rs\<close>) compose
    everything into \<open>kernel_main\<close>, which reaches the executor's loop with a known screen, heap and map.

  \<^item> Locks. \<open>Spin_Locks\<close> has the lock scopes of every operation that takes a lock, and shows that no
    interleaving with interrupts leaves one of them spinning.

  \<^item> Tests. \<open>Unit_Tests_Heap\<close>, \<open>Unit_Tests_Kernel\<close> and \<open>Unit_Tests\<close> have every \<open>#[test_case]\<close> of the library and
    show that they pass in any order and number. \<open>Fault_Recovery\<close> has the two test kernels
    \<open>src/tests/fault_recovery_pf.rs\<close> and \<open>fault_recovery_gpf.rs\<close>.

  This theory puts the parts together: \<open>kernel_run\<close> is the transition system of all events after the
  heap is up, and \<open>system_inv\<close> the invariant that holds in each of its states.

  \<^bold>\<open>Bounds and fuel.\<close> Driving threads takes fuel; twice the remaining work and 2 are enough
  (\<open>Demos\<close>), which is 10 for the threading demo, and 3 for a process that faults. The user programs have
  fixed lengths, so the numbers in the theorems are the lengths of their runs. \<open>run_ready_tasks\<close> is a
  partial function and is shown to return. The loop in a poll of the keyboard task takes as many codes as the
  queue holds. 111 usable frames are enough for a boot: 25 heap pages and two pages of the process, each
  with up to three tables, and three tables for the example page. Counters and ids are
  assumed not to have wrapped around where a fresh id matters; each such theorem says so. \<open>Hlt\<close> at the
  end of a trace stands for the endless halt loop.

  \<^bold>\<open>Outside code.\<close> Crates are parameters with their documented behaviour: \<open>ArrayQueue\<close>
  (\<open>array_queue\<close>), \<open>AtomicWaker\<close> (\<open>atomic_waker\<close>), the page mapper, the frame and address types and the
  descriptor table of \<open>x86_64\<close> (\<open>page_mapper\<close>, \<open>frame_source\<close>, \<open>descriptor_table\<close>, \<open>platform_ok\<close>), the
  decoder of \<open>pc-keyboard\<close>, and the information of the bootloader (\<open>boot_info_ok\<close>). Each contract is
  interpreted on a concrete instance.

  \<^bold>\<open>Not modelled.\<close>

  \<^item> The drivers inside \<open>uart_16550\<close>, \<open>pic8259\<close>, \<open>bootloader\<close> and \<open>spin\<close>, which are outside code: what the
    kernel asks of them is recorded as bytes, trace entries and lock scopes.

  \<^item> The text that the standard library formats for a panic or an exception frame, which is an argument.

  \<^item> The log lines of the boot sequence: they go only to the serial port, whose behaviour
    under any sequence of messages is that of \<open>Logger\<close>.

  \<^item> Interrupts inside the boot sequence: their effects on the state are events of \<open>kernel_run\<close>,
    and their interplay with the locks is that of \<open>Spin_Locks\<close>.

  \<^item> \<open>UserContext\<close> and \<open>KernelStack\<close> of \<open>process.rs\<close>, types that no code uses.

  \<^item> The other test kernels of \<open>src/tests/\<close>: \<open>basic_boot\<close>, \<open>heap_allocation\<close>, \<open>async_tasks\<close> and
    \<open>runtime_observability\<close> call operations that are modelled on single inputs; \<open>should_panic\<close> tests the harness
    itself, and \<open>stack_overflow\<close> the double-fault delivery of the processor.
\<close>

section \<open>The kernel as one transition system\<close>

text \<open>
  Everything that can happen to the kernel's state once the heap is up: heap traffic of the
  collections, requests of any caller that the state can serve, system calls and faults of
  ring 3, timer ticks, scan codes, the start of the keyboard stream and decoded keys. The
  second component of a state is the client's record of the live heap blocks.
\<close>

inductive kernel_run ::
  "(u8, 'q) queue_ops \<Rightarrow> ('w, 's) waker_ops \<Rightarrow> (u64 \<Rightarrow> bool) \<Rightarrow> ('q, 's) kernel \<times> live \<Rightarrow> bool"
  for Q W present where
  boot: "fsb_init fsb_empty HEAP_START HEAP_SIZE = Inr heap \<Longrightarrow> vga_wf (WRITER_init screen) \<Longrightarrow>
    kernel_run Q W present ((Kernel_new boot_ctx W screen m)\<lparr>k_heap := heap\<rparr>, Map.empty)"
| heap: "kernel_run Q W present (k, L) \<Longrightarrow>
    serve_all fsb_alloc fsb_dealloc (k_heap k, L) rs = Inr (heap, L') \<Longrightarrow>
    kernel_run Q W present (k\<lparr>k_heap := heap\<rparr>, L')"
| request: "kernel_run Q W present (k, L) \<Longrightarrow> servable boxes r k \<Longrightarrow>
    call Q boxes caller r k = Inr (k', out) \<Longrightarrow> kernel_run Q W present (k', L)"
| syscall: "kernel_run Q W present (k, L) \<Longrightarrow> current (THREADS (k_thread k)) \<noteq> BOOTSTRAP_ID \<Longrightarrow>
    buffer_present present fr \<Longrightarrow> syscall_dispatch Q present fr k = Inr (k', sys) \<Longrightarrow>
    kernel_run Q W present (k', L)"
| fault: "kernel_run Q W present (k, L) \<Longrightarrow> current (THREADS (k_thread k)) \<noteq> BOOTSTRAP_ID \<Longrightarrow>
    current_process (k_thread k) \<noteq> KERNEL_PID \<Longrightarrow> faulted_in_ring3 code_segment \<Longrightarrow>
    page_fault_handler Q report code_segment k = Inr (k', ctx) \<or>
      gpf_handler Q report code_segment k = Inr (k', ctx) \<Longrightarrow>
    kernel_run Q W present (k', L)"
| timer: "kernel_run Q W present (k, L) \<Longrightarrow> unat (tick_count (SCHEDULER (k_thread k))) + 1 < 2 ^ 64 \<Longrightarrow>
    timer_interrupt_handler k = Inr (k', v) \<Longrightarrow> kernel_run Q W present (k', L)"
| scancode: "kernel_run Q W present (k, L) \<Longrightarrow>
    keyboard_interrupt_handler Q W code k = (k', r, v) \<Longrightarrow> kernel_run Q W present (k', L)"
| stream: "kernel_run Q W present (k, L) \<Longrightarrow> ScancodeStream_new Q (k_input k) = Inr i \<Longrightarrow>
    kernel_run Q W present (k\<lparr>k_input := i\<rparr>, L)"
| key: "kernel_run Q W present (k, L) \<Longrightarrow> handle_key Q key (k_input k, k_console k) = Inr (i, w) \<Longrightarrow>
    kernel_run Q W present (k\<lparr>k_input := i, k_console := w\<rparr>, L)"

lemma dispatch_heap_unchanged:
  "syscall_dispatch Q present fr k = Inr (k', sys) \<Longrightarrow> k_heap k' = k_heap k"
  by (auto simp: syscall_dispatch_def sys_exit_def sys_write_def sys_read_def sys_yield_def Let_def
      bind_res_eq_Inr simp del: call.simps dest!: call_processes_unchanged(5)
      split: if_splits option.splits prod.splits)

lemma kill_heap_unchanged:
  "kill_faulting_process Q k = Inr (k', ctx) \<Longrightarrow> k_heap k' = k_heap k"
  by (auto simp: kill_faulting_process_def Let_def bind_res_eq_Inr simp del: call.simps
      dest!: call_processes_unchanged(5) split: if_splits prod.splits)

lemma fault_heap_unchanged:
  "page_fault_handler Q report code_segment k = Inr (k', ctx) \<Longrightarrow> k_heap k' = k_heap k"
  "gpf_handler Q report code_segment k = Inr (k', ctx) \<Longrightarrow> k_heap k' = k_heap k"
  by (auto simp: page_fault_handler_def gpf_handler_def Let_def bind_res_eq_Inr
      dest!: kill_heap_unchanged split: if_splits)

definition system_inv :: "('q \<Rightarrow> u8 list) \<Rightarrow> ('q, 's) kernel \<times> live \<Rightarrow> bool" where
  "system_inv contents = (\<lambda>(k, L). kernel_inv contents k \<and> fsb_inv (k_heap k) L \<and>
    fsb_lo (k_heap k) = HEAP_START \<and> fsb_hi (k_heap k) = HEAP_START + HEAP_SIZE)"

lemma system_inv_same_heap:
  "system_inv contents (k, L) \<Longrightarrow> kernel_inv contents k' \<Longrightarrow> k_heap k' = k_heap k \<Longrightarrow>
    system_inv contents (k', L)"
  by (simp add: system_inv_def)

lemma dispatch_inv:
  assumes "array_queue Q capacity contents" and "kernel_inv contents k"
    and "current (THREADS (k_thread k)) \<noteq> BOOTSTRAP_ID" and "buffer_present present fr"
  shows "\<exists>k' sys. syscall_dispatch Q present fr k = Inr (k', sys) \<and> kernel_inv contents k'"
proof -
  consider (exit) "f_rax fr = SYS_EXIT" | (wr) "f_rax fr = SYS_WRITE" "f_rdi fr = STDOUT" "in_user_window fr"
    | (rd) "f_rax fr = SYS_READ" | (yield) "f_rax fr = SYS_YIELD"
    | (none) "f_rax fr \<notin> {SYS_EXIT, SYS_WRITE, SYS_READ, SYS_YIELD}"
    | (handle) "f_rax fr = SYS_WRITE" "f_rdi fr \<noteq> STDOUT"
    | (pointer) "f_rax fr = SYS_WRITE" "f_rdi fr = STDOUT" "\<not> in_user_window fr"
    by auto
  then show ?thesis
  proof cases
    case exit
    then show ?thesis using dispatch_exit_ok [OF assms(2,3), of fr Q present] by blast
  next
    case wr
    then show ?thesis using dispatch_write_ok [OF assms(2,4), of Q] by blast
  next
    case rd
    then show ?thesis using dispatch_read_ok [OF assms(1,2), of fr present] by blast
  next
    case yield
    then show ?thesis using dispatch_yield_ok [OF assms(2), of fr Q present] by blast
  qed (use assms(2) in \<open>simp_all add: dispatch_refused\<close>)
qed

lemma handlers_inv:
  assumes "kernel_inv contents k"
  shows "timer_interrupt_handler k = Inr (k', v) \<Longrightarrow>
      unat (tick_count (SCHEDULER (k_thread k))) + 1 < 2 ^ 64 \<Longrightarrow>
      kernel_inv contents k' \<and> k_heap k' = k_heap k"
    and "keyboard_interrupt_handler Q W code k = (k', r, v) \<Longrightarrow>
      kernel_inv contents k' \<and> k_heap k' = k_heap k"
  using hardware_interrupts_inv(1) [OF assms] hardware_interrupts_inv(2) [OF assms, of Q W code]
  by (auto simp: timer_interrupt_handler_def keyboard_interrupt_handler_def kernel_tick_def on_scancode_def
      bind_res_eq_Inr Let_def split: prod.splits)

lemma boot_inv:
  assumes "fsb_init fsb_empty HEAP_START HEAP_SIZE = Inr heap" and "vga_wf (WRITER_init screen)"
  shows "system_inv contents ((Kernel_new boot_ctx W screen m)\<lparr>k_heap := heap\<rparr>, Map.empty)"
proof -
  have "fsb_inv heap Map.empty" "fsb_lo heap = HEAP_START" "fsb_hi heap = HEAP_START + HEAP_SIZE"
    using fsb_inv_init [of HEAP_START HEAP_SIZE] assms(1) by (auto simp: HEAP_START_def HEAP_SIZE_def)
  then show ?thesis using kernel_inv_start [OF assms(2)] by (simp add: system_inv_def)
qed

lemma kernel_run_inv:
  assumes "array_queue Q capacity contents" and "kernel_run Q W present s"
  shows "system_inv contents s"
  using assms(2)
proof (induction rule: kernel_run.induct)
  case (boot heap screen boot_ctx m)
  then show ?case by (rule boot_inv)
next
  case (heap k L rs heap L')
  then have "fsb_inv (k_heap k) L" by (simp add: system_inv_def)
  with fsb.serve_all_safe [OF this, of rs] heap show ?case
    by (auto simp: system_inv_def kernel_inv_def)
next
  case (request k L boxes r caller k' out)
  then have "kernel_inv contents k'" using call_inv [OF assms(1), of k boxes r caller]
    by (auto simp: system_inv_def)
  with request show ?case using call_processes_unchanged(5) system_inv_same_heap by metis
next
  case (syscall k L fr k' sys)
  then have "kernel_inv contents k'" using dispatch_inv [OF assms(1), of k present fr]
    by (auto simp: system_inv_def)
  with syscall show ?case using dispatch_heap_unchanged system_inv_same_heap by metis
next
  case (fault k L code_segment report k' ctx)
  then have "kernel_inv contents k'" using fault_handlers_ok [of contents k code_segment Q report]
    by (auto simp: system_inv_def)
  with fault show ?case using fault_heap_unchanged system_inv_same_heap by metis
next
  case (timer k L k' v)
  then have "kernel_inv contents k" by (simp add: system_inv_def)
  from handlers_inv(1) [OF this] timer show ?case using system_inv_same_heap by blast
next
  case (scancode k L code k' r v)
  then have "kernel_inv contents k" by (simp add: system_inv_def)
  from handlers_inv(2) [OF this scancode(2)] scancode show ?case using system_inv_same_heap by blast
next
  case (stream k L i)
  have "contents (q_new Q KEY_QUEUE_CAPACITY) = []"
    using array_queue.new_contents [OF assms(1), of KEY_QUEUE_CAPACITY] by (simp add: KEY_QUEUE_CAPACITY_def)
  with stream show ?case
    by (auto simp: system_inv_def kernel_inv_def ScancodeStream_new_def key_queue_ascii_def split: if_splits)
next
  case (key k L key i w)
  then have "vga_wf (k_console k)" "key_queue_ascii contents (k_input k)"
    by (simp_all add: system_inv_def kernel_inv_def)
  from handle_key_ok [OF assms(1) this, of key] key show ?case
    by (auto simp: system_inv_def kernel_inv_def)
qed



end
